(* ===== verification/Prelude.thy ===== *)
theory Prelude
  imports Main
begin

text \<open>
  What every component shares: how a C++ call can fail to return a value, a state-passing
  result type with the combinators that compose calls, the rules for invariants of calls, and
  the collections of facts (\<open>m_simps\<close>, \<open>triples\<close>) the component theories extend.

  A call is a function from the state it works on to a pair of an outcome and the state it
  leaves behind. The state is part of a failing outcome too: an exception thrown halfway
  through an operation does not undo what the operation already did.
\<close>

section \<open>Outcomes\<close>

text \<open>
  The exceptions the program can meet: its own two classes (\<open>Net::NetException\<close> is derived
  from \<open>Util::Exception\<close>) and the two standard ones that \<open>std::stoi\<close>, \<open>vector::at\<close> and
  \<open>map::at\<close> throw.
\<close>

datatype exn =
    Util_Exception string
  | Net_Exception string
  | Invalid_Argument
  | Out_Of_Range

text \<open>\<open>catch (Util::Exception&)\<close> catches the derived class as well.\<close>

fun is_util_exception :: "exn \<Rightarrow> bool" where
  "is_util_exception (Util_Exception _) = True"
| "is_util_exception (Net_Exception _) = True"
| "is_util_exception Invalid_Argument = False"
| "is_util_exception Out_Of_Range = False"

text \<open>
  Why a call gave no value: it threw; its behaviour is undefined (an index past the end of a
  vector, an indeterminate value, signed overflow, a buffer overrun); it waits for input that
  has not arrived; or it repeats the same step for ever.
\<close>

datatype fault = Throws exn | Undefined | Blocks | Loops

type_synonym 'a res = "fault + 'a"
type_synonym ('s, 'a) M = "'s \<Rightarrow> 'a res \<times> 's"

section \<open>Combinators\<close>

named_theorems m_simps

definition ret :: "'a \<Rightarrow> ('s, 'a) M" where
  [m_simps]: "ret a = (\<lambda>s. (Inr a, s))"

definition fail :: "fault \<Rightarrow> ('s, 'a) M" where
  [m_simps]: "fail f = (\<lambda>s. (Inl f, s))"

definition throw :: "exn \<Rightarrow> ('s, 'a) M" where
  [m_simps]: "throw e = fail (Throws e)"

definition of_res :: "'a res \<Rightarrow> ('s, 'a) M" where
  [m_simps]: "of_res r = (\<lambda>s. (r, s))"

definition gets :: "('s \<Rightarrow> 'a) \<Rightarrow> ('s, 'a) M" where
  [m_simps]: "gets f = (\<lambda>s. (Inr (f s), s))"

definition modify :: "('s \<Rightarrow> 's) \<Rightarrow> ('s, unit) M" where
  [m_simps]: "modify f = (\<lambda>s. (Inr (), f s))"

definition bnd :: "('s, 'a) M \<Rightarrow> ('a \<Rightarrow> ('s, 'b) M) \<Rightarrow> ('s, 'b) M" where
  [m_simps]: "bnd m f =
    (\<lambda>s. case m s of (r, s') \<Rightarrow> (case r of Inl e \<Rightarrow> (Inl e, s') | Inr a \<Rightarrow> f a s'))"

definition seq :: "('s, unit) M \<Rightarrow> ('s, 'b) M \<Rightarrow> ('s, 'b) M" where
  [m_simps]: "seq m m' = bnd m (\<lambda>_. m')"

text \<open>
  \<open>try_catch p m h\<close> runs \<open>m\<close> and hands an exception that \<open>p\<close> selects to \<open>h\<close>, in the state
  the throwing call left. Only exceptions are caught.
\<close>

definition try_catch :: "(exn \<Rightarrow> bool) \<Rightarrow> ('s, 'a) M \<Rightarrow> (exn \<Rightarrow> ('s, 'a) M) \<Rightarrow> ('s, 'a) M" where
  [m_simps]: "try_catch p m h =
    (\<lambda>s. case m s of (r, s') \<Rightarrow>
       (case r of
          Inl f \<Rightarrow> (case f of Throws e \<Rightarrow> (if p e then h e s' else (Inl f, s')) | _ \<Rightarrow> (Inl f, s'))
        | Inr a \<Rightarrow> (Inr a, s')))"

text \<open>\<open>zoom\<close> runs a call on one part of a larger state.\<close>

definition zoom :: "('t \<Rightarrow> 's) \<Rightarrow> ('s \<Rightarrow> 't \<Rightarrow> 't) \<Rightarrow> ('s, 'a) M \<Rightarrow> ('t, 'a) M" where
  [m_simps]: "zoom sel upd m = (\<lambda>t. case m (sel t) of (r, s') \<Rightarrow> (r, upd s' t))"

text \<open>\<open>for_each xs body\<close> is a range-based \<open>for\<close>: it stops at the first failure.\<close>

fun for_each :: "'x list \<Rightarrow> ('x \<Rightarrow> ('s, unit) M) \<Rightarrow> ('s, unit) M" where
  "for_each [] body = ret ()"
| "for_each (x # xs) body = seq (body x) (for_each xs body)"

lemma bnd_ret [simp]: "bnd (ret a) f = f a"
  by (simp add: m_simps)

lemma bnd_assoc: "bnd (bnd m f) g = bnd m (\<lambda>a. bnd (f a) g)"
  by (rule ext) (simp add: bnd_def split: prod.split sum.split)

lemma seq_ret [simp]: "seq (ret u) m = m"
  by (simp add: m_simps)

lemma bnd_Inr: "m s = (Inr a, s') \<Longrightarrow> bnd m f s = f a s'"
  by (simp add: bnd_def)

lemma bnd_Inl: "m s = (Inl e, s') \<Longrightarrow> bnd m f s = (Inl e, s')"
  by (simp add: bnd_def)

lemma seq_Inr: "m s = (Inr u, s') \<Longrightarrow> seq m m' s = m' s'"
  by (simp add: seq_def bnd_def)

lemma seq_Inl: "m s = (Inl e, s') \<Longrightarrow> seq m m' s = (Inl e, s')"
  by (simp add: seq_def bnd_def)

lemma bnd_gets: "bnd (gets f) k s = k (f s) s"
  by (simp add: bnd_def gets_def)

lemma bnd_of_res [simp]: "bnd (of_res (Inr a)) k = k a" "bnd (of_res (Inl e)) k s = (Inl e, s)"
  by (simp_all add: bnd_def of_res_def)

lemma seq_Inr_iff: "seq m m' s = (Inr b, t) \<longleftrightarrow> (\<exists>s'. m s = (Inr (), s') \<and> m' s' = (Inr b, t))"
  by (auto simp: seq_def bnd_def split: prod.splits sum.splits)

lemma bnd_Inr_iff: "bnd m f s = (Inr b, t) \<longleftrightarrow> (\<exists>a s'. m s = (Inr a, s') \<and> f a s' = (Inr b, t))"
  by (auto simp: bnd_def split: prod.splits sum.splits)

lemma for_each_append:
  "for_each (xs @ ys) body = seq (for_each xs body) (for_each ys body)"
  by (induction xs) (simp_all add: seq_def bnd_assoc)

section \<open>Invariants of calls\<close>

text \<open>
  \<open>yields I m \<phi>\<close>: from a state with \<open>I\<close>, \<open>m\<close> leaves a state with \<open>I\<close>, also when it fails, and a
  value it returns satisfies \<open>\<phi>\<close>. \<open>keeps I m\<close> says nothing about the value.
\<close>

definition yields :: "('s \<Rightarrow> bool) \<Rightarrow> ('s, 'a) M \<Rightarrow> ('a \<Rightarrow> bool) \<Rightarrow> bool" where
  "yields I m \<phi> \<longleftrightarrow> (\<forall>s. I s \<longrightarrow> (case m s of (r, s') \<Rightarrow> I s' \<and> (\<forall>a. r = Inr a \<longrightarrow> \<phi> a)))"

abbreviation keeps :: "('s \<Rightarrow> bool) \<Rightarrow> ('s, 'a) M \<Rightarrow> bool" where
  "keeps I m \<equiv> yields I m (\<lambda>_. True)"

named_theorems triples

lemma yieldsI:
  "(\<And>s r s'. I s \<Longrightarrow> m s = (r, s') \<Longrightarrow> I s' \<and> (\<forall>a. r = Inr a \<longrightarrow> \<phi> a)) \<Longrightarrow> yields I m \<phi>"
  by (auto simp: yields_def split: prod.split)

lemma yieldsD: "yields I m \<phi> \<Longrightarrow> m s = (r, s') \<Longrightarrow> I s \<Longrightarrow> I s' \<and> (\<forall>a. r = Inr a \<longrightarrow> \<phi> a)"
  by (fastforce simp: yields_def)

lemma yields_state: "yields I m \<phi> \<Longrightarrow> I s \<Longrightarrow> I (snd (m s))"
  using yieldsD [of I m \<phi> s "fst (m s)" "snd (m s)"] by simp

lemma yields_weaken: "yields I m \<phi> \<Longrightarrow> (\<And>a. \<phi> a \<Longrightarrow> \<psi> a) \<Longrightarrow> yields I m \<psi>"
  by (fastforce simp: yields_def)

lemma yields_keeps: "yields I m \<phi> \<Longrightarrow> keeps I m"
  by (rule yields_weaken) auto

lemma yields_ret [triples]: "\<phi> a \<Longrightarrow> yields I (ret a) \<phi>"
  by (rule yieldsI) (auto simp: m_simps)

lemma yields_fail [triples]: "yields I (fail f) \<phi>"
  by (rule yieldsI) (auto simp: m_simps)

lemma yields_throw [triples]: "yields I (throw e) \<phi>"
  by (rule yieldsI) (auto simp: m_simps)

lemma yields_modify [triples]: "(\<And>s. I s \<Longrightarrow> I (f s)) \<Longrightarrow> \<phi> () \<Longrightarrow> yields I (modify f) \<phi>"
  by (rule yieldsI) (auto simp: m_simps)

lemma yields_of_res [triples]: "(\<And>a. r = Inr a \<Longrightarrow> \<phi> a) \<Longrightarrow> yields I (of_res r) \<phi>"
  by (rule yieldsI) (auto simp: m_simps)

lemma yields_gets [triples]: "(\<And>s. I s \<Longrightarrow> \<phi> (f s)) \<Longrightarrow> yields I (gets f) \<phi>"
  by (rule yieldsI) (auto simp: m_simps)

lemma yields_bnd: "yields I m \<phi> \<Longrightarrow> (\<And>a. \<phi> a \<Longrightarrow> yields I (f a) \<psi>) \<Longrightarrow> yields I (bnd m f) \<psi>"
proof (rule yieldsI)
  fix s r s'
  assume m: "yields I m \<phi>" and f: "\<And>a. \<phi> a \<Longrightarrow> yields I (f a) \<psi>"
    and "I s" and run: "bnd m f s = (r, s')"
  obtain r1 s1 where m1: "m s = (r1, s1)" by (cases "m s")
  with m \<open>I s\<close> have s1: "I s1" "\<forall>a. r1 = Inr a \<longrightarrow> \<phi> a" by (auto dest: yieldsD)
  show "I s' \<and> (\<forall>a. r = Inr a \<longrightarrow> \<psi> a)"
  proof (cases r1)
    case (Inl e)
    with run m1 s1 show ?thesis by (auto simp: bnd_def)
  next
    case (Inr a)
    with run m1 have "f a s1 = (r, s')" by (simp add: bnd_def)
    with f [of a] s1 Inr show ?thesis by (auto dest: yieldsD)
  qed
qed

lemma keeps_bnd [triples]: "keeps I m \<Longrightarrow> (\<And>a. yields I (f a) \<psi>) \<Longrightarrow> yields I (bnd m f) \<psi>"
  by (rule yields_bnd)

lemma yields_bnd_gets: "(\<And>s. I s \<Longrightarrow> yields I (k (f s)) \<psi>) \<Longrightarrow> yields I (bnd (gets f) k) \<psi>"
  by (rule yields_bnd [where \<phi> = "\<lambda>a. \<exists>s. I s \<and> a = f s"]) (auto intro: yields_gets)

lemma yields_bnd_of_res:
  "(\<And>a. r = Inr a \<Longrightarrow> yields I (k a) \<psi>) \<Longrightarrow> yields I (bnd (of_res r) k) \<psi>"
  by (rule yields_bnd [where \<phi> = "\<lambda>a. r = Inr a"]) (auto intro: yields_of_res)

lemma yields_seq [triples]: "keeps I m \<Longrightarrow> yields I m' \<psi> \<Longrightarrow> yields I (seq m m') \<psi>"
  by (simp add: seq_def yields_bnd)

lemma yields_if [triples]:
  "(b \<Longrightarrow> yields I m \<psi>) \<Longrightarrow> (\<not> b \<Longrightarrow> yields I m' \<psi>) \<Longrightarrow> yields I (if b then m else m') \<psi>"
  by simp

lemma yields_case_option [triples]:
  "(x = None \<Longrightarrow> yields I m \<psi>) \<Longrightarrow> (\<And>a. x = Some a \<Longrightarrow> yields I (f a) \<psi>) \<Longrightarrow>
   yields I (case x of None \<Rightarrow> m | Some a \<Rightarrow> f a) \<psi>"
  by (cases x) simp_all

lemma yields_case_prod [triples]:
  "(\<And>a b. x = (a, b) \<Longrightarrow> yields I (f a b) \<psi>) \<Longrightarrow> yields I (case x of (a, b) \<Rightarrow> f a b) \<psi>"
  by (cases x) simp

lemma yields_try [triples]:
  "yields I m \<psi> \<Longrightarrow> (\<And>e. yields I (h e) \<psi>) \<Longrightarrow> yields I (try_catch p m h) \<psi>"
proof (rule yieldsI)
  fix s r s'
  assume m: "yields I m \<psi>" and h: "\<And>e. yields I (h e) \<psi>" and "I s"
    and run: "try_catch p m h s = (r, s')"
  obtain r1 s1 where m1: "m s = (r1, s1)" by (cases "m s")
  have s1: "I s1 \<and> (\<forall>a. r1 = Inr a \<longrightarrow> \<psi> a)" by (rule yieldsD [OF m m1 \<open>I s\<close>])
  show "I s' \<and> (\<forall>a. r = Inr a \<longrightarrow> \<psi> a)"
  proof (cases "\<exists>e. r1 = Inl (Throws e) \<and> p e")
    case True
    then obtain e where "r1 = Inl (Throws e)" "p e" by blast
    with run m1 have "h e s1 = (r, s')" by (simp add: try_catch_def)
    with h s1 show ?thesis by (blast dest: yieldsD)
  next
    case False
    with run m1 have "r = r1 \<and> s' = s1"
      by (auto simp: try_catch_def split: sum.splits fault.splits if_splits)
    with s1 show ?thesis by simp
  qed
qed

lemma yields_zoom:
  "(\<And>t r s'. I t \<Longrightarrow> m (sel t) = (r, s') \<Longrightarrow> I (upd s' t) \<and> (\<forall>a. r = Inr a \<longrightarrow> \<psi> a)) \<Longrightarrow>
   yields I (zoom sel upd m) \<psi>"
  by (rule yieldsI) (auto simp: zoom_def split: prod.splits)

lemma keeps_for_each [triples]:
  "(\<And>x. x \<in> set xs \<Longrightarrow> keeps I (body x)) \<Longrightarrow> keeps I (for_each xs body)"
  by (induction xs) (simp_all add: yields_ret yields_seq)

text \<open>Composing outcomes without a state.\<close>

definition rbind :: "'a res \<Rightarrow> ('a \<Rightarrow> 'b res) \<Rightarrow> 'b res" where
  "rbind r f = (case r of Inl e \<Rightarrow> Inl e | Inr a \<Rightarrow> f a)"

lemma rbind_simps [simp]: "rbind (Inr a) f = f a" "rbind (Inl e) f = Inl e"
  by (simp_all add: rbind_def)

lemma rbind_Inr: "rbind r f = Inr b \<longleftrightarrow> (\<exists>a. r = Inr a \<and> f a = Inr b)"
  by (cases r) simp_all

section \<open>Lists\<close>

lemma takeWhile_all: "(\<And>x. x \<in> set xs \<Longrightarrow> P x) \<Longrightarrow> takeWhile P xs = xs"
  by (simp add: takeWhile_eq_all_conv)

lemma takeWhile_stop: "(\<And>x. x \<in> set xs \<Longrightarrow> P x) \<Longrightarrow> \<not> P y \<Longrightarrow> takeWhile P (xs @ y # ys) = xs"
  by (induction xs) auto

lemma dropWhile_stop: "(\<And>x. x \<in> set xs \<Longrightarrow> P x) \<Longrightarrow> \<not> P y \<Longrightarrow> dropWhile P (xs @ y # ys) = y # ys"
  by (induction xs) auto

end
