(* ===== verification/Cxx_Int.thy ===== *)
theory Cxx_Int
  imports Prelude
begin

text \<open>
  The standard library's conversions between \<open>int\<close> and text that the program uses:
  \<open>std::to_string\<close> (and \<open>operator<<\<close>, which prints an \<open>int\<close> the same way), \<open>std::stoi\<close> and
  \<open>operator>>\<close> on an \<open>int\<close>. An \<open>int\<close> has 32 bits; it is kept as a mathematical integer
  together with the range predicate \<open>in_int\<close>, because an operation that leaves the range is
  undefined in C++ rather than wrapping.
\<close>

section \<open>The type int\<close>

definition int_max :: int where
  "int_max = 2147483647"

definition int_min :: int where
  "int_min = - 2147483648"

definition in_int :: "int \<Rightarrow> bool" where
  "in_int i \<longleftrightarrow> int_min \<le> i \<and> i \<le> int_max"

lemma in_int_0 [simp]: "in_int 0"
  by (simp add: in_int_def int_min_def int_max_def)

lemma in_int_1 [simp]: "in_int 1"
  by (simp add: in_int_def int_min_def int_max_def)

section \<open>Characters\<close>

definition char_code :: "char \<Rightarrow> nat" where
  "char_code c = of_char c"

definition is_digit :: "char \<Rightarrow> bool" where
  "is_digit c \<longleftrightarrow> 48 \<le> char_code c \<and> char_code c \<le> 57"

text \<open>\<open>isspace\<close> in the C locale: tab, line feed, vertical tab, form feed, return and blank.\<close>

definition is_space :: "char \<Rightarrow> bool" where
  "is_space c \<longleftrightarrow> char_code c = 32 \<or> 9 \<le> char_code c \<and> char_code c \<le> 13"

definition digit_char :: "nat \<Rightarrow> char" where
  "digit_char d = char_of (48 + d)"

definition digit_val :: "char \<Rightarrow> nat" where
  "digit_val c = char_code c - 48"

lemma char_code_digit_char: "d < 10 \<Longrightarrow> char_code (digit_char d) = 48 + d"
  by (simp add: char_code_def digit_char_def)

lemma is_digit_digit_char [simp]: "d < 10 \<Longrightarrow> is_digit (digit_char d)"
  by (simp add: is_digit_def char_code_digit_char)

lemma digit_val_digit_char [simp]: "d < 10 \<Longrightarrow> digit_val (digit_char d) = d"
  by (simp add: digit_val_def char_code_digit_char)

lemma digit_not_space: "is_digit c \<Longrightarrow> \<not> is_space c"
  by (simp add: is_digit_def is_space_def)

lemma digit_neq [simp]:
  "is_digit c \<Longrightarrow> c \<noteq> CHR ''-''" "is_digit c \<Longrightarrow> c \<noteq> CHR ''+''" "is_digit c \<Longrightarrow> c \<noteq> CHR ''/''"
  "is_digit c \<Longrightarrow> c \<noteq> CHR '':''" "is_digit c \<Longrightarrow> c \<noteq> CHR 0x0A" "is_digit c \<Longrightarrow> c \<noteq> CHR 0x0D"
  "is_digit c \<Longrightarrow> c \<noteq> CHR 0x00"
  by (auto simp: is_digit_def char_code_def)

section \<open>Printing\<close>

fun nat_digits :: "nat \<Rightarrow> string" where
  "nat_digits n = (if n < 10 then [digit_char n] else nat_digits (n div 10) @ [digit_char (n mod 10)])"

declare nat_digits.simps [simp del]

definition to_string :: "int \<Rightarrow> string" where
  "to_string i = (if i < 0 then CHR ''-'' # nat_digits (nat (- i)) else nat_digits (nat i))"

definition digits_val :: "string \<Rightarrow> nat" where
  "digits_val ds = foldl (\<lambda>a c. 10 * a + digit_val c) 0 ds"

lemma nat_digits_ne [simp]: "nat_digits n \<noteq> []"
  by (subst nat_digits.simps) simp

lemma nat_digits_digits: "c \<in> set (nat_digits n) \<Longrightarrow> is_digit c"
proof (induction n arbitrary: c rule: nat_digits.induct)
  case (1 n)
  then show ?case
    by (cases "n < 10") (auto simp: nat_digits.simps [of n])
qed

lemma digits_val_nat_digits [simp]: "digits_val (nat_digits n) = n"
proof (induction n rule: nat_digits.induct)
  case (1 n)
  then show ?case
    by (cases "n < 10") (simp_all add: nat_digits.simps [of n] digits_val_def)
qed

lemma to_string_ne [simp]: "to_string i \<noteq> []"
  by (simp add: to_string_def)

lemma to_string_chars: "c \<in> set (to_string i) \<Longrightarrow> is_digit c \<or> c = CHR ''-''"
  by (auto simp: to_string_def nat_digits_digits split: if_splits)

lemma to_string_plain [simp]:
  "CHR 0x0A \<notin> set (to_string i)" "CHR 0x0D \<notin> set (to_string i)" "CHR 0x00 \<notin> set (to_string i)"
  "CHR ''/'' \<notin> set (to_string i)" "CHR '':'' \<notin> set (to_string i)"
proof -
  have "is_digit c \<or> c = CHR ''-''" if "c \<in> set (to_string i)" for c
    using that by (rule to_string_chars)
  moreover have "\<not> is_digit c" if "c \<in> {CHR 0x0A, CHR 0x0D, CHR 0x00, CHR ''/'', CHR '':''}" for c
    using that by (auto simp: is_digit_def char_code_def)
  ultimately show
    "CHR 0x0A \<notin> set (to_string i)" "CHR 0x0D \<notin> set (to_string i)" "CHR 0x00 \<notin> set (to_string i)"
    "CHR ''/'' \<notin> set (to_string i)" "CHR '':'' \<notin> set (to_string i)"
    by blast+
qed

section \<open>Parsing\<close>

text \<open>
  The longest prefix \<open>strtol\<close> reads in base ten: white space, an optional sign, digits. The
  result is \<open>None\<close> when there is no digit to read.
\<close>

definition strtol :: "string \<Rightarrow> int option" where
  "strtol s =
    (let t = dropWhile is_space s;
         neg = (t \<noteq> [] \<and> hd t = CHR ''-'');
         u = (if t \<noteq> [] \<and> (hd t = CHR ''-'' \<or> hd t = CHR ''+'') then tl t else t);
         ds = takeWhile is_digit u
     in if ds = [] then None
        else Some (if neg then - int (digits_val ds) else int (digits_val ds)))"

text \<open>\<open>std::stoi\<close>: what follows the number is ignored.\<close>

definition stoi :: "string \<Rightarrow> int res" where
  "stoi s = (case strtol s of
     None \<Rightarrow> Inl (Throws Invalid_Argument)
   | Some v \<Rightarrow> if in_int v then Inr v else Inl (Throws Out_Of_Range))"

text \<open>
  \<open>std::cin >> i\<close> on an \<open>int\<close>, with no check of the stream afterwards: a number that does not
  fit is clamped, text that is not a number stores 0, and when there is nothing but white
  space the variable keeps the value it had (\<open>None\<close>).
\<close>

definition extract_int :: "string \<Rightarrow> int option" where
  "extract_int s =
    (if dropWhile is_space s = [] then None
     else Some (case strtol s of
        None \<Rightarrow> 0
      | Some v \<Rightarrow> if v < int_min then int_min else if int_max < v then int_max else v))"

lemma strtol_to_string: "\<not> (zs \<noteq> [] \<and> is_digit (hd zs)) \<Longrightarrow> strtol (to_string i @ zs) = Some i"
proof -
  assume stop: "\<not> (zs \<noteq> [] \<and> is_digit (hd zs))"
  have tw: "takeWhile is_digit (nat_digits n @ zs) = nat_digits n" for n
    using stop by (cases zs) (auto simp: takeWhile_append nat_digits_digits takeWhile_all)
  have hd: "nat_digits n @ zs = c # cs \<Longrightarrow> is_digit c" for n c cs
    using nat_digits_digits [of c n] by (cases "nat_digits n") auto
  show ?thesis
  proof (cases "i < 0")
    case True
    then show ?thesis
      by (simp add: strtol_def to_string_def tw is_space_def char_code_def)
  next
    case False
    obtain c cs where eq: "nat_digits (nat i) @ zs = c # cs"
      using nat_digits_ne [of "nat i"] by (cases "nat_digits (nat i)") auto
    with hd have c: "is_digit c" by blast
    with eq False tw [of "nat i"] show ?thesis
      by (simp add: strtol_def to_string_def digit_not_space)
  qed
qed

lemma stoi_to_string_stop:
  "in_int i \<Longrightarrow> \<not> (zs \<noteq> [] \<and> is_digit (hd zs)) \<Longrightarrow> stoi (to_string i @ zs) = Inr i"
  by (simp add: stoi_def strtol_to_string)

lemma stoi_to_string [simp]: "in_int i \<Longrightarrow> stoi (to_string i) = Inr i"
  using stoi_to_string_stop [of i "[]"] by simp

lemma stoi_in_int: "stoi s = Inr i \<Longrightarrow> in_int i"
  by (auto simp: stoi_def split: option.splits if_splits)

lemma stoi_cases:
  obtains (parsed) i where "stoi s = Inr i" "in_int i"
  | (invalid) "stoi s = Inl (Throws Invalid_Argument)"
  | (too_big) "stoi s = Inl (Throws Out_Of_Range)"
proof (cases "strtol s")
  case None
  then show thesis by (intro invalid) (simp add: stoi_def)
next
  case (Some v)
  then show thesis
    using parsed [of v] too_big by (cases "in_int v") (simp_all add: stoi_def)
qed

lemma to_string_not_blank: "dropWhile is_space (to_string i) \<noteq> []"
proof -
  obtain c cs where eq: "to_string i = c # cs" by (cases "to_string i") auto
  then have "is_digit c \<or> c = CHR ''-''" using to_string_chars [of c i] by simp
  then have "\<not> is_space c"
    using digit_not_space [of c] by (auto simp: is_space_def char_code_def)
  with eq show ?thesis by simp
qed

lemma extract_to_string [simp]: "in_int i \<Longrightarrow> extract_int (to_string i) = Some i"
  using strtol_to_string [of "[]" i] to_string_not_blank [of i]
  by (simp add: extract_int_def in_int_def)

lemma extract_in_int: "extract_int s = Some i \<Longrightarrow> in_int i"
  by (auto simp: extract_int_def in_int_def int_min_def int_max_def split: option.splits if_splits)

lemma to_string_inj: "to_string i = to_string j \<Longrightarrow> i = j"
  using strtol_to_string [of "[]" i] strtol_to_string [of "[]" j] by simp

lemma length_nat_digits: "n < 10 ^ k \<Longrightarrow> 0 < k \<Longrightarrow> length (nat_digits n) \<le> k"
proof (induction n arbitrary: k rule: nat_digits.induct)
  case (1 n)
  show ?case
  proof (cases "n < 10")
    case True
    then show ?thesis using "1.prems" by (simp add: nat_digits.simps [of n])
  next
    case False
    then obtain k' where k: "k = Suc k'" "0 < k'"
      using "1.prems" by (cases k; cases "k - 1") auto
    with False "1.prems" have "length (nat_digits (n div 10)) \<le> k'"
      by (intro "1.IH") (auto simp: less_mult_imp_div_less mult.commute)
    with False k show ?thesis by (simp add: nat_digits.simps [of n])
  qed
qed

lemma length_to_string: "in_int i \<Longrightarrow> length (to_string i) \<le> 11"
proof -
  assume i: "in_int i"
  have "nat \<bar>i\<bar> < 10 ^ 10"
    using i by (auto simp: in_int_def int_min_def int_max_def nat_less_iff abs_if)
  then have "length (nat_digits (nat \<bar>i\<bar>)) \<le> 10"
    by (rule length_nat_digits) simp
  then show ?thesis by (cases "i < 0") (simp_all add: to_string_def)
qed

end
