(* ===== verification/World.thy ===== *)
theory World
  imports Cxx_Int "HOL-Library.Word"
begin

text \<open>
  The operating system as the program sees it. What a system call answers is a field of
  \<open>world\<close>: it is not the program's to decide. What the program changes (files it writes,
  signals it sends, descriptors it opens, lines it logs) is changed in the fields by the
  operations below. Programs the code starts (\<open>/bin/mkdir\<close>, \<open>/bin/bash\<close> running \<open>kvm\<close>) are not
  part of the repository: their effect is a parameter of the model, the record \<open>os\<close>.
\<close>

record world =
  w_file :: "string \<Rightarrow> string option" \<comment> \<open>contents of the regular files, by path\<close>
  w_isdir :: "string \<Rightarrow> bool" \<comment> \<open>\<open>stat\<close> succeeds and reports a directory\<close>
  w_entries :: "string \<Rightarrow> string list option" \<comment> \<open>\<open>opendir\<close> and the names \<open>readdir\<close> yields\<close>
  w_socket :: "nat \<Rightarrow> int" \<comment> \<open>what \<open>socket()\<close> returns when so many sockets are open\<close>
  w_fds :: nat \<comment> \<open>sockets opened and never passed to \<open>::close\<close>\<close>
  w_connects :: "string \<Rightarrow> 16 word \<Rightarrow> bool" \<comment> \<open>\<open>connect()\<close> to address and port succeeds\<close>
  w_reuses :: bool \<comment> \<open>\<open>setsockopt(SO_REUSEADDR)\<close> succeeds\<close>
  w_binds :: "16 word \<Rightarrow> bool" \<comment> \<open>\<open>bind()\<close> to the port succeeds\<close>
  w_listens :: "16 word \<Rightarrow> bool" \<comment> \<open>\<open>listen()\<close> on the bound port succeeds\<close>
  w_probe :: "int \<Rightarrow> bool" \<comment> \<open>\<open>::kill(pid, 0) == 0\<close>\<close>
  w_signals :: "(int \<times> int) list" \<comment> \<open>signals sent, as pairs of target and number\<close>
  w_clock :: string \<comment> \<open>the local time as \<open>strftime\<close> prints it for \<open>%T\<close>\<close>
  w_out :: "string list" \<comment> \<open>lines written to \<open>std::cout\<close> by the logger\<close>

text \<open>
  \<open>os_spawn os silent path argv w\<close>: \<open>fork\<close> in \<open>w\<close>, the child running \<open>execvp(path, argv)\<close> (with its
  standard streams on \<open>/dev/null\<close> if \<open>silent\<close>): the value \<open>fork\<close> returns to the parent and the
  world after. \<open>os_wait os pid w\<close>: the world when \<open>waitpid(pid)\<close> returns.
\<close>

record os =
  os_spawn :: "bool \<Rightarrow> string \<Rightarrow> string list \<Rightarrow> world \<Rightarrow> int \<times> world"
  os_wait :: "int \<Rightarrow> world \<Rightarrow> world"

section \<open>Files\<close>

text \<open>The directory part of a path: what precedes its last slash.\<close>

definition parent_dir :: "string \<Rightarrow> string" where
  "parent_dir path = rev (tl (dropWhile (\<lambda>c. c \<noteq> CHR ''/'') (rev path)))"

text \<open>
  Opening an \<open>ofstream\<close> truncates or creates the file, which needs its directory; a stream that
  did not open swallows what is written to it. Permissions and a full disk are not modelled.
\<close>

definition file_write :: "string \<Rightarrow> string \<Rightarrow> world \<Rightarrow> world" where
  "file_write path text w =
    (if w_isdir w (parent_dir path) \<and> \<not> w_isdir w path
     then w\<lparr>w_file := (w_file w)(path \<mapsto> text)\<rparr> else w)"

lemma parent_dir_join [simp]: "CHR ''/'' \<notin> set name \<Longrightarrow> parent_dir (dir @ CHR ''/'' # name) = dir"
proof -
  assume "CHR ''/'' \<notin> set name"
  then have "dropWhile (\<lambda>c. c \<noteq> CHR ''/'') (rev name @ CHR ''/'' # rev dir) = CHR ''/'' # rev dir"
    by (intro dropWhile_stop) auto
  then show ?thesis by (simp add: parent_dir_def)
qed

lemma file_write_frame [simp]:
  "w_isdir (file_write p t w) = w_isdir w"
  "w_entries (file_write p t w) = w_entries w"
  "w_socket (file_write p t w) = w_socket w"
  "w_fds (file_write p t w) = w_fds w"
  "w_connects (file_write p t w) = w_connects w"
  "w_reuses (file_write p t w) = w_reuses w"
  "w_binds (file_write p t w) = w_binds w"
  "w_listens (file_write p t w) = w_listens w"
  "w_probe (file_write p t w) = w_probe w"
  "w_signals (file_write p t w) = w_signals w"
  "w_clock (file_write p t w) = w_clock w"
  "w_out (file_write p t w) = w_out w"
  by (simp_all add: file_write_def)

lemma file_write_other [simp]: "q \<noteq> p \<Longrightarrow> w_file (file_write p t w) q = w_file w q"
  by (simp add: file_write_def)

lemma file_write_same:
  "w_isdir w (parent_dir p) \<Longrightarrow> \<not> w_isdir w p \<Longrightarrow> w_file (file_write p t w) p = Some t"
  by (simp add: file_write_def)

section \<open>Paths and C strings\<close>

text \<open>What a \<open>c_str()\<close> handed to a C function stands for: it ends at the first NUL.\<close>

definition c_str :: "string \<Rightarrow> string" where
  "c_str s = takeWhile (\<lambda>c. c \<noteq> CHR 0x00) s"

lemma c_str_id [simp]: "CHR 0x00 \<notin> set s \<Longrightarrow> c_str s = s"
  unfolding c_str_def by (rule takeWhile_all) auto

lemma c_str_idem [simp]: "c_str (c_str s) = c_str s"
  by (rule c_str_id) (auto simp: c_str_def dest: set_takeWhileD)

lemma c_str_to_string [simp]: "c_str (to_string i) = to_string i"
  by simp

lemma length_c_str: "length (c_str s) \<le> length s"
  by (simp add: c_str_def length_takeWhile_le)

text \<open>The port number \<open>htons\<close> leaves of an \<open>int\<close>: its low 16 bits.\<close>

definition htons_port :: "int \<Rightarrow> 16 word" where
  "htons_port port = word_of_int port"

lemma htons_port_mod: "htons_port p = htons_port q \<longleftrightarrow> p mod 65536 = q mod 65536"
  by (simp add: htons_port_def word_of_int_eq_iff take_bit_eq_mod)

lemma htons_port_int: "htons_port (uint u) = u"
  by (simp add: htons_port_def)

text \<open>
  A file or a directory lies in a directory (a root directory, whose own path is empty, aside).
\<close>

definition fs_ok :: "world \<Rightarrow> bool" where
  "fs_ok w \<longleftrightarrow>
    (\<forall>d name. d \<noteq> [] \<longrightarrow> CHR ''/'' \<notin> set name \<longrightarrow>
       w_file w (d @ CHR ''/'' # name) \<noteq> None \<or> w_isdir w (d @ CHR ''/'' # name) \<longrightarrow> w_isdir w d)"

lemma fs_okD:
  assumes "fs_ok w" "d \<noteq> []" "\<not> w_isdir w d" "CHR ''/'' \<notin> set name"
  shows "w_file w (d @ CHR ''/'' # name) = None" "\<not> w_isdir w (d @ CHR ''/'' # name)"
  using assms unfolding fs_ok_def by blast+

lemma fs_ok_write [simp]: "fs_ok w \<Longrightarrow> fs_ok (file_write p t w)"
  by (auto simp: fs_ok_def file_write_def)

text \<open>\<open>strftime\<close> prints into a buffer of 32 characters.\<close>

definition clock_ok :: "world \<Rightarrow> bool" where
  "clock_ok w \<longleftrightarrow> length (w_clock w) < 32"

section \<open>A world to evaluate examples in\<close>

definition idle_world :: world where
  "idle_world = \<lparr>w_file = (\<lambda>_. None), w_isdir = (\<lambda>d. d = ''/tmp'' \<or> d = ''/tmp/s1''), w_entries = (\<lambda>_. None),
     w_socket = (\<lambda>n. 3 + int n), w_fds = 0, w_connects = (\<lambda>_ _. False), w_reuses = True,
     w_binds = (\<lambda>_. True), w_listens = (\<lambda>_. True), w_probe = (\<lambda>pid. pid = - 1 \<or> pid = 4242),
     w_signals = [], w_clock = ''12:36:32'', w_out = []\<rparr>"

lemma idle_fs_ok: "fs_ok idle_world"
proof -
  have "d = ''/tmp''" if eq: "d @ CHR ''/'' # name = ''/tmp/s1''" and "CHR ''/'' \<notin> set name" for d name
    using parent_dir_join [OF that(2), of d] unfolding eq by (simp add: parent_dir_def)
  moreover have "d = []" if eq: "d @ CHR ''/'' # name = ''/tmp''" and "CHR ''/'' \<notin> set name" for d name
    using parent_dir_join [OF that(2), of d] unfolding eq by (simp add: parent_dir_def)
  ultimately show ?thesis
    unfolding fs_ok_def idle_world_def by simp blast
qed

end
