(* ===== verification/Cxx_Map.thy ===== *)
theory Cxx_Map
  imports Prelude "HOL-Library.Char_ord" "HOL-Library.List_Lexorder"
begin

text \<open>
  \<open>std::map\<close> as the program uses it: insertion by \<open>operator[]\<close> and assignment, \<open>find\<close>, and
  iteration in ascending order of the keys. A map is its list of entries. The keys are
  \<open>int\<close> and \<open>std::string\<close>; \<open>List_Lexorder\<close> over \<open>Char_ord\<close> is the order of
  \<open>std::string::compare\<close>.
\<close>

type_synonym ('k, 'v) cmap = "('k \<times> 'v) list"

section \<open>The interface\<close>

locale ordered_map =
  fixes empty :: "'m"
    and put :: "'k::linorder \<Rightarrow> 'v \<Rightarrow> 'm \<Rightarrow> 'm"
    and find :: "'m \<Rightarrow> 'k \<Rightarrow> 'v option"
    and entries :: "'m \<Rightarrow> ('k \<times> 'v) list"
    and ok :: "'m \<Rightarrow> bool"
  assumes entries_empty: "entries empty = []"
    and ok_empty: "ok empty"
    and ok_put: "ok m \<Longrightarrow> ok (put k v m)"
    and find_put: "ok m \<Longrightarrow> find (put k v m) k' = (if k' = k then Some v else find m k')"
    and find_entries: "ok m \<Longrightarrow> find m k = map_of (entries m) k"
    and entries_sorted: "ok m \<Longrightarrow> sorted_wrt (<) (map fst (entries m))"
begin

lemma find_empty: "find empty k = None"
  by (simp add: find_entries ok_empty entries_empty)

lemma entries_distinct: "ok m \<Longrightarrow> distinct (map fst (entries m))"
  using entries_sorted by (simp add: strict_sorted_iff)

lemma find_iff: "ok m \<Longrightarrow> find m k = Some v \<longleftrightarrow> (k, v) \<in> set (entries m)"
  by (simp add: find_entries map_of_eq_Some_iff entries_distinct)

lemma ok_fold: "ok m \<Longrightarrow> ok (fold (\<lambda>x. put (key x) (val x)) xs m)"
  by (induction xs arbitrary: m) (simp_all add: ok_put)

lemma find_fold_notin:
  "ok m \<Longrightarrow> k \<notin> key ` set xs \<Longrightarrow> find (fold (\<lambda>x. put (key x) (val x)) xs m) k = find m k"
  by (induction xs arbitrary: m) (auto simp: ok_put find_put)

lemma find_fold_in:
  "ok m \<Longrightarrow> distinct (map key xs) \<Longrightarrow> x \<in> set xs \<Longrightarrow>
   find (fold (\<lambda>x. put (key x) (val x)) xs m) (key x) = Some (val x)"
proof (induction xs arbitrary: m)
  case (Cons y ys)
  show ?case
  proof (cases "x = y")
    case True
    with Cons.prems show ?thesis by (simp add: find_fold_notin ok_put find_put)
  next
    case False
    with Cons show ?thesis by (simp add: ok_put)
  qed
qed simp

lemma find_fold_from_empty:
  "distinct (map key xs) \<Longrightarrow>
   find (fold (\<lambda>x. put (key x) (val x)) xs empty) k = map_of (map (\<lambda>x. (key x, val x)) xs) k"
proof (cases "k \<in> key ` set xs")
  case True
  then obtain x where "x \<in> set xs" "k = key x" by blast
  moreover assume "distinct (map key xs)"
  ultimately show ?thesis
    using find_fold_in [OF ok_empty, of key xs x val]
    by (simp add: map_of_eq_Some_iff [THEN iffD2] comp_def)
next
  case False
  then have "map_of (map (\<lambda>x. (key x, val x)) xs) k = None"
    by (auto simp: map_of_eq_None_iff)
  with False show ?thesis by (simp add: find_fold_notin ok_empty find_empty)
qed

text \<open>Two maps with the same lookups are iterated alike.\<close>

lemma entries_ext:
  assumes "ok m" "ok m'" "\<And>k. find m k = find m' k"
  shows "entries m = entries m'"
proof -
  have set_eq: "set (entries m) = set (entries m')"
  proof (rule set_eqI)
    fix e
    show "e \<in> set (entries m) \<longleftrightarrow> e \<in> set (entries m')"
      using assms(3) [of "fst e"] find_iff [OF assms(1), of "fst e" "snd e"]
        find_iff [OF assms(2), of "fst e" "snd e"] by simp
  qed
  have "inj_on fst (set (entries m))"
    using entries_distinct [OF assms(1)] by (simp add: distinct_map)
  with set_eq show ?thesis
    using entries_sorted [OF assms(1)] entries_sorted [OF assms(2)]
    by (intro map_sorted_distinct_set_unique [where f = fst]) (simp_all add: strict_sorted_iff)
qed

end

section \<open>The model\<close>

fun map_put :: "'k::linorder \<Rightarrow> 'v \<Rightarrow> ('k, 'v) cmap \<Rightarrow> ('k, 'v) cmap" where
  "map_put k v [] = [(k, v)]"
| "map_put k v (e # es) =
     (if fst e < k then e # map_put k v es
      else if fst e = k then (k, v) # es
      else (k, v) # e # es)"

definition map_find :: "('k, 'v) cmap \<Rightarrow> 'k \<Rightarrow> 'v option" where
  "map_find m k = map_of m k"

definition map_ok :: "('k::linorder, 'v) cmap \<Rightarrow> bool" where
  "map_ok m \<longleftrightarrow> sorted_wrt (<) (map fst m)"

text \<open>\<open>for (auto& kv : m)\<close>: the values in the order of their keys.\<close>

definition map_values :: "('k, 'v) cmap \<Rightarrow> 'v list" where
  "map_values m = map snd m"

lemma set_keys_put [simp]: "fst ` set (map_put k v m) = insert k (fst ` set m)"
  by (induction m) auto

lemma map_ok_Nil [simp]: "map_ok []"
  by (simp add: map_ok_def)

lemma map_ok_put [simp]: "map_ok m \<Longrightarrow> map_ok (map_put k v m)"
proof (induction m)
  case (Cons e es)
  then have es: "map_ok es" and lt: "\<forall>y \<in> fst ` set es. fst e < y"
    by (auto simp: map_ok_def)
  from Cons.IH [OF es] have "sorted_wrt (<) (map fst (map_put k v es))"
    by (simp add: map_ok_def)
  moreover have "\<forall>y \<in> fst ` set (map_put k v es). fst e < y" if "fst e < k"
    using lt that by simp
  ultimately show ?case
    using es lt by (auto simp: map_ok_def not_less_iff_gr_or_eq)
qed (simp add: map_ok_def)

lemma map_find_put [simp]: "map_find (map_put k v m) k' = (if k' = k then Some v else map_find m k')"
  if "map_ok m"
  using that
proof (induction m)
  case (Cons e es)
  then have es: "map_ok es" and lt: "\<forall>y \<in> fst ` set es. fst e < y"
    by (auto simp: map_ok_def)
  have "map_of es k = None" if "k < fst e"
    using lt that by (force simp: map_of_eq_None_iff)
  then show ?case
    using Cons.IH [OF es] by (cases e) (auto simp: map_find_def)
qed (simp add: map_find_def)

interpretation cxx_map: ordered_map "[]" map_put map_find "\<lambda>m. m" map_ok
  by unfold_locales (simp_all, simp_all add: map_find_def map_ok_def)

lemma map_find_Nil [simp]: "map_find [] k = None"
  by (simp add: map_find_def)

lemma map_find_values: "map_ok m \<Longrightarrow> map_find m k = Some v \<Longrightarrow> v \<in> set (map_values m)"
  by (force simp: cxx_map.find_iff map_values_def)

lemma map_values_find: "map_ok m \<Longrightarrow> v \<in> set (map_values m) \<Longrightarrow> \<exists>k. map_find m k = Some v"
  by (force simp: cxx_map.find_iff map_values_def)

lemma map_put_put [simp]: "map_put k v (map_put k u m) = map_put k v m"
  by (induction m) auto

lemma map_put_same: "map_ok m \<Longrightarrow> map_find m k = Some v \<Longrightarrow> map_put k v m = m"
  by (rule cxx_map.entries_ext) auto

lemma map_find_put_eq: "map_find (map_put k v m) k = Some v"
  by (induction m) (auto simp: map_find_def)

end
