(* ===== verification/Util.thy ===== *)
theory Util
  imports World Cxx_Map
begin

text \<open>
  \<open>src/src/Util\<close>: the exception class, the helpers (address splitting, the \<open>sprintf\<close> wrapper,
  map membership), the logger and the cookies in which a virtual machine's metadata is kept.
\<close>

section \<open>Exception.hpp and NetException.hpp\<close>

text \<open>\<open>std::runtime_error\<close> is given \<open>message.c_str()\<close>, so a NUL ends the message.\<close>

definition util_exception :: "string \<Rightarrow> string \<Rightarrow> exn" where
  "util_exception location what = Util_Exception (c_str (''in '' @ location @ '': '' @ what))"

definition net_exception :: "string \<Rightarrow> string \<Rightarrow> exn" where
  "net_exception location what = Net_Exception (c_str (''in '' @ location @ '': '' @ what))"

fun exn_what :: "exn \<Rightarrow> string" where
  "exn_what (Util_Exception m) = m"
| "exn_what (Net_Exception m) = m"
| "exn_what Invalid_Argument = ''stoi''"
| "exn_what Out_Of_Range = ''stoi''"

lemma is_util_exceptions [simp]:
  "is_util_exception (util_exception l m)" "is_util_exception (net_exception l m)"
  by (simp_all add: util_exception_def net_exception_def)

section \<open>Helpers.hpp\<close>

text \<open>
  \<open>string::find\<close> and \<open>string::substr\<close> work on \<open>size_t\<close>: \<open>npos\<close> is its largest value and
  \<open>npos + 1\<close> is 0.
\<close>

definition npos :: "64 word" where
  "npos = - 1"

definition str_find :: "string \<Rightarrow> char \<Rightarrow> 64 word" where
  "str_find s c = (if c \<in> set s then of_nat (length (takeWhile (\<lambda>x. x \<noteq> c) s)) else npos)"

definition substr :: "string \<Rightarrow> 64 word \<Rightarrow> 64 word \<Rightarrow> string res" where
  "substr s pos n =
    (if length s < unat pos then Inl (Throws Out_Of_Range) else Inr (take (unat n) (drop (unat pos) s)))"

text \<open>The longest string the standard library can hold is below the range of \<open>size_t\<close>.\<close>

definition str_fits :: "string \<Rightarrow> bool" where
  "str_fits s \<longleftrightarrow> length s < 2 ^ 64 - 1"

definition explodeAddress :: "string \<Rightarrow> (string \<times> int) res" where
  "explodeAddress addr =
    (case substr addr 0 (str_find addr CHR '':'') of
       Inl e \<Rightarrow> Inl e
     | Inr host \<Rightarrow>
         (case substr addr (str_find addr CHR '':'' + 1) npos of
            Inl e \<Rightarrow> Inl e
          | Inr rest \<Rightarrow> (case stoi rest of Inl e \<Rightarrow> Inl e | Inr port \<Rightarrow> Inr (host, port))))"

definition mapExists :: "('k, 'v) cmap \<Rightarrow> 'k \<Rightarrow> bool" where
  "mapExists m k \<longleftrightarrow> map_find m k \<noteq> None"

lemma unat_npos: "unat npos = 2 ^ 64 - 1"
  by (simp add: npos_def unsigned_minus_1_eq_mask mask_eq_exp_minus_1)

lemma unat_of_nat_fits: "n < 2 ^ 64 \<Longrightarrow> unat (of_nat n :: 64 word) = n"
  by (simp add: unat_of_nat)

lemma take_npos: "str_fits s \<Longrightarrow> take (unat npos) s = s"
  by (simp only: unat_npos str_fits_def) simp

lemma takeWhile_neq_all: "c \<notin> set s \<Longrightarrow> takeWhile (\<lambda>x. x \<noteq> c) s = s"
  by (rule takeWhile_all) auto

lemma substr_to_find:
  assumes "str_fits s"
  shows "substr s 0 (str_find s c) = Inr (takeWhile (\<lambda>x. x \<noteq> c) s)"
proof (cases "c \<in> set s")
  case True
  let ?k = "length (takeWhile (\<lambda>x. x \<noteq> c) s)"
  have "?k < 2 ^ 64"
    using assms length_takeWhile_le [of "\<lambda>x. x \<noteq> c" s] unfolding str_fits_def by linarith
  then have "unat (str_find s c) = ?k"
    using True by (simp only: str_find_def if_True unat_of_nat_fits)
  moreover have "take ?k s = takeWhile (\<lambda>x. x \<noteq> c) s"
    by (metis takeWhile_eq_take)
  ultimately show ?thesis by (simp add: substr_def)
next
  case False
  then show ?thesis
    using assms by (simp add: substr_def str_find_def take_npos takeWhile_neq_all)
qed

lemma substr_after_find_in:
  assumes fits: "str_fits (xs @ c # ys)" and c: "c \<notin> set xs"
  shows "substr (xs @ c # ys) (str_find (xs @ c # ys) c + 1) npos = Inr ys"
proof -
  have tw: "takeWhile (\<lambda>x. x \<noteq> c) (xs @ c # ys) = xs"
    using c by (intro takeWhile_stop) auto
  have "length xs + 1 < 2 ^ 64"
    using fits unfolding str_fits_def length_append list.size by linarith
  then have pos: "unat (str_find (xs @ c # ys) c + 1) = Suc (length xs)"
    using unat_of_nat_fits [of "length xs + 1"] by (simp add: str_find_def tw add.commute)
  have "str_fits ys"
    using fits unfolding str_fits_def length_append list.size by linarith
  then show ?thesis
    unfolding substr_def pos by (simp add: take_npos)
qed

lemma substr_after_find_notin:
  assumes "str_fits s" "c \<notin> set s"
  shows "substr s (str_find s c + 1) npos = Inr s"
proof -
  have "str_find s c + 1 = 0" using assms(2) by (simp add: str_find_def npos_def)
  then show ?thesis using assms(1) by (simp add: substr_def take_npos)
qed

text \<open>
  \<open>sprintf\<close> into a buffer of 1024 characters, for a format whose only conversions are \<open>%s\<close>; a
  missing argument, another conversion or a result that does not fit with its NUL is undefined.
\<close>

fun format_s :: "string \<Rightarrow> string list \<Rightarrow> string res" where
  "format_s [] args = Inr []"
| "format_s (c # fs) args =
    (if c = CHR ''%'' then
       (case fs of
          [] \<Rightarrow> Inl Undefined
        | d # fs' \<Rightarrow>
            (if d = CHR ''s'' then
               (case args of
                  [] \<Rightarrow> Inl Undefined
                | a # as \<Rightarrow>
                    (case format_s fs' as of Inl e \<Rightarrow> Inl e | Inr out \<Rightarrow> Inr (c_str a @ out)))
             else Inl Undefined))
     else (case format_s fs args of Inl e \<Rightarrow> Inl e | Inr out \<Rightarrow> Inr (c # out)))"

definition printf :: "string \<Rightarrow> string list \<Rightarrow> string res" where
  "printf format args =
    (case format_s format args of
       Inl e \<Rightarrow> Inl e
     | Inr out \<Rightarrow> if length out < 1024 then Inr out else Inl Undefined)"

section \<open>Logger.hpp\<close>

datatype level = DEBUG | INFO | WARN | ERROR | NONE

fun level_num :: "level \<Rightarrow> int" where
  "level_num DEBUG = 0"
| "level_num INFO = 1"
| "level_num WARN = 2"
| "level_num ERROR = 3"
| "level_num NONE = 4"

fun levelString :: "level \<Rightarrow> string" where
  "levelString DEBUG = ''DEBUG''"
| "levelString INFO = ''INFO''"
| "levelString WARN = ''WARN''"
| "levelString ERROR = ''ERROR''"
| "levelString NONE = ''NONE''"

text \<open>
  \<open>strftime\<close> prints into a buffer of 32 characters, which it leaves indeterminate when the time does
  not fit with its NUL.
\<close>

definition timeString :: "(world, string) M" where
  "timeString =
    bnd (gets w_clock) (\<lambda>clock. if length clock < 32 then ret (c_str clock) else fail Undefined)"

definition log_output :: "level \<Rightarrow> level \<Rightarrow> string \<Rightarrow> (world, unit) M" where
  "log_output loggerLevel messageLevel message =
    (if level_num messageLevel \<ge> level_num loggerLevel
     then bnd timeString (\<lambda>time.
          bnd (of_res (printf ''[%s] %s : %s'' [levelString messageLevel, time, message])) (\<lambda>line.
            modify (\<lambda>w. w\<lparr>w_out := w_out w @ [line]\<rparr>)))
     else ret ())"

text \<open>Every program of the repository creates its logger with level \<open>INFO\<close>.\<close>

definition log_debug :: "string \<Rightarrow> (world, unit) M" where
  "log_debug = log_output INFO DEBUG"

definition log_info :: "string \<Rightarrow> (world, unit) M" where
  "log_info = log_output INFO INFO"

definition log_warn :: "string \<Rightarrow> (world, unit) M" where
  "log_warn = log_output INFO WARN"

definition log_error :: "string \<Rightarrow> (world, unit) M" where
  "log_error = log_output INFO ERROR"

text \<open>The line the logger prints, when it fits.\<close>

definition log_line :: "level \<Rightarrow> string \<Rightarrow> string \<Rightarrow> string" where
  "log_line l clock message = ''['' @ levelString l @ ''] '' @ clock @ '' : '' @ message"

lemma levelString_c_str [simp]: "c_str (levelString l) = levelString l"
  by (cases l) (simp_all add: c_str_def)

lemma format_log:
  "format_s ''[%s] %s : %s'' [levelString l, clock, message] = Inr (log_line l (c_str clock) (c_str message))"
  by (simp add: log_line_def)

lemma log_output_eq:
  "log_output lo l message w =
    (if level_num l < level_num lo then (Inr (), w)
     else if clock_ok w \<and> length (log_line l (c_str (w_clock w)) (c_str message)) < 1024
     then (Inr (), w\<lparr>w_out := w_out w @ [log_line l (c_str (w_clock w)) (c_str message)]\<rparr>)
     else (Inl Undefined, w))"
  by (simp add: log_output_def timeString_def m_simps printf_def format_log clock_ok_def del: format_s.simps)

lemma log_debug_silent: "log_debug message w = (Inr (), w)"
  by (simp add: log_debug_def log_output_eq)

lemma log_output_line:
  assumes "clock_ok w" "length message \<le> 900"
  shows "log_output lo l message w = (Inr (), w\<lparr>w_out := (if level_num l < level_num lo
      then w_out w else w_out w @ [log_line l (c_str (w_clock w)) (c_str message)])\<rparr>)"
proof -
  have "length (levelString l) \<le> 5" by (cases l) simp_all
  then have "length (log_line l (c_str (w_clock w)) (c_str message)) < 1024"
    using assms length_c_str [of "w_clock w"] length_c_str [of message]
    by (simp add: log_line_def clock_ok_def)
  then show ?thesis using assms(1) by (simp add: log_output_eq)
qed

lemma log_output_short:
  "clock_ok w \<Longrightarrow> length message \<le> 900 \<Longrightarrow> \<exists>out. log_output lo l message w = (Inr (), w\<lparr>w_out := out\<rparr>)"
  using log_output_line by blast

section \<open>Cookie.hpp\<close>

definition cookie_write_string :: "string \<Rightarrow> string \<Rightarrow> (world, unit) M" where
  "cookie_write_string cookie data = modify (file_write cookie data)"

definition cookie_write_int :: "string \<Rightarrow> int \<Rightarrow> (world, unit) M" where
  "cookie_write_int cookie data = modify (file_write cookie (to_string data))"

definition cookie_missing :: exn where
  "cookie_missing = util_exception ''Cookie::read(string)'' ''file does not exist''"

text \<open>The specialisation for \<open>string\<close> reads the first line.\<close>

definition cookie_read_string :: "string \<Rightarrow> (world, string) M" where
  "cookie_read_string cookie =
    bnd (gets w_file) (\<lambda>files.
      case files cookie of
        None \<Rightarrow> throw cookie_missing
      | Some text \<Rightarrow> ret (takeWhile (\<lambda>c. c \<noteq> CHR 0x0A) text))"

text \<open>
  The \<open>int\<close> instance returns its uninitialised local when the file holds nothing but white
  space, which is undefined; text that is not a number is read as 0.
\<close>

definition cookie_read_int :: "string \<Rightarrow> (world, int) M" where
  "cookie_read_int cookie =
    bnd (gets w_file) (\<lambda>files.
      case files cookie of
        None \<Rightarrow> throw cookie_missing
      | Some text \<Rightarrow> (case extract_int text of None \<Rightarrow> fail Undefined | Some i \<Rightarrow> ret i))"

text \<open>A cookie store: what is written is read back, and other cookies are not touched.\<close>

lemma cookie_write_run:
  "cookie_write_string c s w = (Inr (), file_write c s w)"
  "cookie_write_int c i w = (Inr (), file_write c (to_string i) w)"
  by (simp_all add: cookie_write_string_def cookie_write_int_def m_simps)

lemma cookie_read_string_run:
  "cookie_read_string c w =
    ((case w_file w c of None \<Rightarrow> Inl (Throws cookie_missing)
      | Some t \<Rightarrow> Inr (takeWhile (\<lambda>c. c \<noteq> CHR 0x0A) t)), w)"
  by (simp add: cookie_read_string_def m_simps split: option.split)

lemma cookie_read_int_run:
  "cookie_read_int c w =
    ((case w_file w c of None \<Rightarrow> Inl (Throws cookie_missing)
      | Some t \<Rightarrow> (case extract_int t of None \<Rightarrow> Inl Undefined | Some i \<Rightarrow> Inr i)), w)"
  by (simp add: cookie_read_int_def m_simps split: option.split)

section \<open>Levels are ordered\<close>

instantiation level :: linorder
begin

definition less_eq_level :: "level \<Rightarrow> level \<Rightarrow> bool" where
  "less_eq_level a b \<longleftrightarrow> level_num a \<le> level_num b"

definition less_level :: "level \<Rightarrow> level \<Rightarrow> bool" where
  "less_level a b \<longleftrightarrow> level_num a < level_num b"

instance
proof
  show "a \<le> b \<Longrightarrow> b \<le> a \<Longrightarrow> a = b" for a b :: level
    by (cases a; cases b) (simp_all add: less_eq_level_def)
qed (auto simp: less_eq_level_def less_level_def)

end

section \<open>Properties\<close>

text \<open>
  \<open>explodeAddress\<close> on any address: the host is what precedes the first colon and the port is the
  number after it; without a colon both are taken from the whole text, because \<open>npos + 1\<close> is 0.
  It throws exactly when \<open>stoi\<close> does.
\<close>

theorem explodeAddress_splits:
  assumes "str_fits addr"
  shows "explodeAddress addr =
    (if CHR '':'' \<in> set addr
     then rbind (stoi (tl (dropWhile (\<lambda>c. c \<noteq> CHR '':'') addr))) (\<lambda>port. Inr (takeWhile (\<lambda>c. c \<noteq> CHR '':'') addr, port))
     else rbind (stoi addr) (\<lambda>port. Inr (addr, port)))"
proof (cases "CHR '':'' \<in> set addr")
  case True
  then obtain host rest where addr: "addr = host @ CHR '':'' # rest" "CHR '':'' \<notin> set host"
    by (meson split_list_first)
  have "takeWhile (\<lambda>c. c \<noteq> CHR '':'') addr = host" "dropWhile (\<lambda>c. c \<noteq> CHR '':'') addr = CHR '':'' # rest"
    using addr(2) unfolding addr(1) by (auto intro!: takeWhile_stop dropWhile_stop)
  then show ?thesis
    using True assms addr substr_to_find [of addr "CHR '':''"] substr_after_find_in [of host "CHR '':''" rest]
    by (simp add: explodeAddress_def rbind_def)
next
  case False
  then show ?thesis
    using assms by (simp add: explodeAddress_def substr_to_find substr_after_find_notin takeWhile_neq_all rbind_def)
qed

theorem explodeAddress_splits_witness:
  "explodeAddress ''10.0.0.7:8050'' =
    (if CHR '':'' \<in> set ''10.0.0.7:8050''
     then rbind (stoi (tl (dropWhile (\<lambda>c. c \<noteq> CHR '':'') ''10.0.0.7:8050'')))
       (\<lambda>port. Inr (takeWhile (\<lambda>c. c \<noteq> CHR '':'') ''10.0.0.7:8050'', port))
     else rbind (stoi ''10.0.0.7:8050'') (\<lambda>port. Inr (''10.0.0.7:8050'', port)))"
  by (rule explodeAddress_splits) (simp add: str_fits_def)

text \<open>
  A log line is printed into 1024 characters: below the logger's level nothing happens, a line
  that fits with its NUL is appended to the output (the time is printed into 32), and every longer line, such as one that
  quotes a long request, overruns the buffer.
\<close>

theorem log_output_bounds:
  "log_output loggerLevel messageLevel message w =
    (let line = ''['' @ levelString messageLevel @ ''] '' @ c_str (w_clock w) @ '' : '' @ c_str message
     in if messageLevel < loggerLevel then (Inr (), w)
        else if length (w_clock w) < 32 \<and> length line < 1024 then (Inr (), w\<lparr>w_out := w_out w @ [line]\<rparr>)
        else (Inl Undefined, w))"
  by (simp add: log_output_eq log_line_def less_level_def clock_ok_def Let_def del: append.simps)

text \<open>
  Reading a number cookie on any file: a missing file is the only error. Text that is no number
  is read as 0 and a number that does not fit is clamped, so corrupted metadata passes for valid;
  a blank file leaves the variable uninitialised.
\<close>

theorem cookie_read_int_total:
  "cookie_read_int cookie w =
    (case w_file w cookie of
       None \<Rightarrow> (Inl (Throws (Util_Exception ''in Cookie::read(string): file does not exist'')), w)
     | Some text \<Rightarrow>
         if list_all is_space text then (Inl Undefined, w)
         else (Inr (case strtol text of None \<Rightarrow> 0 | Some v \<Rightarrow> max int_min (min int_max v)), w))"
proof (cases "w_file w cookie")
  case None
  then show ?thesis
    by (simp add: cookie_read_int_run cookie_missing_def util_exception_def)
next
  case (Some t)
  have "dropWhile is_space t = [] \<longleftrightarrow> list_all is_space t"
    by (simp add: list_all_iff)
  moreover have "int_min \<le> int_max" by (simp add: int_min_def int_max_def)
  ultimately show ?thesis
    using Some by (auto simp: cookie_read_int_run extract_int_def max_def min_def split: option.split)
qed

text \<open>
  A cookie that was written is read back: a number of type \<open>int\<close> exactly, a text up to its
  first line feed, and no other cookie is touched.
\<close>

theorem cookie_roundtrip:
  assumes "w_isdir w (parent_dir cookie)" and "\<not> w_isdir w cookie" and "in_int i"
  shows "bnd (cookie_write_int cookie i) (\<lambda>_. cookie_read_int cookie) w = (Inr i, file_write cookie (to_string i) w)
    \<and> bnd (cookie_write_string cookie t) (\<lambda>_. cookie_read_string cookie) w
      = (Inr (takeWhile (\<lambda>c. c \<noteq> CHR 0x0A) t), file_write cookie t w)
    \<and> w_file (snd (cookie_write_string cookie t w)) = (w_file w)(cookie \<mapsto> t)"
  using assms
  by (simp add: file_write_def bnd_def cookie_write_run cookie_read_int_run cookie_read_string_run file_write_same)

theorem cookie_roundtrip_witness:
  "bnd (cookie_write_int ''/tmp/s1/.ssh'' 2201) (\<lambda>_. cookie_read_int ''/tmp/s1/.ssh'') idle_world
      = (Inr 2201, file_write ''/tmp/s1/.ssh'' (to_string 2201) idle_world)
    \<and> bnd (cookie_write_string ''/tmp/s1/.ssh'' ''wheezy'') (\<lambda>_. cookie_read_string ''/tmp/s1/.ssh'') idle_world
      = (Inr (takeWhile (\<lambda>c. c \<noteq> CHR 0x0A) ''wheezy''), file_write ''/tmp/s1/.ssh'' ''wheezy'' idle_world)
    \<and> w_file (snd (cookie_write_string ''/tmp/s1/.ssh'' ''wheezy'' idle_world))
      = (w_file idle_world)(''/tmp/s1/.ssh'' \<mapsto> ''wheezy'')"
  by (rule cookie_roundtrip)
    (simp_all add: idle_world_def parent_dir_def in_int_def int_min_def int_max_def)

end
