(* ===== verification/Sys_Process.thy ===== *)
theory Sys_Process
  imports Util
begin

text \<open>
  \<open>src/src/Sys/Process.hpp\<close>: a program to run, the options it is given and the process id of its
  last run (0 before the first). The child's side of \<open>fork\<close> is the argument vector it builds; what
  the started program does to the world is the parameter \<open>os\<close>.
\<close>

record process =
  p_path :: string
  p_opts :: "string list"
  p_pid :: int

definition Process_new :: "string \<Rightarrow> string list \<Rightarrow> process" where
  "Process_new path opts = \<lparr>p_path = path, p_opts = opts, p_pid = 0\<rparr>"

definition isRunning :: "process \<Rightarrow> world \<Rightarrow> bool" where
  "isRunning p w = (if p_pid p = 0 then False else w_probe w (p_pid p))"

text \<open>The child inserts an empty first option and copies each option as a C string.\<close>

definition exec_args :: "string list \<Rightarrow> string list" where
  "exec_args opts = map c_str ('''' # opts)"

definition already_running :: exn where
  "already_running = util_exception ''Process::run(bool)'' ''attempt to run running process''"

text \<open>\<open>run\<close> as the parent sees it: the process id and the object with it stored.\<close>

definition Process_run :: "os \<Rightarrow> bool \<Rightarrow> process \<Rightarrow> (world, int \<times> process) M" where
  "Process_run os silent p =
    bnd (gets (isRunning p)) (\<lambda>running.
      if running then throw already_running
      else (\<lambda>w. case os_spawn os silent (c_str (p_path p)) (exec_args (p_opts p)) w of
              (pid, w') \<Rightarrow> (Inr (pid, p\<lparr>p_pid := pid\<rparr>), w')))"

definition Process_kill :: "process \<Rightarrow> (world, unit) M" where
  "Process_kill p = modify (\<lambda>w. w\<lparr>w_signals := w_signals w @ [(p_pid p, 2)]\<rparr>)"

definition getPid :: "process \<Rightarrow> int" where
  "getPid p = p_pid p"

definition Process_wait :: "os \<Rightarrow> process \<Rightarrow> (world, unit) M" where
  "Process_wait os p = modify (os_wait os (p_pid p))"

definition runAndWait :: "os \<Rightarrow> process \<Rightarrow> (world, process) M" where
  "runAndWait os p = bnd (Process_run os True p) (\<lambda>(pid, p'). seq (Process_wait os p') (ret p'))"

lemma Process_run_eq:
  "Process_run os silent p w =
    (if isRunning p w then (Inl (Throws already_running), w)
     else case os_spawn os silent (c_str (p_path p)) (exec_args (p_opts p)) w of
            (pid, w') \<Rightarrow> (Inr (pid, p\<lparr>p_pid := pid\<rparr>), w'))"
  by (simp add: Process_run_def m_simps)

lemma runAndWait_eq:
  "runAndWait os p w =
    (if isRunning p w then (Inl (Throws already_running), w)
     else case os_spawn os True (c_str (p_path p)) (exec_args (p_opts p)) w of
            (pid, w') \<Rightarrow> (Inr (p\<lparr>p_pid := pid\<rparr>), os_wait os pid w'))"
  by (simp add: runAndWait_def bnd_def Process_run_eq Process_wait_def m_simps split: prod.split)

lemma isRunning_new [simp]: "\<not> isRunning (Process_new path opts) w"
  by (simp add: isRunning_def Process_new_def)

text \<open>
  \<open>/bin/mkdir\<close> on one path, as \<open>instantiate\<close> relies on it: when the path is not taken and its
  directory exists, the path is a directory afterwards, and nothing else that the controller
  looks at has changed.
\<close>

definition mkdir_works :: "os \<Rightarrow> string \<Rightarrow> world \<Rightarrow> bool" where
  "mkdir_works os d w \<longleftrightarrow>
    (case os_spawn os True ''/bin/mkdir'' ['''', d] w of (pid, w1) \<Rightarrow>
       (let w2 = os_wait os pid w1
        in w_isdir w2 = (w_isdir w)(d := True) \<and> w_file w2 = w_file w
           \<and> w_connects w2 = w_connects w \<and> w_socket w2 = w_socket w \<and> w_fds w2 = w_fds w
           \<and> w_clock w2 = w_clock w \<and> w_out w2 = w_out w))"

section \<open>Properties\<close>

text \<open>
  A process object starts its program at most once at a time: \<open>run\<close> on a running process
  throws and starts nothing; otherwise the program is started once, on its path, with an empty
  \<open>argv[0]\<close> before the options, and the object remembers the process id.
\<close>

theorem Process_run_once:
  "Process_run os silent p w =
    (if p_pid p \<noteq> 0 \<and> w_probe w (p_pid p)
     then (Inl (Throws (Util_Exception ''in Process::run(bool): attempt to run running process'')), w)
     else (let (pid, w') = os_spawn os silent (c_str (p_path p)) ('''' # map c_str (p_opts p)) w
           in (Inr (pid, p\<lparr>p_pid := pid\<rparr>), w')))"
  by (simp add: Process_run_eq isRunning_def exec_args_def c_str_def already_running_def
      util_exception_def)

text \<open>
  When \<open>fork\<close> fails, its -1 is stored as if it were a process id: the object counts as running
  as soon as the caller may signal any process at all, and \<open>kill\<close> then sends SIGINT to -1, that is,
  to every process the controller may signal.
\<close>

theorem Process_fork_failure_broadcast:
  assumes "\<not> isRunning p w" and "os_spawn os silent (c_str (p_path p)) (exec_args (p_opts p)) w = (- 1, w')"
    and "w_probe w' (- 1)"
  shows "\<exists>p'. Process_run os silent p w = (Inr (- 1, p'), w') \<and> isRunning p' w'
    \<and> Process_kill p' w' = (Inr (), w'\<lparr>w_signals := w_signals w' @ [(- 1, 2)]\<rparr>)"
  using assms by (simp add: Process_run_eq isRunning_def Process_kill_def m_simps)

definition exhausted_os :: os where
  "exhausted_os = \<lparr>os_spawn = (\<lambda>_ _ _ w. (- 1, w)), os_wait = (\<lambda>_ w. w)\<rparr>"

theorem Process_fork_failure_broadcast_witness:
  "\<exists>p'. Process_run exhausted_os True (Process_new ''/bin/bash'' [''-c'']) idle_world
      = (Inr (- 1, p'), idle_world) \<and> isRunning p' idle_world
    \<and> Process_kill p' idle_world
      = (Inr (), idle_world\<lparr>w_signals := w_signals idle_world @ [(- 1, 2)]\<rparr>)"
  by (rule Process_fork_failure_broadcast)
    (simp_all add: exhausted_os_def idle_world_def Process_new_def isRunning_def)

end
