(* ===== verification/Vm_Info.thy ===== *)
theory Vm_Info
  imports Sys_Process
begin

text \<open>
  \<open>src/src/Vm\<close>: \<open>Template\<close>, \<open>InstanceInfo\<close> and \<open>Instance\<close>, with the two serialisations to lists of
  lines. Both are codecs of fixed width; what follows from that for a reply that holds several
  of them is proved once, for the interface \<open>codec\<close>.
\<close>

section \<open>Template.hpp\<close>

record templ =
  t_name :: string
  t_description :: string
  t_kernelPath :: string
  t_rootfsPath :: string

definition Template_SERIAL_SIZE :: nat where
  "Template_SERIAL_SIZE = 4"

definition Template_serialize :: "templ \<Rightarrow> string list" where
  "Template_serialize t = [t_name t, t_description t, t_kernelPath t, t_rootfsPath t]"

text \<open>\<open>data[i]\<close> beyond the end of the vector is undefined.\<close>

definition vec_at :: "'a list \<Rightarrow> nat \<Rightarrow> 'a res" where
  "vec_at data i = (if i < length data then Inr (data ! i) else Inl Undefined)"

text \<open>\<open>vector::at\<close> throws where \<open>operator[]\<close> is undefined.\<close>

definition vec_at_checked :: "'a list \<Rightarrow> nat \<Rightarrow> 'a res" where
  "vec_at_checked data i = (if i < length data then Inr (data ! i) else Inl (Throws Out_Of_Range))"

definition Template_deserialize :: "string list \<Rightarrow> templ res" where
  "Template_deserialize data =
    rbind (vec_at data 0) (\<lambda>name.
    rbind (vec_at data 1) (\<lambda>description.
    rbind (vec_at data 2) (\<lambda>kernelPath.
    rbind (vec_at data 3) (\<lambda>rootfsPath.
      Inr \<lparr>t_name = name, t_description = description, t_kernelPath = kernelPath,
           t_rootfsPath = rootfsPath\<rparr>))))"

section \<open>InstanceInfo.hpp\<close>

record instanceInfo =
  ii_id :: string
  ii_templ :: string
  ii_memory :: int
  ii_cpus :: int
  ii_sshPort :: int
  ii_running :: bool

definition InstanceInfo_SERIAL_SIZE :: nat where
  "InstanceInfo_SERIAL_SIZE = 6"

definition bool_int :: "bool \<Rightarrow> int" where
  "bool_int b = (if b then 1 else 0)"

definition InstanceInfo_serialize :: "instanceInfo \<Rightarrow> string list" where
  "InstanceInfo_serialize i =
    [ii_id i, ii_templ i, to_string (ii_memory i), to_string (ii_cpus i),
     to_string (ii_sshPort i), to_string (bool_int (ii_running i))]"

text \<open>
  C++ does not say in which order the constructor's arguments are evaluated. A vector that is too
  short is undefined in any order; otherwise the order only decides which of two malformed
  numbers is the one reported.
\<close>

definition InstanceInfo_deserialize :: "string list \<Rightarrow> instanceInfo res" where
  "InstanceInfo_deserialize data =
    (if length data < InstanceInfo_SERIAL_SIZE then Inl Undefined else
     rbind (stoi (data ! 2)) (\<lambda>memory.
     rbind (stoi (data ! 3)) (\<lambda>cpus.
     rbind (stoi (data ! 4)) (\<lambda>sshPort.
     rbind (stoi (data ! 5)) (\<lambda>running.
       Inr \<lparr>ii_id = data ! 0, ii_templ = data ! 1, ii_memory = memory, ii_cpus = cpus,
            ii_sshPort = sshPort, ii_running = (running \<noteq> 0)\<rparr>)))))"

definition setId :: "string \<Rightarrow> instanceInfo \<Rightarrow> instanceInfo" where
  "setId i info = info\<lparr>ii_id := i\<rparr>"

text \<open>The three numbers of an \<open>InstanceInfo\<close> are of type \<open>int\<close>.\<close>

definition info_ok :: "instanceInfo \<Rightarrow> bool" where
  "info_ok i \<longleftrightarrow> in_int (ii_memory i) \<and> in_int (ii_cpus i) \<and> in_int (ii_sshPort i)"

lemma in_int_bool [simp]: "in_int (bool_int b)"
  by (simp add: bool_int_def)

lemma Template_roundtrip: "Template_deserialize (Template_serialize t) = Inr t"
  by (simp add: Template_deserialize_def Template_serialize_def vec_at_def)

lemma InstanceInfo_roundtrip_ok:
  "info_ok i \<Longrightarrow> InstanceInfo_deserialize (InstanceInfo_serialize i) = Inr i"
  by (simp add: InstanceInfo_deserialize_def InstanceInfo_serialize_def InstanceInfo_SERIAL_SIZE_def
      info_ok_def) (simp add: bool_int_def)

lemma deserialize_info_ok: "InstanceInfo_deserialize data = Inr i \<Longrightarrow> info_ok i"
  by (auto simp: InstanceInfo_deserialize_def rbind_Inr info_ok_def stoi_in_int split: if_splits)

lemma setId_simps [simp]:
  "ii_id (setId i info) = i" "ii_templ (setId i info) = ii_templ info"
  "ii_memory (setId i info) = ii_memory info" "ii_cpus (setId i info) = ii_cpus info"
  "ii_sshPort (setId i info) = ii_sshPort info" "ii_running (setId i info) = ii_running info"
  "info_ok (setId i info) = info_ok info"
  by (simp_all add: setId_def info_ok_def)

section \<open>Codecs of fixed width\<close>

text \<open>
  How \<open>ControllerProxy\<close> takes a reply apart: chunk after chunk of \<open>width\<close> lines is deserialised
  and entered into a map under its key. A last chunk that is too short reads past the end of
  the vector. (The width is a positive constant; 0 would never advance.)
\<close>

function collect :: "nat \<Rightarrow> (string list \<Rightarrow> 'a res) \<Rightarrow> ('a \<Rightarrow> 'k::linorder) \<Rightarrow> string list
    \<Rightarrow> ('k, 'a) cmap \<Rightarrow> ('k, 'a) cmap res" where
  "collect width deser key data result =
    (if data = [] then Inr result
     else if width = 0 then Inl Loops
     else if length data < width then Inl Undefined
     else (case deser (take width data) of
             Inl e \<Rightarrow> Inl e
           | Inr x \<Rightarrow> collect width deser key (drop width data) (map_put (key x) x result)))"
  by pat_completeness auto
termination
  by (relation "measure (\<lambda>(width, deser, key, data, result). length data)") auto

declare collect.simps [simp del]

locale codec =
  fixes ser :: "'a \<Rightarrow> string list"
    and deser :: "string list \<Rightarrow> 'a res"
    and width :: nat
    and good :: "'a \<Rightarrow> bool"
  assumes width_pos: "0 < width"
    and length_ser: "length (ser x) = width"
    and deser_ser: "good x \<Longrightarrow> deser (ser x) = Inr x"
begin

lemma ser_inj: "good x \<Longrightarrow> good y \<Longrightarrow> ser x = ser y \<Longrightarrow> x = y"
  by (metis deser_ser sum.inject(2))

lemma ser_ne: "ser x \<noteq> []"
  using length_ser [of x] width_pos by auto

lemma collect_concat:
  "list_all good xs \<Longrightarrow>
   collect width deser key (concat (map ser xs)) m = Inr (fold (\<lambda>x. map_put (key x) x) xs m)"
proof (induction xs arbitrary: m)
  case Nil
  then show ?case by (simp add: collect.simps)
next
  case (Cons x xs)
  then show ?case
    using ser_ne [of x] length_ser [of x] width_pos
    by (simp add: collect.simps [of width deser key "ser x @ concat (map ser xs)"] deser_ser)
qed

text \<open>Taken apart in the order of the keys, the map is iterated in the order of the list.\<close>

lemma collect_sorted:
  assumes "list_all good xs" "sorted_wrt (<) (map key xs)"
  shows "collect width deser key (concat (map ser xs)) [] = Inr (map (\<lambda>x. (key x, x)) xs)"
proof -
  let ?m = "fold (\<lambda>x. map_put (key x) x) xs []"
  have ok: "map_ok ?m" using cxx_map.ok_fold [of "[]" key "\<lambda>x. x" xs] by simp
  have ok': "map_ok (map (\<lambda>x. (key x, x)) xs)" using assms(2) by (simp add: map_ok_def comp_def)
  have "distinct (map key xs)" using assms(2) by (simp add: strict_sorted_iff)
  then have "map_find ?m k = map_find (map (\<lambda>x. (key x, x)) xs) k" for k
    using cxx_map.find_fold_from_empty [of key xs "\<lambda>x. x" k] by (simp add: map_find_def)
  then have "?m = map (\<lambda>x. (key x, x)) xs"
    by (rule cxx_map.entries_ext [OF ok ok'])
  with collect_concat [OF assms(1), of key "[]"] show ?thesis by simp
qed

end

interpretation template_codec: codec Template_serialize Template_deserialize Template_SERIAL_SIZE "\<lambda>_. True"
  by unfold_locales (simp_all add: Template_SERIAL_SIZE_def Template_roundtrip, simp add: Template_serialize_def)

interpretation info_codec:
  codec InstanceInfo_serialize InstanceInfo_deserialize InstanceInfo_SERIAL_SIZE info_ok
  by unfold_locales
    (simp_all add: InstanceInfo_SERIAL_SIZE_def InstanceInfo_roundtrip_ok, simp add: InstanceInfo_serialize_def)

section \<open>Instance.hpp\<close>

record inst =
  i_id :: int
  i_memory :: int
  i_cpus :: int
  i_sshPort :: int
  i_template :: templ
  i_process :: process

definition setSshPort :: "int \<Rightarrow> inst \<Rightarrow> inst" where
  "setSshPort port i = i\<lparr>i_sshPort := port\<rparr>"

definition getInstanceInfo :: "inst \<Rightarrow> world \<Rightarrow> instanceInfo" where
  "getInstanceInfo i w =
    \<lparr>ii_id = to_string (i_id i), ii_templ = t_name (i_template i), ii_memory = i_memory i,
     ii_cpus = i_cpus i, ii_sshPort = i_sshPort i, ii_running = isRunning (i_process i) w\<rparr>"

section \<open>Properties\<close>

text \<open>
  Serialising an \<open>InstanceInfo\<close> and deserialising the six lines gives it back, field for field,
  over the whole range of \<open>int\<close>.
\<close>

theorem InstanceInfo_roundtrip:
  assumes "in_int (ii_memory i)" and "in_int (ii_cpus i)" and "in_int (ii_sshPort i)"
  shows "InstanceInfo_deserialize (InstanceInfo_serialize i) = Inr i"
  using assms by (intro InstanceInfo_roundtrip_ok) (simp add: info_ok_def)

theorem InstanceInfo_roundtrip_witness:
  "InstanceInfo_deserialize (InstanceInfo_serialize
     \<lparr>ii_id = ''1000'', ii_templ = ''cirros'', ii_memory = - 2147483648, ii_cpus = 2147483647,
      ii_sshPort = 2201, ii_running = True\<rparr>)
   = Inr \<lparr>ii_id = ''1000'', ii_templ = ''cirros'', ii_memory = - 2147483648, ii_cpus = 2147483647,
      ii_sshPort = 2201, ii_running = True\<rparr>"
  by (rule InstanceInfo_roundtrip) (simp_all add: in_int_def int_min_def int_max_def)

text \<open>
  What \<open>InstanceInfo::deserialize\<close> does with any vector: fewer than six lines is undefined; a
  number that \<open>stoi\<close> rejects makes it throw; otherwise it returns an object whose fields are the
  lines read, the last one true exactly when it is not zero. It never loops or waits.
\<close>

theorem InstanceInfo_deserialize_total:
  "case InstanceInfo_deserialize data of
     Inr i \<Rightarrow> 6 \<le> length data \<and> ii_id i = data ! 0 \<and> ii_templ i = data ! 1
       \<and> stoi (data ! 2) = Inr (ii_memory i) \<and> stoi (data ! 3) = Inr (ii_cpus i)
       \<and> stoi (data ! 4) = Inr (ii_sshPort i) \<and> (\<exists>r. stoi (data ! 5) = Inr r \<and> ii_running i = (r \<noteq> 0))
   | Inl f \<Rightarrow>
       (if length data < 6 then f = Undefined
        else (f = Throws Invalid_Argument \<or> f = Throws Out_Of_Range)
             \<and> (\<exists>j \<in> {2, 3, 4, 5}. stoi (data ! j) = Inl f))"
proof (cases "length data < 6")
  case True
  then show ?thesis by (simp add: InstanceInfo_deserialize_def InstanceInfo_SERIAL_SIZE_def)
next
  case False
  have "(\<exists>v. stoi s = Inr v) \<or> stoi s = Inl (Throws Invalid_Argument) \<or> stoi s = Inl (Throws Out_Of_Range)" for s
    by (cases s rule: stoi_cases) auto
  with False show ?thesis
    unfolding InstanceInfo_deserialize_def InstanceInfo_SERIAL_SIZE_def
    by (cases "stoi (data ! 2)"; cases "stoi (data ! 3)"; cases "stoi (data ! 4)"; cases "stoi (data ! 5)")
      (auto, (metis sum.inject(1) sum.simps(4))+)
qed

end
