(* ===== verification/Net.thy ===== *)
theory Net
  imports Util
begin

text \<open>
  \<open>src/src/Net\<close>: the stream buffer that finds the end of a message in the byte stream, the
  socket's \<open>read\<close>, \<open>write\<close> and \<open>send\<close>, and the connection set-up of \<open>Socket\<close> and
  \<open>ServerSocket\<close>. A message is a sequence of lines, each ended by CR LF on the wire, and an
  empty line ends it. The reader is related to a reference decoder (\<open>take_frame\<close>,
  \<open>frame_lines\<close>) that says which bytes make up the first message and what its lines are.
\<close>

abbreviation LF :: char where "LF \<equiv> CHR 0x0A"
abbreviation CR :: char where "CR \<equiv> CHR 0x0D"

section \<open>SocketIstream.hpp\<close>

text \<open>
  The stream buffer and the descriptor it reads: \<open>sb_in\<close> are the bytes that still arrive, and
  \<open>sb_closed\<close> says whether the peer has closed the connection after them.
\<close>

record streambuf =
  sb_in :: string
  sb_closed :: bool
  currChar :: char
  nextChar :: char
  isEOS :: bool

text \<open>
  \<open>peek\<close> repeats a one-byte \<open>read\<close> while it gives CR. After the last byte the call waits if the
  connection is open. If it is closed, \<open>read\<close> leaves \<open>c\<close> alone: still CR if a CR came before
  (and the loop never ends), indeterminate otherwise.
\<close>

fun peek :: "bool \<Rightarrow> bool \<Rightarrow> string \<Rightarrow> char res \<times> string" where
  "peek closed cr [] = (Inl (if \<not> closed then Blocks else if cr then Loops else Undefined), [])"
| "peek closed cr (c # cs) = (if c = CR then peek closed True cs else (Inr c, cs))"

definition sb_peek :: "(streambuf, char) M" where
  "sb_peek = (\<lambda>sb. case peek (sb_closed sb) False (sb_in sb) of (r, cs) \<Rightarrow> (r, sb\<lparr>sb_in := cs\<rparr>))"

definition sb_next :: "(streambuf, unit) M" where
  "sb_next =
    seq (modify (\<lambda>sb. sb\<lparr>currChar := nextChar sb\<rparr>))
    (bnd sb_peek (\<lambda>c.
     seq (modify (\<lambda>sb. sb\<lparr>nextChar := c\<rparr>))
         (modify (\<lambda>sb. if currChar sb = LF \<and> nextChar sb = LF then sb\<lparr>isEOS := True\<rparr> else sb))))"

definition SocketStreambuf :: "(streambuf, unit) M" where
  "SocketStreambuf =
    seq (modify (\<lambda>sb. sb\<lparr>isEOS := False\<rparr>))
    (bnd sb_peek (\<lambda>c. seq (modify (\<lambda>sb. sb\<lparr>nextChar := c\<rparr>)) sb_next))"

text \<open>The end of the stream is \<open>None\<close>.\<close>

definition underflow :: "streambuf \<Rightarrow> char option" where
  "underflow sb = (if isEOS sb then None else Some (currChar sb))"

definition uflow :: "(streambuf, char option) M" where
  "uflow =
    bnd (gets isEOS) (\<lambda>eos. if eos then ret None else
    bnd (gets currChar) (\<lambda>tmp.
    seq sb_next
    (bnd (gets isEOS) (\<lambda>eos. if eos then ret None else ret (Some tmp)))))"

lemma peek_length: "peek closed cr bs = (r, cs) \<Longrightarrow> r = Inr c \<Longrightarrow> length cs < length bs"
proof (induction bs arbitrary: cr)
  case (Cons b bs)
  then show ?case by (cases "b = CR") (auto intro: less_SucI)
qed simp

lemma sb_next_shorter: "sb_next sb = (Inr u, sb') \<Longrightarrow> length (sb_in sb') < length (sb_in sb)"
  by (auto simp: sb_next_def sb_peek_def m_simps dest!: peek_length split: prod.splits sum.splits if_splits)

lemma uflow_shorter:
  "uflow sb = (Inr (Some c), sb') \<Longrightarrow> length (sb_in sb') < length (sb_in sb)"
  unfolding uflow_def
  by (cases "sb_next sb") (auto simp: m_simps dest!: sb_next_shorter split: sum.splits if_splits)

section \<open>Socket.hpp: reading\<close>

text \<open>
  \<open>std::getline\<close> over that buffer: the character at the front is looked at, appended and
  stepped over (\<open>snextc\<close>) until it is a line feed, which is stepped over too, or the stream ends.
\<close>

datatype line = Got_Line string | Got_Eof string

function getline :: "char option \<Rightarrow> string \<Rightarrow> (streambuf, line) M" where
  "getline None acc sb = (Inr (Got_Eof acc), sb)"
| "getline (Some c) acc sb =
    (if c = LF then
       (case uflow sb of (r, sb') \<Rightarrow>
          (case r of Inl f \<Rightarrow> (Inl f, sb') | Inr _ \<Rightarrow> (Inr (Got_Line acc), sb')))
     else
       (case uflow sb of (r, sb') \<Rightarrow>
          (case r of
             Inl f \<Rightarrow> (Inl f, sb')
           | Inr None \<Rightarrow> getline None (acc @ [c]) sb'
           | Inr (Some _) \<Rightarrow> getline (underflow sb') (acc @ [c]) sb')))"
  by pat_completeness auto
termination
  by (relation "measure (\<lambda>(c, acc, sb). case c of None \<Rightarrow> 0 | Some _ \<Rightarrow> Suc (length (sb_in sb)))")
    (auto dest!: sym [THEN uflow_shorter] split: option.split)

lemma uflow_None: "uflow sb = (Inr None, sb') \<Longrightarrow> isEOS sb'"
  by (auto simp: uflow_def m_simps split: prod.splits sum.splits if_splits)

lemma getline_shorter:
  "getline x acc sb = (Inr (Got_Line l), sb') \<Longrightarrow> isEOS sb' \<or> length (sb_in sb') < length (sb_in sb)"
proof (induction x acc sb arbitrary: l sb' rule: getline.induct)
  case (2 c acc sb)
  obtain r sb1 where u: "uflow sb = (r, sb1)" by (cases "uflow sb")
  show ?case
  proof (cases r)
    case (Inl f)
    with 2 u show ?thesis by (simp split: if_splits)
  next
    case (Inr d)
    show ?thesis
    proof (cases d)
      case None
      with u Inr have "isEOS sb1" by (simp add: uflow_None)
      with 2 u Inr None show ?thesis by (auto split: if_splits)
    next
      case (Some e)
      with u Inr have "length (sb_in sb1) < length (sb_in sb)" by (simp add: uflow_shorter)
      with 2 u Inr Some show ?thesis by (fastforce split: if_splits)
    qed
  qed
qed simp

lemma getline_progress:
  "(Inr (Got_Line l), sb') = getline (underflow sb) acc sb \<Longrightarrow>
   \<not> isEOS sb \<and> (isEOS sb' \<or> length (sb_in sb') < length (sb_in sb))"
  using getline_shorter [of "underflow sb" acc sb l sb'] by (cases "isEOS sb") (auto simp: underflow_def)

text \<open>
  \<open>Socket::read\<close>: \<open>while (std::getline(stream, line)) result.push_back(line)\<close>. A \<open>getline\<close> that met
  the end of the stream succeeded if it extracted something, and the next one then fails.
\<close>

function read_lines :: "string list \<Rightarrow> (streambuf, string list) M" where
  "read_lines acc sb =
    (case getline (underflow sb) [] sb of (r, sb') \<Rightarrow>
       (case r of
          Inl f \<Rightarrow> (Inl f, sb')
        | Inr (Got_Eof l) \<Rightarrow> (Inr (if l = [] then acc else acc @ [l]), sb')
        | Inr (Got_Line l) \<Rightarrow> read_lines (acc @ [l]) sb'))"
  by pat_completeness auto
termination
  by (relation "measure (\<lambda>(acc, sb). if isEOS sb then 0 else Suc (length (sb_in sb)))")
    (auto dest!: getline_progress)

declare read_lines.simps [simp del]

record socket =
  sockFD :: int
  s_in :: string \<comment> \<open>bytes that still arrive\<close>
  s_closed :: bool \<comment> \<open>the peer has closed the connection after them\<close>
  s_out :: string \<comment> \<open>bytes written and not yet taken by the peer\<close>
  writeCount :: "32 word"

definition Socket_read :: "(socket, string list) M" where
  "Socket_read = (\<lambda>s.
    (let sb0 = \<lparr>sb_in = s_in s, sb_closed = s_closed s, currChar = CHR 0x00, nextChar = CHR 0x00,
                isEOS = False\<rparr>
     in case seq SocketStreambuf (read_lines []) sb0 of (r, sb) \<Rightarrow> (r, s\<lparr>s_in := sb_in sb\<rparr>)))"

section \<open>Socket.hpp: writing\<close>

text \<open>
  \<open>write(const std::string&)\<close>, \<open>write(const std::vector<std::string>&)\<close> and \<open>send()\<close>. The
  vector version adds the number of lines to \<open>writeCount\<close> and then calls the first version,
  which counts each of them once more. Nothing sets the count back.
\<close>

definition CRLF :: string where
  "CRLF = [CR, LF]"

definition write_line :: "string \<Rightarrow> socket \<Rightarrow> socket" where
  "write_line d s = s\<lparr>writeCount := writeCount s + 1, s_out := s_out s @ d @ CRLF\<rparr>"

definition write_lines :: "string list \<Rightarrow> socket \<Rightarrow> socket" where
  "write_lines data s = fold write_line data (s\<lparr>writeCount := writeCount s + of_nat (length data)\<rparr>)"

definition Socket_send :: "socket \<Rightarrow> socket" where
  "Socket_send s = write_line [] (if writeCount s = 0 then write_line [] s else s)"

section \<open>The reference decoder\<close>

text \<open>
  The first message of a byte stream: the bytes other than CR up to the first two line feeds in
  a row, without the second (\<open>prev\<close>: the byte before was a line feed), and what follows it.
\<close>

fun take_frame :: "bool \<Rightarrow> string \<Rightarrow> (string \<times> string) option" where
  "take_frame prev [] = None"
| "take_frame prev (c # cs) =
    (if c = CR then take_frame prev cs
     else if prev \<and> c = LF then Some ([], cs)
     else map_option (\<lambda>(t, rest). (c # t, rest)) (take_frame (c = LF) cs))"

fun split_lines :: "string \<Rightarrow> string list" where
  "split_lines [] = [[]]"
| "split_lines (c # cs) =
    (if c = LF then [] # split_lines cs
     else (c # hd (split_lines cs)) # tl (split_lines cs))"

definition frame_lines :: "string \<Rightarrow> string list" where
  "frame_lines t = (if butlast t = [] then [] else split_lines (butlast t))"

text \<open>What the reader does when the bytes end before the message does.\<close>

definition stuck :: "bool \<Rightarrow> string \<Rightarrow> fault" where
  "stuck closed bs =
    (if \<not> closed then Blocks else if bs \<noteq> [] \<and> last bs = CR then Loops else Undefined)"

lemma take_frame_CRs: "\<forall>x \<in> set crs. x = CR \<Longrightarrow> take_frame prev (crs @ bs) = take_frame prev bs"
  by (induction crs) auto

lemma stuck_skip: "c \<noteq> CR \<Longrightarrow> stuck closed (crs @ c # cs) = stuck closed cs"
  by (cases cs rule: rev_cases) (auto simp: stuck_def)

lemma peek_Inl:
  "peek closed cr bs = (Inl f, cs) \<Longrightarrow>
   cs = [] \<and> (\<forall>x \<in> set bs. x = CR) \<and> (\<not> cr \<longrightarrow> f = stuck closed bs)"
proof (induction bs arbitrary: cr)
  case (Cons b bs)
  then have b: "b = CR" and pk: "peek closed True bs = (Inl f, cs)"
    by (simp_all split: if_splits)
  from Cons.IH [OF pk] have bs: "cs = []" "\<forall>x \<in> set bs. x = CR" by auto
  moreover have "last (b # bs) = CR"
    using b bs last_in_set [of bs] by auto
  moreover have "peek closed True bs = (Inl (if closed then Loops else Blocks), [])"
    using bs(2) by (induction bs) auto
  ultimately show ?case
    using b pk by (simp add: stuck_def)
qed (auto simp: stuck_def)

lemma peek_Inr:
  "peek closed cr bs = (Inr c, cs) \<Longrightarrow>
   c \<noteq> CR \<and> (\<exists>crs. bs = crs @ c # cs \<and> (\<forall>x \<in> set crs. x = CR))"
proof (induction bs arbitrary: cr)
  case (Cons b bs)
  show ?case
  proof (cases "b = CR")
    case True
    with Cons obtain crs where "c \<noteq> CR" "bs = crs @ c # cs" "\<forall>x \<in> set crs. x = CR"
      by auto
    then show ?thesis
      by (intro conjI exI [of _ "b # crs"]) (simp_all add: True)
  next
    case False
    with Cons.prems show ?thesis by auto
  qed
qed simp

lemma peek_cases:
  obtains (waits) "peek closed False bs = (Inl (stuck closed bs), [])" "\<And>p. take_frame p bs = None"
  | (gives) c cs where "peek closed False bs = (Inr c, cs)" "c \<noteq> CR"
      "\<And>p. take_frame p bs = take_frame p (c # cs)" "stuck closed bs = stuck closed cs"
proof -
  obtain r cs where pk: "peek closed False bs = (r, cs)" by (cases "peek closed False bs")
  show thesis
  proof (cases r)
    case (Inl f)
    with pk have f: "cs = []" "\<forall>x \<in> set bs. x = CR" "f = stuck closed bs"
      using peek_Inl by blast+
    have "take_frame p bs = None" for p
      using take_frame_CRs [OF f(2), of p "[]"] by simp
    with pk Inl f waits show thesis by simp
  next
    case (Inr c)
    with pk obtain crs where c: "c \<noteq> CR" "bs = crs @ c # cs" "\<forall>x \<in> set crs. x = CR"
      using peek_Inr by blast
    have "take_frame p bs = take_frame p (c # cs)" for p
      unfolding c(2) by (rule take_frame_CRs [OF c(3)])
    moreover have "stuck closed bs = stuck closed cs"
      unfolding c(2) by (rule stuck_skip [OF c(1)])
    ultimately show thesis using pk Inr c(1) gives by simp
  qed
qed

text \<open>
  Between two characters the buffer holds one it has not handed out and one it has looked at;
  \<open>pending\<close> is the rest of the message in such a state.
\<close>

definition live :: "streambuf \<Rightarrow> bool" where
  "live sb \<longleftrightarrow> \<not> isEOS sb \<and> nextChar sb \<noteq> CR \<and> \<not> (currChar sb = LF \<and> nextChar sb = LF)"

definition pending :: "streambuf \<Rightarrow> (string \<times> string) option" where
  "pending sb =
    map_option (\<lambda>(t, rest). (currChar sb # t, rest)) (take_frame (currChar sb = LF) (nextChar sb # sb_in sb))"

lemma pending_ne: "pending sb = Some (t, rest) \<Longrightarrow> t \<noteq> []"
  by (auto simp: pending_def)

lemma uflow_live:
  assumes "live sb"
  shows "uflow sb =
    (case peek (sb_closed sb) False (sb_in sb) of (r, cs) \<Rightarrow>
       (case r of
          Inl f \<Rightarrow> (Inl f, sb\<lparr>currChar := nextChar sb, sb_in := cs\<rparr>)
        | Inr c \<Rightarrow>
            (if nextChar sb = LF \<and> c = LF
             then (Inr None, sb\<lparr>currChar := nextChar sb, sb_in := cs, nextChar := c, isEOS := True\<rparr>)
             else (Inr (Some (currChar sb)), sb\<lparr>currChar := nextChar sb, sb_in := cs, nextChar := c\<rparr>))))"
  using assms
  by (cases "peek (sb_closed sb) False (sb_in sb)")
    (simp add: uflow_def sb_next_def sb_peek_def m_simps live_def split: sum.split)

lemma uflow_cases:
  assumes "live sb"
  obtains (waits) sb' where "uflow sb = (Inl (stuck (sb_closed sb) (sb_in sb)), sb')"
      "sb_in sb' = []" "pending sb = None"
  | (ends) sb' where "uflow sb = (Inr None, sb')" "currChar sb \<noteq> LF"
      "pending sb = Some ([currChar sb, LF], sb_in sb')"
  | (steps) sb' where "uflow sb = (Inr (Some (currChar sb)), sb')" "live sb'"
      "pending sb = map_option (\<lambda>(t, rest). (currChar sb # t, rest)) (pending sb')"
      "stuck (sb_closed sb) (sb_in sb) = stuck (sb_closed sb') (sb_in sb')"
proof (cases rule: peek_cases [of "sb_closed sb" "sb_in sb"])
  case waits
  with assms have "pending sb = None"
    by (simp add: pending_def live_def)
  with waits that(1) [of "sb\<lparr>currChar := nextChar sb, sb_in := []\<rparr>"] show thesis
    by (simp add: uflow_live [OF assms])
next
  case (gives c cs)
  note run = uflow_live [OF assms, unfolded gives(1), simplified]
  have eos: "\<not> isEOS sb" "nextChar sb \<noteq> CR" "\<not> (currChar sb = LF \<and> nextChar sb = LF)"
    using assms by (simp_all add: live_def)
  let ?sb' = "sb\<lparr>currChar := nextChar sb, sb_in := cs, nextChar := c\<rparr>"
  show thesis
  proof (cases "nextChar sb = LF \<and> c = LF")
    case True
    with eos gives have "pending sb = Some ([currChar sb, LF], cs)"
      by (simp add: pending_def)
    with True eos run show thesis
      by (intro that(2) [of "?sb'\<lparr>isEOS := True\<rparr>"]) simp_all
  next
    case False
    have "pending sb = map_option (\<lambda>(t, rest). (currChar sb # t, rest)) (pending ?sb')"
      using False eos gives by (auto simp: pending_def option.map_comp comp_def split_def)
    then show thesis
      using False eos gives run by (intro that(3) [of ?sb']) (simp_all add: live_def)
  qed
qed

text \<open>One \<open>getline\<close> takes the first line of what is pending.\<close>

lemma getline_pending:
  assumes "live sb" "x = Some (currChar sb)"
  shows "case pending sb of
      None \<Rightarrow>
        (\<exists>sb'. getline x acc sb = (Inl (stuck (sb_closed sb) (sb_in sb)), sb') \<and> sb_in sb' = [])
        \<or> (\<exists>l sb'. getline x acc sb = (Inr (Got_Line l), sb') \<and> live sb' \<and> pending sb' = None
             \<and> stuck (sb_closed sb) (sb_in sb) = stuck (sb_closed sb') (sb_in sb'))
    | Some (t, rest) \<Rightarrow>
        (if LF \<in> set (butlast t)
         then \<exists>sb'. getline x acc sb = (Inr (Got_Line (acc @ takeWhile (\<lambda>c. c \<noteq> LF) t)), sb') \<and> live sb'
              \<and> pending sb' = Some (tl (dropWhile (\<lambda>c. c \<noteq> LF) t), rest)
         else \<exists>sb'. getline x acc sb = (Inr (Got_Eof (acc @ butlast t)), sb') \<and> sb_in sb' = rest)"
  using assms
proof (induction x acc sb rule: getline.induct)
  case (2 c acc sb)
  then have c: "c = currChar sb" by simp
  from \<open>live sb\<close> show ?case
  proof (cases rule: uflow_cases)
    case (waits sb')
    then show ?thesis by simp
  next
    case (ends sb')
    with c show ?thesis by simp
  next
    case (steps sb')
    have und: "underflow sb' = Some (currChar sb')"
      using \<open>live sb'\<close> by (simp add: underflow_def live_def)
    show ?thesis
    proof (cases "c = LF")
      case True
      with steps c show ?thesis
        by (cases "pending sb'") (auto dest: pending_ne)
    next
      case False
      from 2(2) [OF False steps(1) [symmetric] refl refl steps(2) und]
      show ?thesis
        using steps False c
        by (cases "pending sb'") (auto dest: pending_ne)
    qed
  qed
qed simp

lemma butlast_line:
  "LF \<in> set (butlast t) \<Longrightarrow>
   takeWhile (\<lambda>c. c \<noteq> LF) t = takeWhile (\<lambda>c. c \<noteq> LF) (butlast t) \<and>
   butlast (tl (dropWhile (\<lambda>c. c \<noteq> LF) t)) = tl (dropWhile (\<lambda>c. c \<noteq> LF) (butlast t))"
  by (induction t) (auto split: if_splits)

lemma split_lines_none: "LF \<notin> set u \<Longrightarrow> split_lines u = [u]"
  by (induction u) auto

lemma split_lines_first:
  "LF \<in> set u \<Longrightarrow>
   split_lines u = takeWhile (\<lambda>c. c \<noteq> LF) u # split_lines (tl (dropWhile (\<lambda>c. c \<noteq> LF) u))"
  by (induction u) auto

lemma pending_text: "live sb \<Longrightarrow> pending sb = Some (t, rest) \<Longrightarrow> butlast t \<noteq> []"
  by (auto simp: live_def pending_def split: if_splits)

lemma read_lines_pending:
  "live sb \<Longrightarrow>
   (case pending sb of
      None \<Rightarrow> \<exists>sb'. read_lines acc sb = (Inl (stuck (sb_closed sb) (sb_in sb)), sb') \<and> sb_in sb' = []
    | Some (t, rest) \<Rightarrow>
        \<exists>sb'. read_lines acc sb = (Inr (acc @ split_lines (butlast t)), sb') \<and> sb_in sb' = rest)"
proof (induction acc sb rule: read_lines.induct)
  case (1 acc sb)
  have und: "underflow sb = Some (currChar sb)"
    using "1.prems" by (simp add: underflow_def live_def)
  note line = getline_pending [OF "1.prems" und, of "[]"]
  show ?case
  proof (cases "pending sb")
    case None
    with line consider
        (waits) sb' where "getline (underflow sb) [] sb = (Inl (stuck (sb_closed sb) (sb_in sb)), sb')"
          "sb_in sb' = []"
      | (more) l sb' where "getline (underflow sb) [] sb = (Inr (Got_Line l), sb')" "live sb'"
          "pending sb' = None" "stuck (sb_closed sb) (sb_in sb) = stuck (sb_closed sb') (sb_in sb')"
      by auto
    then show ?thesis
    proof cases
      case waits
      with None show ?thesis by (simp add: read_lines.simps [of acc sb])
    next
      case more
      from "1.IH" [OF more(1) [symmetric] refl refl more(2)] more(3,4) None more(1) show ?thesis
        by (simp add: read_lines.simps [of acc sb])
    qed
  next
    case (Some tr)
    obtain t rest where tr: "tr = (t, rest)" by (cases tr)
    show ?thesis
    proof (cases "LF \<in> set (butlast t)")
      case True
      with line Some tr obtain sb' where
        g: "getline (underflow sb) [] sb = (Inr (Got_Line (takeWhile (\<lambda>c. c \<noteq> LF) t)), sb')" and
        sb': "live sb'" "pending sb' = Some (tl (dropWhile (\<lambda>c. c \<noteq> LF) t), rest)"
        by auto
      from "1.IH" [OF g [symmetric] refl refl sb'(1)] sb'(2) g Some tr show ?thesis
        by (simp add: read_lines.simps [of acc sb] split_lines_first [OF True] butlast_line [OF True])
    next
      case False
      with line Some tr "1.prems" show ?thesis
        by (auto simp: read_lines.simps [of acc sb] split_lines_none pending_text)
    qed
  qed
qed

text \<open>The buffer's constructor reads two characters, and may already see the end.\<close>

lemma SocketStreambuf_cases:
  obtains (waits) sb where "SocketStreambuf sb0 = (Inl (stuck (sb_closed sb0) (sb_in sb0)), sb)"
      "sb_in sb = []" "take_frame False (sb_in sb0) = None"
  | (ends) sb where "SocketStreambuf sb0 = (Inr (), sb)" "isEOS sb"
      "take_frame False (sb_in sb0) = Some ([LF], sb_in sb)"
  | (starts) sb where "SocketStreambuf sb0 = (Inr (), sb)" "live sb"
      "take_frame False (sb_in sb0) = pending sb"
      "stuck (sb_closed sb0) (sb_in sb0) = stuck (sb_closed sb) (sb_in sb)"
proof (cases rule: peek_cases [of "sb_closed sb0" "sb_in sb0"])
  case p1: waits
  then show thesis
    by (intro that(1) [of "sb0\<lparr>isEOS := False, sb_in := []\<rparr>"]) (simp_all add: SocketStreambuf_def sb_peek_def m_simps)
next
  case p1: (gives c1 cs1)
  let ?sb1 = "sb0\<lparr>isEOS := False, sb_in := cs1, nextChar := c1, currChar := c1\<rparr>"
  show thesis
  proof (cases rule: peek_cases [of "sb_closed sb0" "cs1"])
    case p2: waits
    with p1 show thesis
      by (intro that(1) [of "?sb1\<lparr>sb_in := []\<rparr>"])
        (simp_all add: SocketStreambuf_def sb_next_def sb_peek_def m_simps)
  next
    case p2: (gives c2 cs2)
    let ?sb2 = "?sb1\<lparr>sb_in := cs2, nextChar := c2\<rparr>"
    show thesis
    proof (cases "c1 = LF \<and> c2 = LF")
      case True
      with p1 p2 show thesis
        by (intro that(2) [of "?sb2\<lparr>isEOS := True\<rparr>"])
          (simp_all add: SocketStreambuf_def sb_next_def sb_peek_def m_simps)
    next
      case False
      with p1 p2 show thesis
        by (intro that(3) [of ?sb2])
          (auto simp: SocketStreambuf_def sb_next_def sb_peek_def m_simps live_def pending_def)
    qed
  qed
qed

text \<open>\<open>Socket::read\<close> is the reference decoder on the bytes of the connection.\<close>

lemma Socket_read_decodes:
  "Socket_read s =
    (case take_frame False (s_in s) of
       None \<Rightarrow> (Inl (stuck (s_closed s) (s_in s)), s\<lparr>s_in := []\<rparr>)
     | Some (t, rest) \<Rightarrow> (Inr (frame_lines t), s\<lparr>s_in := rest\<rparr>))"
proof -
  let ?sb0 = "\<lparr>sb_in = s_in s, sb_closed = s_closed s, currChar = CHR 0x00, nextChar = CHR 0x00,
               isEOS = False\<rparr>"
  show ?thesis
  proof (cases rule: SocketStreambuf_cases [of ?sb0])
    case (waits sb)
    then show ?thesis by (simp add: Socket_read_def seq_Inl)
  next
    case (ends sb)
    then show ?thesis
      by (simp add: Socket_read_def seq_Inr read_lines.simps [of "[]" sb] underflow_def frame_lines_def)
  next
    case (starts sb)
    then show ?thesis
      using read_lines_pending [OF starts(2), of "[]"] pending_text [OF starts(2)]
      by (auto simp: Socket_read_def seq_Inr frame_lines_def split: option.splits)
  qed
qed

lemma take_frame_shorter: "take_frame prev bs = Some (t, rest) \<Longrightarrow> length rest < length bs"
  by (induction prev bs arbitrary: t rule: take_frame.induct) (fastforce split: if_splits)+

lemma Socket_read_shorter: "Socket_read s = (Inr ds, s') \<Longrightarrow> length (s_in s') < length (s_in s)"
  by (auto simp: Socket_read_decodes dest: take_frame_shorter split: option.splits)

section \<open>Messages on the wire\<close>

definition wire :: "string list \<Rightarrow> string" where
  "wire ds = concat (map (\<lambda>d. d @ CRLF) ds)"

definition plain_line :: "string \<Rightarrow> bool" where
  "plain_line d \<longleftrightarrow> LF \<notin> set d \<and> CR \<notin> set d"

text \<open>
  The messages the framing can carry: no line holds CR or LF, only the first may be empty (any
  other empty line ends the message) and a single empty line is no line at all.
\<close>

definition sendable :: "string list \<Rightarrow> bool" where
  "sendable ds \<longleftrightarrow> ds \<noteq> [] \<and> ds \<noteq> [[]] \<and> list_all plain_line ds \<and> list_all (\<lambda>d. d \<noteq> []) (tl ds)"

definition first_message :: "string \<Rightarrow> (string list \<times> string) option" where
  "first_message bs = map_option (\<lambda>(t, rest). (frame_lines t, rest)) (take_frame False bs)"

lemma wire_simps [simp]:
  "wire [] = []" "wire (d # ds) = d @ CRLF @ wire ds" "wire (ds @ ds') = wire ds @ wire ds'"
  by (simp_all add: wire_def)

lemma plain_to_string [simp]: "plain_line (to_string i)"
  by (simp add: plain_line_def)

lemma plain_Nil [simp]: "plain_line []"
  by (simp add: plain_line_def)

lemma plain_append [simp]: "plain_line (a @ b) \<longleftrightarrow> plain_line a \<and> plain_line b"
  by (auto simp: plain_line_def)

lemma plain_Cons [simp]: "plain_line (c # b) \<longleftrightarrow> c \<noteq> LF \<and> c \<noteq> CR \<and> plain_line b"
  by (auto simp: plain_line_def)

lemma take_frame_text:
  "plain_line d \<Longrightarrow> d \<noteq> [] \<Longrightarrow>
   take_frame prev (d @ bs) = map_option (\<lambda>(t, rest). (d @ t, rest)) (take_frame False bs)"
proof (induction d arbitrary: prev)
  case (Cons c d)
  then show ?case
    by (cases "d = []") (auto simp: option.map_comp comp_def split_def)
qed simp

lemma take_frame_line:
  assumes "plain_line d" "d \<noteq> [] \<or> \<not> prev"
  shows "take_frame prev (d @ CRLF @ bs)
    = map_option (\<lambda>(t, rest). (d @ LF # t, rest)) (take_frame True bs)"
proof (cases "d = []")
  case True
  with assms(2) show ?thesis by (simp add: CRLF_def)
next
  case False
  with assms(1) show ?thesis
    by (simp add: take_frame_text CRLF_def option.map_comp comp_def split_def)
qed

lemma take_frame_end: "take_frame True (CRLF @ rest) = Some ([], rest)"
  by (simp add: CRLF_def)

lemma take_frame_lines:
  "list_all plain_line ds \<Longrightarrow> list_all (\<lambda>d. d \<noteq> []) ds \<Longrightarrow>
   take_frame True (wire ds @ CRLF @ rest) = Some (concat (map (\<lambda>d. d @ [LF]) ds), rest)"
  by (induction ds) (simp_all add: take_frame_line take_frame_end)

lemma split_lines_app: "plain_line d \<Longrightarrow> split_lines (d @ LF # u) = d # split_lines u"
  by (induction d) auto

lemma split_lines_concat:
  "list_all plain_line ds \<Longrightarrow> ds \<noteq> [] \<Longrightarrow>
   split_lines (butlast (concat (map (\<lambda>d. d @ [LF]) ds))) = ds"
proof (induction ds)
  case (Cons d ds)
  show ?case
  proof (cases "ds = []")
    case True
    with Cons.prems show ?thesis by (simp add: split_lines_none plain_line_def)
  next
    case False
    then have "concat (map (\<lambda>d. d @ [LF]) ds) \<noteq> []" by (cases ds) auto
    with False Cons show ?thesis by (simp add: butlast_append split_lines_app)
  qed
qed simp

lemma frame_lines_concat:
  assumes "list_all plain_line ds" "ds \<noteq> []" "ds \<noteq> [[]]"
  shows "frame_lines (concat (map (\<lambda>d. d @ [LF]) ds)) = ds"
proof -
  obtain d ds' where ds: "ds = d # ds'" using assms(2) by (cases ds) auto
  have "butlast (concat (map (\<lambda>d. d @ [LF]) ds)) \<noteq> []"
    using assms(3) ds by (cases d; cases ds') (auto simp: butlast_append)
  with assms show ?thesis
    by (simp add: frame_lines_def split_lines_concat)
qed

lemma first_message_wire: "sendable ds \<Longrightarrow> first_message (wire ds @ CRLF @ rest) = Some (ds, rest)"
proof -
  assume ok: "sendable ds"
  then obtain d ds' where ds: "ds = d # ds'" by (cases ds) (auto simp: sendable_def)
  with ok have "take_frame False (wire ds @ CRLF @ rest) = Some (concat (map (\<lambda>d. d @ [LF]) ds), rest)"
    by (simp add: sendable_def take_frame_line take_frame_lines)
  with ok show ?thesis
    by (simp add: first_message_def frame_lines_concat sendable_def)
qed

lemma first_message_empty: "first_message (CRLF @ CRLF @ rest) = Some ([], rest)"
  by (simp add: first_message_def CRLF_def frame_lines_def)

lemma Socket_read_first:
  "Socket_read s =
    (case first_message (s_in s) of
       None \<Rightarrow> (Inl (stuck (s_closed s) (s_in s)), s\<lparr>s_in := []\<rparr>)
     | Some (ds, rest) \<Rightarrow> (Inr ds, s\<lparr>s_in := rest\<rparr>))"
  by (simp add: Socket_read_decodes first_message_def split: option.split)

section \<open>A framing, as an interface\<close>

text \<open>
  \<open>take_messages decode n\<close> takes \<open>n\<close> messages off a byte stream. Any framing whose decoder finds
  the first message of a longer stream takes back what was written, message by message.
\<close>

fun take_messages :: "(string \<Rightarrow> (string list \<times> string) option) \<Rightarrow> nat \<Rightarrow> string
    \<Rightarrow> (string list list \<times> string) option" where
  "take_messages decode 0 bs = Some ([], bs)"
| "take_messages decode (Suc n) bs =
    (case decode bs of
       None \<Rightarrow> None
     | Some (m, rest) \<Rightarrow> map_option (\<lambda>(ms, r). (m # ms, r)) (take_messages decode n rest))"

locale framing =
  fixes encode :: "string list \<Rightarrow> string"
    and decode :: "string \<Rightarrow> (string list \<times> string) option"
    and good :: "string list \<Rightarrow> bool"
  assumes decode_encode: "good m \<Longrightarrow> decode (encode m @ rest) = Some (m, rest)"
begin

lemma take_messages_encode:
  "list_all good ms \<Longrightarrow> take_messages decode (length ms) (concat (map encode ms) @ rest) = Some (ms, rest)"
  by (induction ms) (simp_all add: decode_encode)

lemma encode_unambiguous:
  assumes "good m" "good m'" "encode m @ rest = encode m' @ rest'"
  shows "m = m' \<and> rest = rest'"
proof -
  have "decode (encode m @ rest) = Some (m', rest')"
    unfolding assms(3) by (rule decode_encode [OF assms(2)])
  with decode_encode [OF assms(1), of rest] show ?thesis by simp
qed

end

interpretation crlf: framing "\<lambda>ds. wire ds @ CRLF" first_message sendable
  by unfold_locales (simp add: first_message_wire)

text \<open>\<open>n\<close> successive calls of \<open>Socket::read\<close>.\<close>

fun read_many :: "nat \<Rightarrow> (socket, string list list) M" where
  "read_many 0 = ret []"
| "read_many (Suc n) = bnd Socket_read (\<lambda>m. bnd (read_many n) (\<lambda>ms. ret (m # ms)))"

lemma read_many_takes:
  "take_messages first_message n (s_in s) = Some (ms, rest) \<Longrightarrow>
   read_many n s = (Inr ms, s\<lparr>s_in := rest\<rparr>)"
proof (induction n arbitrary: s ms)
  case (Suc n)
  then obtain m r ms' where m: "first_message (s_in s) = Some (m, r)"
    "take_messages first_message n r = Some (ms', rest)" "ms = m # ms'"
    by (auto split: option.splits)
  with Suc.IH [of "s\<lparr>s_in := r\<rparr>" ms'] show ?case
    by (simp add: bnd_Inr Socket_read_first) (simp add: ret_def)
qed (simp add: ret_def)

section \<open>What is written\<close>

text \<open>
  \<open>count_room k s\<close>: \<open>k\<close> more increments keep \<open>writeCount\<close> in the range of \<open>int\<close>.
\<close>

definition count_room :: "nat \<Rightarrow> socket \<Rightarrow> bool" where
  "count_room k s \<longleftrightarrow> unat (writeCount s) + k < 2 ^ 31"

lemma write_line_simps [simp]:
  "s_out (write_line d s) = s_out s @ d @ CRLF" "s_in (write_line d s) = s_in s"
  "s_closed (write_line d s) = s_closed s" "writeCount (write_line d s) = writeCount s + 1"
  "sockFD (write_line d s) = sockFD s"
  by (simp_all add: write_line_def)

lemma fold_write_line:
  "s_out (fold write_line ds s) = s_out s @ wire ds \<and> s_in (fold write_line ds s) = s_in s
   \<and> s_closed (fold write_line ds s) = s_closed s \<and> sockFD (fold write_line ds s) = sockFD s
   \<and> writeCount (fold write_line ds s) = writeCount s + of_nat (length ds)"
  by (induction ds arbitrary: s) (simp_all add: algebra_simps)

lemma write_lines_simps [simp]:
  "s_out (write_lines ds s) = s_out s @ wire ds" "s_in (write_lines ds s) = s_in s"
  "s_closed (write_lines ds s) = s_closed s" "sockFD (write_lines ds s) = sockFD s"
  "writeCount (write_lines ds s) = writeCount s + of_nat (2 * length ds)"
  by (simp_all add: write_lines_def fold_write_line algebra_simps)

lemma count_add:
  assumes "count_room k s"
  shows "unat (writeCount s + of_nat k) = unat (writeCount s) + k"
proof -
  have lt: "unat (writeCount s) + k < 2 ^ 32"
    using assms by (simp add: count_room_def)
  have "writeCount s + of_nat k = of_nat (unat (writeCount s) + k)" by simp
  also have "unat \<dots> = (unat (writeCount s) + k) mod 2 ^ 32"
    by (simp only: unat_of_nat) simp
  finally show ?thesis using lt by (simp only: mod_less)
qed

lemma count_room_write_line: "count_room (Suc k) s \<Longrightarrow> count_room k (write_line d s)"
  using count_add [of 1 s] by (simp add: count_room_def)

lemma count_room_write_lines:
  "count_room (2 * length ds + k) s \<Longrightarrow> count_room k (write_lines ds s)"
  using count_add [of "2 * length ds" s] by (simp add: count_room_def)

lemma written_nonzero:
  "count_room 1 s \<Longrightarrow> writeCount (write_line d s) \<noteq> 0"
  "count_room (2 * length ds) s \<Longrightarrow> ds \<noteq> [] \<Longrightarrow> writeCount (write_lines ds s) \<noteq> 0"
proof -
  have nz: "writeCount s + of_nat k \<noteq> 0" if "count_room k s" "k > 0" for k
    using count_add [OF that(1)] that(2) by (metis add_gr_0 neq0_conv unat_0)
  show "writeCount (write_line d s) \<noteq> 0" if "count_room 1 s"
    using nz [OF that] by simp
  show "writeCount (write_lines ds s) \<noteq> 0" if "count_room (2 * length ds) s" "ds \<noteq> []"
    using nz [OF that(1)] that(2) by (simp only: write_lines_simps) simp
qed

lemma Socket_send_simps [simp]:
  "s_in (Socket_send s) = s_in s" "s_closed (Socket_send s) = s_closed s"
  "sockFD (Socket_send s) = sockFD s"
  "s_out (Socket_send s) = s_out s @ (if writeCount s = 0 then CRLF @ CRLF else CRLF)"
  by (simp_all add: Socket_send_def)

section \<open>Setting up connections\<close>

text \<open>
  \<open>Socket(std::string, int)\<close>. The descriptor that \<open>socket()\<close> gave is not closed when
  \<open>connect()\<close> fails, and \<open>Socket::close()\<close> only calls \<open>shutdown\<close>, so each call that gets a
  descriptor leaves one more open for good.
\<close>

definition new_socket :: "int \<Rightarrow> socket" where
  "new_socket fd = \<lparr>sockFD = fd, s_in = [], s_closed = False, s_out = [], writeCount = 0\<rparr>"

definition Socket_connect :: "string \<Rightarrow> int \<Rightarrow> (world, socket) M" where
  "Socket_connect address port =
    bnd (gets (\<lambda>w. w_socket w (w_fds w))) (\<lambda>fd.
      if fd = - 1
      then throw (net_exception ''Socket::Socket(string, int)'' ''socket() failed'')
      else seq (modify (\<lambda>w. w\<lparr>w_fds := Suc (w_fds w)\<rparr>))
           (bnd (gets (\<lambda>w. w_connects w (c_str address) (htons_port port))) (\<lambda>ok.
              if \<not> ok
              then throw (net_exception ''Socket::Socket(string, int)'' ''connect() failed'')
              else ret (new_socket fd))))"

definition Socket_close :: "socket \<Rightarrow> socket" where
  "Socket_close s = s\<lparr>s_closed := True\<rparr>"

record server_socket =
  ss_fd :: int
  ss_port :: "16 word"

definition ServerSocket_new :: "int \<Rightarrow> (world, server_socket) M" where
  "ServerSocket_new port =
    bnd (gets (\<lambda>w. w_socket w (w_fds w))) (\<lambda>fd.
      if fd = - 1
      then throw (net_exception ''ServerSocket::ServerSocket()'' ''socket() failed'')
      else seq (modify (\<lambda>w. w\<lparr>w_fds := Suc (w_fds w)\<rparr>))
           (bnd (gets w_reuses) (\<lambda>reuse.
              if \<not> reuse
              then throw (net_exception ''ServerSocket::ServerSocket()'' ''setsockopt() failed'')
              else bnd (gets (\<lambda>w. w_binds w (htons_port port))) (\<lambda>bound.
                if \<not> bound
                then throw (net_exception ''ServerSocket::ServerSocket()'' ''bind() failed'')
                else bnd (gets (\<lambda>w. w_listens w (htons_port port))) (\<lambda>listening.
                  if \<not> listening
                  then throw (net_exception ''ServerSocket::ServerSocket()'' ''listen() failed'')
                  else ret \<lparr>ss_fd = fd, ss_port = htons_port port\<rparr>)))))"

text \<open>\<open>accept()\<close>, given what the system call returned.\<close>

definition ServerSocket_accept :: "int \<Rightarrow> socket res" where
  "ServerSocket_accept connFD =
    (if connFD < 0
     then Inl (Throws (net_exception ''ServerSocket::accept()'' ''accept() failed''))
     else Inr (new_socket connFD))"

definition ServerSocket_close :: "server_socket \<Rightarrow> (world, unit) M" where
  "ServerSocket_close ss = modify (\<lambda>w. w\<lparr>w_fds := w_fds w - 1\<rparr>)"

definition connects :: "world \<Rightarrow> string \<Rightarrow> int \<Rightarrow> bool" where
  "connects w address port \<longleftrightarrow> w_connects w (c_str address) (htons_port port)"

definition socket_left :: "world \<Rightarrow> bool" where
  "socket_left w \<longleftrightarrow> w_socket w (w_fds w) \<noteq> - 1"

lemma Socket_connect_run:
  "Socket_connect address port w =
    (if \<not> socket_left w
     then (Inl (Throws (net_exception ''Socket::Socket(string, int)'' ''socket() failed'')), w)
     else if \<not> connects w address port
     then (Inl (Throws (net_exception ''Socket::Socket(string, int)'' ''connect() failed'')),
           w\<lparr>w_fds := Suc (w_fds w)\<rparr>)
     else (Inr (new_socket (w_socket w (w_fds w))), w\<lparr>w_fds := Suc (w_fds w)\<rparr>))"
  by (simp add: Socket_connect_def m_simps socket_left_def connects_def)

section \<open>Properties\<close>

text \<open>
  C17. \<open>Socket::read\<close> is the reference decoder: on every byte stream it returns the lines of the
  first message and leaves exactly the bytes after it; when the bytes end before a message
  does, it never returns a value: it waits while the connection is open, and once the peer has
  closed it spins on a final CR or uses an uninitialised character.
\<close>

theorem Socket_read_reference:
  "Socket_read s =
    (case take_frame False (s_in s) of
       Some (t, rest) \<Rightarrow> (Inr (frame_lines t), s\<lparr>s_in := rest\<rparr>)
     | None \<Rightarrow>
         (Inl (if \<not> s_closed s then Blocks
               else if s_in s \<noteq> [] \<and> last (s_in s) = CR then Loops else Undefined),
          s\<lparr>s_in := []\<rparr>))"
  unfolding Socket_read_decodes stuck_def by (rule option.case_cong) auto

text \<open>
  C12. Framing round trip. A message written with one \<open>write\<close> per message and ended with
  \<open>send\<close> is read back line for line by the peer, whatever bytes follow it, and the reader stops
  exactly at its end.
\<close>

theorem Socket_roundtrip:
  assumes "sendable ds" and "count_room (2 * length ds) s" and "s_out s = []"
  shows "Socket_read (peer\<lparr>s_in := s_out (Socket_send (write_lines ds s)) @ rest\<rparr>)
    = (Inr ds, peer\<lparr>s_in := rest\<rparr>)"
proof -
  have "writeCount (write_lines ds s) \<noteq> 0"
    using assms(1,2) by (intro written_nonzero) (auto simp: sendable_def)
  then have "s_out (Socket_send (write_lines ds s)) = wire ds @ CRLF"
    using assms(3) by (simp only: Socket_send_simps) simp
  then show ?thesis
    using assms(1) by (simp add: Socket_read_first first_message_wire)
qed

theorem Socket_roundtrip_witness:
  "Socket_read (new_socket 9\<lparr>s_in :=
      s_out (Socket_send (write_lines [''run'', ''1000''] (new_socket 5))) @ ''next''\<rparr>)
   = (Inr [''run'', ''1000''], new_socket 9\<lparr>s_in := ''next''\<rparr>)"
  by (rule Socket_roundtrip) (simp_all add: sendable_def plain_line_def count_room_def new_socket_def)

text \<open>
  Pipelining: several messages that arrive back to back on one connection are read back one
  by one, in order, by as many calls of \<open>Socket::read\<close>.
\<close>

theorem read_many_in_order:
  assumes "list_all sendable ms" and "s_in s = concat (map (\<lambda>ds. wire ds @ CRLF) ms) @ rest"
  shows "read_many (length ms) s = (Inr ms, s\<lparr>s_in := rest\<rparr>)"
  by (rule read_many_takes) (simp add: assms(2) crlf.take_messages_encode [OF assms(1)])

theorem read_many_in_order_witness:
  "read_many 2 (new_socket 4\<lparr>s_in := wire [''getTemplates''] @ CRLF @ wire [''kill'', ''7''] @ CRLF\<rparr>)
   = (Inr [[''getTemplates''], [''kill'', ''7'']], new_socket 4\<lparr>s_in := []\<rparr>)"
  using read_many_in_order [of "[[''getTemplates''], [''kill'', ''7'']]"
      "new_socket 4\<lparr>s_in := wire [''getTemplates''] @ CRLF @ wire [''kill'', ''7''] @ CRLF\<rparr>" "[]"]
  by (simp add: sendable_def plain_line_def numeral_2_eq_2)

text \<open>
  An empty reply is a message only on a connection that was never written to. \<open>writeCount\<close> is
  never set back, so after any earlier line \<open>send\<close> with nothing written emits a single CR LF, and
  a peer that reads it waits for a message that is never ended.
\<close>

theorem empty_message_unterminated:
  assumes "s_out s = []" and "\<not> s_closed peer"
  shows "Socket_read (peer\<lparr>s_in := s_out (Socket_send s)\<rparr>)
    = (if writeCount s = 0 then (Inr [], peer\<lparr>s_in := []\<rparr>) else (Inl Blocks, peer\<lparr>s_in := []\<rparr>))"
proof (cases "writeCount s = 0")
  case True
  then show ?thesis
    using assms first_message_empty [of "[]"] by (simp add: Socket_read_first)
next
  case False
  have "first_message CRLF = None" by (simp add: first_message_def CRLF_def)
  with False show ?thesis
    using assms by (simp add: Socket_read_first stuck_def)
qed

theorem empty_message_unterminated_witness:
  "Socket_read (new_socket 9\<lparr>s_in := s_out (Socket_send (new_socket 5\<lparr>writeCount := 1\<rparr>))\<rparr>)
   = (Inl Blocks, new_socket 9\<lparr>s_in := []\<rparr>)"
  using empty_message_unterminated [of "new_socket 5\<lparr>writeCount := 1\<rparr>" "new_socket 9"]
  by (simp add: new_socket_def)

end
