(* ===== verification/Vm_Proxy.thy ===== *)
theory Vm_Proxy
  imports Vm_Info Net
begin

text \<open>
  \<open>src/src/Vm/ControllerProxy.hpp\<close>: the remote calls \<open>getTemplates\<close>, \<open>getInstances\<close>,
  \<open>instantiate\<close>, \<open>run\<close> and \<open>kill\<close> over a socket. The program at the other end of the connection is
  a parameter; what a proxy relies on is stated as the interface \<open>service\<close>, and the calls are
  proved correct once for every peer that keeps it.
\<close>

section \<open>A connection and its peer\<close>

text \<open>
  \<open>react bytes r\<close>: what a peer in state \<open>r\<close> sends when the bytes arrive, whether it then closes
  the connection, and its next state. Bytes written to the socket reach the peer at the latest
  when the proxy waits for the reply.
\<close>

type_synonym 'r react = "string \<Rightarrow> 'r \<Rightarrow> (string \<times> bool) \<times> 'r"

record 'r link =
  l_socket :: socket
  l_peer :: 'r

definition exchange :: "'r react \<Rightarrow> 'r link \<Rightarrow> 'r link" where
  "exchange react l =
    (case react (s_out (l_socket l)) (l_peer l) of ((bytes, closed), r) \<Rightarrow>
       l\<lparr>l_socket := (l_socket l)\<lparr>s_in := s_in (l_socket l) @ bytes, s_closed := closed, s_out := []\<rparr>,
         l_peer := r\<rparr>)"

definition link_write :: "string \<Rightarrow> ('r link, unit) M" where
  "link_write d = modify (\<lambda>l. l\<lparr>l_socket := write_line d (l_socket l)\<rparr>)"

definition link_write_lines :: "string list \<Rightarrow> ('r link, unit) M" where
  "link_write_lines ds = modify (\<lambda>l. l\<lparr>l_socket := write_lines ds (l_socket l)\<rparr>)"

definition link_send :: "('r link, unit) M" where
  "link_send = modify (\<lambda>l. l\<lparr>l_socket := Socket_send (l_socket l)\<rparr>)"

definition link_read :: "'r react \<Rightarrow> ('r link, string list) M" where
  "link_read react =
    seq (modify (exchange react)) (zoom l_socket (\<lambda>s l. l\<lparr>l_socket := s\<rparr>) Socket_read)"

section \<open>ControllerProxy.hpp\<close>

definition proxy_getTemplates :: "'r react \<Rightarrow> ('r link, (string, templ) cmap) M" where
  "proxy_getTemplates react =
    seq (link_write ''getTemplates'') (seq link_send
    (bnd (link_read react) (\<lambda>data.
       of_res (collect Template_SERIAL_SIZE Template_deserialize t_name data []))))"

definition proxy_getInstances :: "'r react \<Rightarrow> ('r link, (string, instanceInfo) cmap) M" where
  "proxy_getInstances react =
    seq (link_write ''getInstances'') (seq link_send
    (bnd (link_read react) (\<lambda>data.
       of_res (collect InstanceInfo_SERIAL_SIZE InstanceInfo_deserialize ii_id data []))))"

definition proxy_instantiate :: "'r react \<Rightarrow> templ \<Rightarrow> int \<Rightarrow> int \<Rightarrow> ('r link, instanceInfo) M" where
  "proxy_instantiate react templ memory cpus =
    seq (link_write ''instantiate'')
    (seq (link_write_lines (InstanceInfo_serialize
        \<lparr>ii_id = ''0'', ii_templ = t_name templ, ii_memory = memory, ii_cpus = cpus, ii_sshPort = 0,
         ii_running = False\<rparr>))
    (seq link_send
    (bnd (link_read react) (\<lambda>data. of_res (InstanceInfo_deserialize data)))))"

definition proxy_run :: "'r react \<Rightarrow> string \<Rightarrow> ('r link, bool) M" where
  "proxy_run react fullId =
    seq (link_write ''run'') (seq (link_write fullId) (seq link_send
    (bnd (link_read react) (\<lambda>data. of_res (rbind (vec_at data 0) (\<lambda>d. rbind (stoi d) (\<lambda>i. Inr (i \<noteq> 0))))))))"

definition proxy_kill :: "'r react \<Rightarrow> string \<Rightarrow> ('r link, bool) M" where
  "proxy_kill react fullId =
    seq (link_write ''kill'') (seq (link_write fullId) (seq link_send
    (bnd (link_read react) (\<lambda>data. of_res (rbind (vec_at data 0) (\<lambda>d. rbind (stoi d) (\<lambda>i. Inr (i \<noteq> 0))))))))"

definition proxy_new :: "'r \<Rightarrow> string \<Rightarrow> int \<Rightarrow> (world, 'r link) M" where
  "proxy_new peer address port =
    bnd (Socket_connect address port) (\<lambda>s. ret \<lparr>l_socket = s, l_peer = peer\<rparr>)"

section \<open>One exchange\<close>

text \<open>The bytes of a message that \<open>send\<close> ends properly, also of the empty one.\<close>

definition frame :: "string list \<Rightarrow> string" where
  "frame ds = (if ds = [] then CRLF @ CRLF else wire ds @ CRLF)"

definition frame_ok :: "string list \<Rightarrow> bool" where
  "frame_ok ds \<longleftrightarrow> ds = [] \<or> sendable ds"

definition answers :: "'r react \<Rightarrow> 'r \<Rightarrow> string list \<Rightarrow> string list \<Rightarrow> 'r \<Rightarrow> bool" where
  "answers react r request reply r' \<longleftrightarrow>
    react (frame request) r = ((frame reply, False), r') \<and> frame_ok reply"

text \<open>Between two calls nothing is under way, and \<open>n\<close> more lines may be counted.\<close>

definition quiet :: "nat \<Rightarrow> socket \<Rightarrow> bool" where
  "quiet n s \<longleftrightarrow> s_in s = [] \<and> s_out s = [] \<and> \<not> s_closed s \<and> count_room n s"

lemma first_message_frame: "frame_ok ds \<Longrightarrow> first_message (frame ds @ rest) = Some (ds, rest)"
  by (auto simp: frame_ok_def frame_def first_message_wire first_message_empty)

lemma Socket_read_frame: "frame_ok ds \<Longrightarrow> s_in s = frame ds @ rest \<Longrightarrow> Socket_read s = (Inr ds, s\<lparr>s_in := rest\<rparr>)"
  by (simp add: Socket_read_first first_message_frame)

lemma frame_nonempty: "ds \<noteq> [] \<Longrightarrow> frame ds = wire ds @ CRLF"
  by (simp add: frame_def)

lemma count_room_mono: "count_room m s \<Longrightarrow> n \<le> m \<Longrightarrow> count_room n s"
  by (simp add: count_room_def)

lemma quiet_mono: "quiet m s \<Longrightarrow> n \<le> m \<Longrightarrow> quiet n s"
  by (auto simp: quiet_def intro: count_room_mono)

lemma count_room_cong [simp]:
  "count_room n (s\<lparr>s_in := x\<rparr>) = count_room n s" "count_room n (s\<lparr>s_out := x\<rparr>) = count_room n s"
  "count_room n (s\<lparr>s_closed := b\<rparr>) = count_room n s"
  by (simp_all add: count_room_def)

lemma count_room_send: "count_room (Suc (Suc n)) s \<Longrightarrow> count_room n (Socket_send s)"
proof -
  assume room: "count_room (Suc (Suc n)) s"
  show ?thesis
  proof (cases "writeCount s = 0")
    case True
    with room have "count_room n (write_line [] (write_line [] s))"
      by (intro count_room_write_line) simp
    then show ?thesis using True by (simp add: Socket_send_def)
  next
    case False
    from room have "count_room (Suc n) s" by (rule count_room_mono) simp
    then have "count_room n (write_line [] s)" by (rule count_room_write_line)
    then show ?thesis using False by (simp add: Socket_send_def)
  qed
qed

text \<open>A socket after some lines were written and the message was sent.\<close>

definition sent :: "nat \<Rightarrow> string list \<Rightarrow> socket \<Rightarrow> bool" where
  "sent n ds s \<longleftrightarrow> s_in s = [] \<and> s_out s = frame ds \<and> \<not> s_closed s \<and> count_room n s"

lemma link_read_run:
  assumes "sent n request (l_socket l)" "answers react (l_peer l) request reply r'"
  shows "\<exists>s. link_read react l = (Inr reply, l\<lparr>l_socket := s, l_peer := r'\<rparr>) \<and> quiet n s"
proof -
  have "exchange react l = l\<lparr>l_socket := (l_socket l)\<lparr>s_in := frame reply, s_closed := False, s_out := []\<rparr>,
      l_peer := r'\<rparr>"
    using assms by (simp add: exchange_def sent_def answers_def)
  moreover have "Socket_read ((l_socket l)\<lparr>s_in := frame reply, s_closed := False, s_out := []\<rparr>)
      = (Inr reply, (l_socket l)\<lparr>s_in := [], s_closed := False, s_out := []\<rparr>)"
    using assms(2) by (subst Socket_read_frame [of reply _ "[]"]) (simp_all add: answers_def)
  ultimately show ?thesis
    using assms(1)
    by (intro exI [of _ "(l_socket l)\<lparr>s_in := [], s_closed := False, s_out := []\<rparr>"])
      (simp add: link_read_def seq_def bnd_def modify_def zoom_def quiet_def sent_def)
qed

text \<open>A reply that holds no complete message: the caller waits on.\<close>

lemma link_read_waits:
  assumes "sent n request (l_socket l)" "react (frame request) (l_peer l) = ((bytes, False), r')"
    and "first_message bytes = None"
  shows "\<exists>s. link_read react l = (Inl Blocks, l\<lparr>l_socket := s, l_peer := r'\<rparr>)"
proof -
  have "exchange react l = l\<lparr>l_socket := (l_socket l)\<lparr>s_in := bytes, s_closed := False, s_out := []\<rparr>, l_peer := r'\<rparr>"
    using assms(1,2) by (simp add: exchange_def sent_def)
  then show ?thesis
    using assms(3)
    by (intro exI [of _ "(l_socket l)\<lparr>s_in := [], s_closed := False, s_out := []\<rparr>"])
      (simp add: link_read_def seq_def bnd_def modify_def zoom_def Socket_read_first stuck_def)
qed

lemma sent_line: "quiet (n + 3) s \<Longrightarrow> sent n [c] (Socket_send (write_line c s))"
proof -
  assume q: "quiet (n + 3) s"
  then have room: "count_room (Suc (Suc (Suc n))) s" by (simp add: quiet_def numeral_3_eq_3)
  then have "count_room 1 s" by (rule count_room_mono) simp
  then have "writeCount (write_line c s) \<noteq> 0" by (rule written_nonzero)
  with q room show ?thesis
    by (simp add: sent_def quiet_def frame_def count_room_send count_room_write_line
        del: write_line_simps(4))
qed

lemma sent_two: "quiet (n + 4) s \<Longrightarrow> sent n [c, d] (Socket_send (write_line d (write_line c s)))"
proof -
  assume q: "quiet (n + 4) s"
  then have room: "count_room (Suc (Suc (Suc n))) (write_line c s)"
    by (intro count_room_write_line) (simp add: quiet_def eval_nat_numeral)
  then have "count_room 1 (write_line c s)" by (rule count_room_mono) simp
  then have "writeCount (write_line d (write_line c s)) \<noteq> 0" by (rule written_nonzero)
  with q room show ?thesis
    by (simp add: sent_def quiet_def frame_def count_room_send count_room_write_line
        del: write_line_simps(4))
qed

lemma sent_lines:
  assumes "quiet (n + 2 * length ds + 3) s" "ds \<noteq> []"
  shows "sent n (c # ds) (Socket_send (write_lines ds (write_line c s)))"
proof -
  have room: "count_room (2 * length ds + Suc (Suc n)) (write_line c s)"
    using assms(1) by (intro count_room_write_line) (simp add: quiet_def eval_nat_numeral add_ac)
  then have "count_room (2 * length ds) (write_line c s)" by (rule count_room_mono) simp
  then have "writeCount (write_lines ds (write_line c s)) \<noteq> 0" using assms(2) by (rule written_nonzero)
  moreover have "count_room n (Socket_send (write_lines ds (write_line c s)))"
    using room by (intro count_room_send count_room_write_lines)
  ultimately show ?thesis
    using assms(1) by (simp add: sent_def quiet_def frame_def del: write_line_simps(4) write_lines_simps(5))
qed

text \<open>The three shapes of a remote call, up to the reply.\<close>

lemma call_one:
  assumes "quiet (n + 3) (l_socket l)" "answers react (l_peer l) [c] reply r'"
  shows "\<exists>s. seq (link_write c) (seq link_send (bnd (link_read react) k)) l
    = k reply (l\<lparr>l_socket := s, l_peer := r'\<rparr>) \<and> quiet n s"
proof -
  let ?l = "l\<lparr>l_socket := Socket_send (write_line c (l_socket l))\<rparr>"
  obtain s where "link_read react ?l = (Inr reply, ?l\<lparr>l_socket := s, l_peer := r'\<rparr>)" "quiet n s"
    using link_read_run [of n "[c]" ?l react reply r'] sent_line [OF assms(1)] assms(2) by auto
  then show ?thesis
    by (intro exI [of _ s]) (simp add: seq_def bnd_def link_write_def link_send_def modify_def)
qed

lemma call_one_waits:
  assumes "quiet (n + 3) (l_socket l)" "react (frame [c]) (l_peer l) = ((bytes, False), r')" "first_message bytes = None"
  shows "\<exists>s. seq (link_write c) (seq link_send (bnd (link_read react) k)) l
    = (Inl Blocks, l\<lparr>l_socket := s, l_peer := r'\<rparr>)"
proof -
  let ?l = "l\<lparr>l_socket := Socket_send (write_line c (l_socket l))\<rparr>"
  obtain s where "link_read react ?l = (Inl Blocks, ?l\<lparr>l_socket := s, l_peer := r'\<rparr>)"
    using link_read_waits [of n "[c]" ?l react bytes r'] sent_line [OF assms(1)] assms(2,3) by auto
  then show ?thesis
    by (intro exI [of _ s]) (simp add: seq_def bnd_def link_write_def link_send_def modify_def)
qed

lemma call_two:
  assumes "quiet (n + 4) (l_socket l)" "answers react (l_peer l) [c, d] reply r'"
  shows "\<exists>s. seq (link_write c) (seq (link_write d) (seq link_send (bnd (link_read react) k))) l
    = k reply (l\<lparr>l_socket := s, l_peer := r'\<rparr>) \<and> quiet n s"
proof -
  let ?l = "l\<lparr>l_socket := Socket_send (write_line d (write_line c (l_socket l)))\<rparr>"
  obtain s where "link_read react ?l = (Inr reply, ?l\<lparr>l_socket := s, l_peer := r'\<rparr>)" "quiet n s"
    using link_read_run [of n "[c, d]" ?l react reply r'] sent_two [OF assms(1)] assms(2) by auto
  then show ?thesis
    by (intro exI [of _ s]) (simp add: seq_def bnd_def link_write_def link_send_def modify_def)
qed

lemma call_lines:
  assumes "quiet (n + 2 * length ds + 3) (l_socket l)" "ds \<noteq> []" "answers react (l_peer l) (c # ds) reply r'"
  shows "\<exists>s. seq (link_write c) (seq (link_write_lines ds) (seq link_send (bnd (link_read react) k))) l
    = k reply (l\<lparr>l_socket := s, l_peer := r'\<rparr>) \<and> quiet n s"
proof -
  let ?l = "l\<lparr>l_socket := Socket_send (write_lines ds (write_line c (l_socket l)))\<rparr>"
  obtain s where "link_read react ?l = (Inr reply, ?l\<lparr>l_socket := s, l_peer := r'\<rparr>)" "quiet n s"
    using link_read_run [of n "c # ds" ?l react reply r'] sent_lines [OF assms(1,2)] assms(3) by auto
  then show ?thesis
    by (intro exI [of _ s]) (simp add: seq_def bnd_def link_write_def link_write_lines_def link_send_def modify_def)
qed

section \<open>The service interface\<close>

text \<open>
  A service has operations on its own state (\<open>view\<close>, what is left of a peer without its end of
  the connection). It keeps the interface if each request that arrives on a quiet connection is
  answered with the serialised result of the operation, provided the operation returns one.
  \<open>ready n\<close>: the peer waits for a request and may count \<open>n\<close> more written lines.
\<close>

definition cost :: "string list \<Rightarrow> nat" where
  "cost reply = 2 * length reply + 3"

definition new_request :: "string \<Rightarrow> int \<Rightarrow> int \<Rightarrow> string list" where
  "new_request name memory cpus = InstanceInfo_serialize
     \<lparr>ii_id = ''0'', ii_templ = name, ii_memory = memory, ii_cpus = cpus, ii_sshPort = 0, ii_running = False\<rparr>"

definition word_line :: "string \<Rightarrow> bool" where
  "word_line d \<longleftrightarrow> plain_line d \<and> d \<noteq> []"

lemma sendable_words: "list_all word_line ds \<Longrightarrow> ds \<noteq> [] \<Longrightarrow> sendable ds"
  by (cases ds) (auto simp: sendable_def word_line_def list_all_iff)

lemma word_line_simps [simp]: "word_line (to_string i)"
  "word_line (c # d) \<longleftrightarrow> c \<noteq> LF \<and> c \<noteq> CR \<and> plain_line d"
  by (auto simp: word_line_def)

lemma frame_ok_bool: "frame_ok [to_string (bool_int b)]"
  by (simp add: frame_ok_def sendable_words)

text \<open>\<open>writes k ds s s'\<close>: the lines \<open>ds\<close> were written to \<open>s\<close> and counted as \<open>k\<close>.\<close>

definition writes :: "nat \<Rightarrow> string list \<Rightarrow> socket \<Rightarrow> socket \<Rightarrow> bool" where
  "writes k ds s s' \<longleftrightarrow> s_in s' = s_in s \<and> s_closed s' = s_closed s \<and> s_out s' = s_out s @ wire ds
    \<and> writeCount s' = writeCount s + of_nat k"

lemma writes_line: "writes 1 [d] s (write_line d s)"
  by (simp add: writes_def)

lemma writes_lines: "writes (2 * length ds) ds s (write_lines ds s)"
  by (simp add: writes_def)

lemma writes_trans: "writes k ds s s1 \<Longrightarrow> writes k' ds' s1 s2 \<Longrightarrow> writes (k + k') (ds @ ds') s s2"
  by (simp add: writes_def)

lemma writes_fold:
  "writes (2 * length (concat dss)) (concat dss) s (fold write_lines dss s)"
proof (induction dss arbitrary: s)
  case Nil
  then show ?case by (simp add: writes_def)
next
  case (Cons ds dss)
  from writes_trans [OF writes_lines Cons.IH] show ?case by (simp add: algebra_simps)
qed

lemma writes_sent:
  assumes "writes k ds s s'" "quiet (n + k + 2) s" "0 < k"
  shows "s_out (Socket_send s') = wire ds @ CRLF" "quiet n ((Socket_send s')\<lparr>s_out := []\<rparr>)"
proof -
  have room: "count_room (n + k + 2) s" using assms(2) by (simp add: quiet_def)
  then have "count_room k s" by (rule count_room_mono) simp
  then have cnt: "unat (writeCount s') = unat (writeCount s) + k"
    using count_add [of k s] assms(1) by (simp add: writes_def)
  then have "writeCount s' \<noteq> 0" using assms(3) by auto
  then show "s_out (Socket_send s') = wire ds @ CRLF"
    using assms(1,2) by (simp add: writes_def quiet_def)
  have "count_room (Suc (Suc n)) s'" using room cnt by (simp add: count_room_def)
  then show "quiet n ((Socket_send s')\<lparr>s_out := []\<rparr>)"
    using assms(1,2) by (simp add: quiet_def writes_def count_room_send)
qed

locale service =
  fixes react :: "'r react"
    and ready :: "nat \<Rightarrow> 'r \<Rightarrow> bool"
    and view :: "'r \<Rightarrow> 'v"
    and do_templates :: "('v, templ list) M"
    and do_instances :: "('v, instanceInfo list) M"
    and do_new :: "string \<Rightarrow> int \<Rightarrow> int \<Rightarrow> ('v, instanceInfo) M"
    and do_run :: "string \<Rightarrow> ('v, bool) M"
    and do_kill :: "string \<Rightarrow> ('v, bool) M"
  assumes ready_mono: "ready m r \<Longrightarrow> n \<le> m \<Longrightarrow> ready n r"
    and templates_law:
      "ready (n + cost (concat (map Template_serialize ts))) r \<Longrightarrow> do_templates (view r) = (Inr ts, v) \<Longrightarrow>
       ts \<noteq> [] \<Longrightarrow> frame_ok (concat (map Template_serialize ts)) \<Longrightarrow>
       \<exists>r'. answers react r [''getTemplates''] (concat (map Template_serialize ts)) r' \<and> ready n r' \<and> view r' = v"
    and instances_law:
      "ready (n + cost (concat (map InstanceInfo_serialize is))) r \<Longrightarrow> do_instances (view r) = (Inr is, v) \<Longrightarrow>
       frame_ok (concat (map InstanceInfo_serialize is)) \<Longrightarrow>
       \<exists>r'. answers react r [''getInstances''] (concat (map InstanceInfo_serialize is)) r' \<and> ready n r' \<and> view r' = v"
    and new_law:
      "ready (n + 15) r \<Longrightarrow> do_new name memory cpus (view r) = (Inr i, v) \<Longrightarrow>
       word_line name \<Longrightarrow> in_int memory \<Longrightarrow> in_int cpus \<Longrightarrow> frame_ok (InstanceInfo_serialize i) \<Longrightarrow>
       \<exists>r'. answers react r (''instantiate'' # new_request name memory cpus) (InstanceInfo_serialize i) r'
         \<and> ready n r' \<and> view r' = v"
    and run_law:
      "ready (n + 5) r \<Longrightarrow> do_run d (view r) = (Inr b, v) \<Longrightarrow> word_line d \<Longrightarrow>
       \<exists>r'. answers react r [''run'', d] [to_string (bool_int b)] r' \<and> ready n r' \<and> view r' = v"
    and kill_law:
      "ready (n + 5) r \<Longrightarrow> do_kill d (view r) = (Inr b, v) \<Longrightarrow> word_line d \<Longrightarrow>
       \<exists>r'. answers react r [''kill'', d] [to_string (bool_int b)] r' \<and> ready n r' \<and> view r' = v"
begin

definition linked :: "nat \<Rightarrow> 'r link \<Rightarrow> bool" where
  "linked n l \<longleftrightarrow> quiet n (l_socket l) \<and> ready n (l_peer l)"

lemma linked_mono: "linked m l \<Longrightarrow> n \<le> m \<Longrightarrow> linked n l"
  by (auto simp: linked_def intro: quiet_mono ready_mono)

lemma proxy_templates:
  assumes "linked (n + cost (concat (map Template_serialize ts))) l"
    and "do_templates (view (l_peer l)) = (Inr ts, v)" "ts \<noteq> []"
    and "frame_ok (concat (map Template_serialize ts))"
  shows "\<exists>l'. proxy_getTemplates react l = (Inr (fold (\<lambda>t. map_put (t_name t) t) ts []), l')
    \<and> linked n l' \<and> view (l_peer l') = v"
proof -
  let ?k = "\<lambda>data. of_res (collect Template_SERIAL_SIZE Template_deserialize t_name data [])"
  obtain r' where r': "answers react (l_peer l) [''getTemplates''] (concat (map Template_serialize ts)) r'"
    "ready n r'" "view r' = v"
    using templates_law [OF _ assms(2-4), of n] assms(1) by (auto simp: linked_def)
  have "quiet (n + 3) (l_socket l)"
    using assms(1) by (auto simp: linked_def cost_def intro: quiet_mono)
  then obtain s where "proxy_getTemplates react l
      = ?k (concat (map Template_serialize ts)) (l\<lparr>l_socket := s, l_peer := r'\<rparr>)" "quiet n s"
    using call_one [of n l react "''getTemplates''" _ r' ?k] r'(1) unfolding proxy_getTemplates_def by blast
  then show ?thesis
    using r' template_codec.collect_concat [of ts t_name "[]"]
    by (auto simp: of_res_def linked_def list_all_iff)
qed

lemma proxy_instances:
  assumes "linked (n + cost (concat (map InstanceInfo_serialize is))) l"
    and "do_instances (view (l_peer l)) = (Inr is, v)" "list_all info_ok is"
    and "frame_ok (concat (map InstanceInfo_serialize is))"
  shows "\<exists>l'. proxy_getInstances react l = (Inr (fold (\<lambda>i. map_put (ii_id i) i) is []), l')
    \<and> linked n l' \<and> view (l_peer l') = v"
proof -
  let ?k = "\<lambda>data. of_res (collect InstanceInfo_SERIAL_SIZE InstanceInfo_deserialize ii_id data [])"
  obtain r' where r': "answers react (l_peer l) [''getInstances''] (concat (map InstanceInfo_serialize is)) r'"
    "ready n r'" "view r' = v"
    using instances_law [OF _ assms(2,4), of n] assms(1) by (auto simp: linked_def)
  have "quiet (n + 3) (l_socket l)"
    using assms(1) by (auto simp: linked_def cost_def intro: quiet_mono)
  then obtain s where "proxy_getInstances react l
      = ?k (concat (map InstanceInfo_serialize is)) (l\<lparr>l_socket := s, l_peer := r'\<rparr>)" "quiet n s"
    using call_one [of n l react "''getInstances''" _ r' ?k] r'(1) unfolding proxy_getInstances_def by blast
  then show ?thesis
    using r' info_codec.collect_concat [OF assms(3), of ii_id "[]"]
    by (auto simp: of_res_def linked_def)
qed

lemma proxy_new_vm:
  assumes "linked (n + 15) l" "do_new (t_name t) memory cpus (view (l_peer l)) = (Inr i, v)"
    and "word_line (t_name t)" "in_int memory" "in_int cpus"
    and "frame_ok (InstanceInfo_serialize i)" "info_ok i"
  shows "\<exists>l'. proxy_instantiate react t memory cpus l = (Inr i, l') \<and> linked n l' \<and> view (l_peer l') = v"
proof -
  let ?k = "\<lambda>data. of_res (InstanceInfo_deserialize data)"
  have len: "length (new_request (t_name t) memory cpus) = 6" "new_request (t_name t) memory cpus \<noteq> []"
    by (simp_all add: new_request_def InstanceInfo_serialize_def)
  obtain r' where r': "answers react (l_peer l) (''instantiate'' # new_request (t_name t) memory cpus)
      (InstanceInfo_serialize i) r'" "ready n r'" "view r' = v"
    using new_law [OF _ assms(2-6), of n] assms(1) by (auto simp: linked_def)
  have "quiet (n + 2 * length (new_request (t_name t) memory cpus) + 3) (l_socket l)"
    using assms(1) len(1) by (simp add: linked_def add.commute)
  then obtain s where "proxy_instantiate react t memory cpus l
      = ?k (InstanceInfo_serialize i) (l\<lparr>l_socket := s, l_peer := r'\<rparr>)" "quiet n s"
    using call_lines [of n _ l react "''instantiate''" _ r' ?k] len(2) r'(1)
    unfolding proxy_instantiate_def new_request_def by blast
  then show ?thesis
    using r' assms(7) by (auto simp: of_res_def linked_def InstanceInfo_roundtrip_ok)
qed

lemma proxy_run_vm:
  assumes "linked (n + 5) l" "do_run d (view (l_peer l)) = (Inr b, v)" "word_line d"
  shows "\<exists>l'. proxy_run react d l = (Inr b, l') \<and> linked n l' \<and> view (l_peer l') = v"
proof -
  let ?k = "\<lambda>data. of_res (rbind (vec_at data 0) (\<lambda>d. rbind (stoi d) (\<lambda>i. Inr (i \<noteq> 0))))"
  obtain r' where r': "answers react (l_peer l) [''run'', d] [to_string (bool_int b)] r'" "ready n r'" "view r' = v"
    using run_law [OF _ assms(2,3), of n] assms(1) by (auto simp: linked_def)
  have "quiet (n + 4) (l_socket l)"
    using assms(1) by (auto simp: linked_def intro: quiet_mono)
  then obtain s where "proxy_run react d l = ?k [to_string (bool_int b)] (l\<lparr>l_socket := s, l_peer := r'\<rparr>)" "quiet n s"
    using call_two [of n l react "''run''" d _ r' ?k] r'(1) unfolding proxy_run_def by blast
  then show ?thesis
    using r' by (auto simp: of_res_def linked_def vec_at_def bool_int_def)
qed

lemma proxy_kill_vm:
  assumes "linked (n + 5) l" "do_kill d (view (l_peer l)) = (Inr b, v)" "word_line d"
  shows "\<exists>l'. proxy_kill react d l = (Inr b, l') \<and> linked n l' \<and> view (l_peer l') = v"
proof -
  let ?k = "\<lambda>data. of_res (rbind (vec_at data 0) (\<lambda>d. rbind (stoi d) (\<lambda>i. Inr (i \<noteq> 0))))"
  obtain r' where r': "answers react (l_peer l) [''kill'', d] [to_string (bool_int b)] r'" "ready n r'" "view r' = v"
    using kill_law [OF _ assms(2,3), of n] assms(1) by (auto simp: linked_def)
  have "quiet (n + 4) (l_socket l)"
    using assms(1) by (auto simp: linked_def intro: quiet_mono)
  then obtain s where "proxy_kill react d l = ?k [to_string (bool_int b)] (l\<lparr>l_socket := s, l_peer := r'\<rparr>)" "quiet n s"
    using call_two [of n l react "''kill''" d _ r' ?k] r'(1) unfolding proxy_kill_def by blast
  then show ?thesis
    using r' by (auto simp: of_res_def linked_def vec_at_def bool_int_def)
qed

end

end
