(* ===== verification/Manager.thy ===== *)
theory Manager
  imports Vm_Proxy
begin

text \<open>
  \<open>src/src/manager.cpp\<close>: the manager's list of controllers, its command handler (one request at a
  time: every command that touches the controllers runs under one mutex, see \<open>Threads\<close>), the
  round-robin choice of a controller, the routing of \<open>run\<close> and \<open>kill\<close> by id, the loop over a
  connection, and \<open>main\<close> with the file of controllers. What the controllers answer is the parameter
  \<open>react\<close> of the proxies.
\<close>

section \<open>State\<close>

record 'r ctrlRef =
  cr_id :: string
  cr_address :: string
  cr_port :: int
  cr_proxy :: "'r link"

record 'r manager =
  controllers :: "'r ctrlRef list"
  nextController :: int
  m_world :: world

record 'r mserver =
  ms_mgr :: "'r manager"
  ms_conn :: socket
  ms_fault :: "fault option"

definition mlog :: "(world, 'a) M \<Rightarrow> ('r manager, 'a) M" where
  "mlog m = zoom m_world (\<lambda>w s. s\<lparr>m_world := w\<rparr>) m"

text \<open>A call on the proxy of \<open>controllers[k]\<close>.\<close>

definition on_ctrl :: "nat \<Rightarrow> ('r link, 'a) M \<Rightarrow> ('r manager, 'a) M" where
  "on_ctrl k m =
    zoom (\<lambda>s. cr_proxy (controllers s ! k))
      (\<lambda>l s. s\<lparr>controllers := (controllers s)[k := (controllers s ! k)\<lparr>cr_proxy := l\<rparr>]\<rparr>) m"

definition mg_do :: "('r manager, 'a) M \<Rightarrow> ('r mserver, 'a) M" where
  "mg_do m = zoom ms_mgr (\<lambda>c ms. ms\<lparr>ms_mgr := c\<rparr>) m"

definition mg_write :: "string \<Rightarrow> ('r mserver, unit) M" where
  "mg_write d = modify (\<lambda>ms. ms\<lparr>ms_conn := write_line d (ms_conn ms)\<rparr>)"

definition mg_write_lines :: "string list \<Rightarrow> ('r mserver, unit) M" where
  "mg_write_lines ds = modify (\<lambda>ms. ms\<lparr>ms_conn := write_lines ds (ms_conn ms)\<rparr>)"

definition mg_send :: "('r mserver, unit) M" where
  "mg_send = modify (\<lambda>ms. ms\<lparr>ms_conn := Socket_send (ms_conn ms)\<rparr>)"

section \<open>Ids and the round robin\<close>

definition makeFullId :: "string \<Rightarrow> string \<Rightarrow> string" where
  "makeFullId serverName numericId = serverName @ ''/'' @ numericId"

definition extractIdParts :: "string \<Rightarrow> (string \<times> string) res" where
  "extractIdParts fullId =
    rbind (substr fullId (str_find fullId CHR ''/'' + 1) npos) (\<lambda>i.
    rbind (substr fullId 0 (str_find fullId CHR ''/'')) (\<lambda>srv.
      Inr (srv, i)))"

text \<open>
  \<open>++base % controllers.size()\<close>: the \<open>int\<close> is converted to \<open>size_t\<close>, and the remainder back.
\<close>

definition advanceModulo :: "nat \<Rightarrow> int \<Rightarrow> int res" where
  "advanceModulo n base =
    (if base = int_max \<or> n = 0 then Inl Undefined
     else Inr (sint (ucast ((word_of_int (base + 1) :: 64 word) mod of_nat n) :: 32 word)))"

section \<open>The commands\<close>

definition mgr_getTemplates :: "'r react \<Rightarrow> ('r mserver, unit) M" where
  "mgr_getTemplates react =
    bnd (gets (\<lambda>ms. length (controllers (ms_mgr ms)))) (\<lambda>n.
      for_each [0..<n] (\<lambda>k.
        bnd (mg_do (on_ctrl k (proxy_getTemplates react))) (\<lambda>ts.
          for_each (map_values ts) (\<lambda>t. mg_write_lines (Template_serialize t)))))"

definition mgr_getInstances :: "'r react \<Rightarrow> ('r mserver, unit) M" where
  "mgr_getInstances react =
    bnd (gets (\<lambda>ms. length (controllers (ms_mgr ms)))) (\<lambda>n.
      for_each [0..<n] (\<lambda>k.
        bnd (gets (\<lambda>ms. cr_id (controllers (ms_mgr ms) ! k))) (\<lambda>server.
        bnd (mg_do (on_ctrl k (proxy_getInstances react))) (\<lambda>is.
          for_each (map_values is) (\<lambda>i.
            mg_write_lines (InstanceInfo_serialize (setId (makeFullId server (ii_id i)) i)))))))"

text \<open>
  \<open>while (tries --> 0)\<close>: the value left in \<open>tries\<close> when the loop ends. The inner loop over the
  templates stops at the entry with the wanted key, if there is one.
\<close>

function try_controllers :: "'r react \<Rightarrow> instanceInfo \<Rightarrow> int \<Rightarrow> ('r mserver, int) M" where
  "try_controllers react req tries =
    (if \<not> tries > 0 then ret (tries - 1)
     else
       bnd (gets ms_mgr) (\<lambda>mgr.
       bnd (of_res (advanceModulo (length (controllers mgr)) (nextController mgr))) (\<lambda>next.
       seq (mg_do (modify (\<lambda>s. s\<lparr>nextController := next\<rparr>)))
       (bnd (of_res (vec_at (controllers mgr) (nat next))) (\<lambda>ctrl.
       bnd (mg_do (on_ctrl (nat next) (proxy_getTemplates react))) (\<lambda>templates.
         case map_find templates (ii_templ req) of
           None \<Rightarrow> try_controllers react req (tries - 1)
         | Some templ \<Rightarrow>
             bnd (mg_do (on_ctrl (nat next)
                   (proxy_instantiate react templ (ii_memory req) (ii_cpus req)))) (\<lambda>inst.
             seq (mg_write_lines (InstanceInfo_serialize (setId (makeFullId (cr_id ctrl) (ii_id inst)) inst)))
                 (try_controllers react req (- 100)))))))))"
  by pat_completeness auto
termination
  by (relation "measure (\<lambda>(react, req, tries). nat tries)") auto

declare try_controllers.simps [simp del]

definition mgr_instantiate :: "'r react \<Rightarrow> string list \<Rightarrow> ('r mserver, unit) M" where
  "mgr_instantiate react args =
    bnd (of_res (InstanceInfo_deserialize args)) (\<lambda>req.
    bnd (gets (\<lambda>ms. sint (of_nat (length (controllers (ms_mgr ms))) :: 32 word))) (\<lambda>tries.
    bnd (try_controllers react req tries) (\<lambda>tries.
      if tries > - 10
      then seq (mg_do (mlog (log_warn (''unable to find controller with template '' @ ii_templ req))))
               (mg_write_lines (InstanceInfo_serialize req))
      else ret ())))"

text \<open>The first controller of that name, by position.\<close>

definition find_controller :: "string \<Rightarrow> 'r ctrlRef list \<Rightarrow> nat option" where
  "find_controller name cs = find (\<lambda>k. cr_id (cs ! k) = name) [0..<length cs]"

text \<open>\<open>run\<close> and \<open>kill\<close> differ in the proxy's call only.\<close>

definition mgr_route :: "(string \<Rightarrow> ('r link, bool) M) \<Rightarrow> string list \<Rightarrow> ('r mserver, unit) M" where
  "mgr_route call commands =
    bnd (if length commands < 2
         then seq (mg_do (mlog (log_error ''id not provided''))) (ret False)
         else
           bnd (of_res (rbind (vec_at commands 1) extractIdParts)) (\<lambda>parts.
           bnd (gets (\<lambda>ms. find_controller (fst parts) (controllers (ms_mgr ms)))) (\<lambda>found.
             case found of
               None \<Rightarrow>
                 seq (mg_do (mlog (log_warn (''controller with id '' @ fst parts @ '' not found'')))) (ret False)
             | Some k \<Rightarrow> mg_do (on_ctrl k (call (snd parts)))))) (\<lambda>result.
      mg_write (to_string (bool_int result)))"

definition mgr_dispatch :: "'r react \<Rightarrow> string \<Rightarrow> string list \<Rightarrow> ('r mserver, unit) M" where
  "mgr_dispatch react cmd commands =
    (if cmd = ''getTemplates'' then mgr_getTemplates react
     else if cmd = ''getInstances'' then mgr_getInstances react
     else if cmd = ''instantiate'' then mgr_instantiate react (tl commands)
     else if cmd = ''run'' then mgr_route (proxy_run react) commands
     else if cmd = ''kill'' then mgr_route (proxy_kill react) commands
     else mg_write ''unknown command'')"

definition mgr_request :: "'r react \<Rightarrow> string list \<Rightarrow> ('r mserver, unit) M" where
  "mgr_request react commands =
    bnd (of_res (vec_at_checked commands 0)) (\<lambda>cmd.
    seq (mg_do (mlog (log_info (''processing request: '' @ cmd))))
    (seq (mgr_dispatch react cmd commands) mg_send))"

section \<open>A connection\<close>

lemma keeps_mg_do [triples]: "(\<And>ms c. I (ms\<lparr>ms_mgr := c\<rparr>) = I ms) \<Longrightarrow> keeps I (mg_do m)"
  unfolding mg_do_def by (rule yields_zoom) auto

lemma keeps_try_controllers:
  "keeps (\<lambda>ms. s_in (ms_conn ms) = bs) (try_controllers react req tries)"
proof (induction react req tries rule: try_controllers.induct)
  case (1 react req tries)
  show ?case
    unfolding try_controllers.simps [of react req tries] mg_write_lines_def
    by (intro triples keeps_bnd yields_gets 1) auto
qed

lemma keeps_mgr_input: "keeps (\<lambda>ms. s_in (ms_conn ms) = bs) (mgr_request react commands)"
  unfolding mgr_request_def mgr_dispatch_def mgr_getTemplates_def mgr_getInstances_def
    mgr_instantiate_def mgr_route_def mg_write_def mg_write_lines_def mg_send_def
  by (intro triples keeps_bnd yields_gets keeps_try_controllers) auto

lemma mgr_request_input: "mgr_request react commands ms = (r, ms') \<Longrightarrow> s_in (ms_conn ms') = s_in (ms_conn ms)"
  using yieldsD [OF keeps_mgr_input] by blast

text \<open>
  \<open>for (;;)\<close> over the bytes that have arrived. \<open>ms_fault\<close> is set when the handler will not read
  another message: a request hangs or fails, or reading did for another reason than that bytes
  are missing.
\<close>

function mgr_serve :: "'r react \<Rightarrow> 'r mserver \<Rightarrow> fault \<times> 'r mserver" where
  "mgr_serve react ms =
    (case Socket_read (ms_conn ms) of (r, conn) \<Rightarrow>
       (case r of
          Inl f \<Rightarrow> (f, if f = Blocks then ms else ms\<lparr>ms_conn := conn, ms_fault := Some f\<rparr>)
        | Inr commands \<Rightarrow>
            (case mgr_request react commands (ms\<lparr>ms_conn := conn\<rparr>) of (r', ms') \<Rightarrow>
               (case r' of Inl f \<Rightarrow> (f, ms'\<lparr>ms_fault := Some f\<rparr>) | Inr _ \<Rightarrow> mgr_serve react ms'))))"
  by pat_completeness auto
termination
  by (relation "measure (\<lambda>(react, ms). length (s_in (ms_conn ms)))")
    (auto dest!: sym [THEN Socket_read_shorter] sym [THEN mgr_request_input])

declare mgr_serve.simps [simp del]

text \<open>
  The manager as the peer of a client. A request that hangs in a call to a controller never
  returns, and the manager's mutex stays locked: from then on nothing is answered.
\<close>

definition manager_react :: "'r react \<Rightarrow> ('r mserver) react" where
  "manager_react react bytes ms =
    (if ms_fault ms \<noteq> None then (([], \<not> (ms_fault ms = Some Blocks \<or> ms_fault ms = Some Loops)), ms)
     else (case mgr_serve react (ms\<lparr>ms_conn := (ms_conn ms)\<lparr>s_in := s_in (ms_conn ms) @ bytes\<rparr>\<rparr>) of (f, ms') \<Rightarrow>
             ((s_out (ms_conn ms'), f \<noteq> Blocks \<and> f \<noteq> Loops),
              ms'\<lparr>ms_conn := (ms_conn ms')\<lparr>s_out := []\<rparr>\<rparr>)))"

section \<open>The main program\<close>

text \<open>\<open>>>\<close> on a \<open>string\<close>, repeated: the words between white space.\<close>

fun split_words :: "string \<Rightarrow> string \<Rightarrow> string list" where
  "split_words acc [] = (if acc = [] then [] else [acc])"
| "split_words acc (c # cs) =
    (if is_space c then (if acc = [] then split_words [] cs else acc # split_words [] cs)
     else split_words (acc @ [c]) cs)"

definition tokens :: "string \<Rightarrow> string list" where
  "tokens text = split_words [] text"

text \<open>
  The controllers file: pairs of a name and an address. Splitting the address stands before the
  \<open>try\<close>. \<open>dial\<close> gives the state of the peer that answers at an address.
\<close>

fun load_controllers :: "(string \<Rightarrow> int \<Rightarrow> 'r) \<Rightarrow> string list \<Rightarrow> ('r manager, unit) M" where
  "load_controllers dial (s1 # s2 # rest) =
    bnd (of_res (explodeAddress s2)) (\<lambda>(address, port).
    seq (try_catch (\<lambda>_. True)
          (bnd (zoom m_world (\<lambda>w s. s\<lparr>m_world := w\<rparr>) (proxy_new (dial address port) address port)) (\<lambda>l.
             modify (\<lambda>s. s\<lparr>controllers := controllers s
               @ [\<lparr>cr_id = s1, cr_address = address, cr_port = port, cr_proxy = l\<rparr>]\<rparr>)))
          (\<lambda>_. mlog (log_error (''failed to connect to '' @ s1 @ '' controller instance''))))
        (load_controllers dial rest))"
| "load_controllers dial ts = ret ()"

definition usage_manager :: string where
  "usage_manager = ''usage: manager <control-port> <controllers-file>''"

definition manager_main :: "(string \<Rightarrow> int \<Rightarrow> 'r) \<Rightarrow> string list \<Rightarrow> ('r manager, server_socket option) M" where
  "manager_main dial argv =
    (if length argv < 3
     then seq (modify (\<lambda>s. s\<lparr>m_world := (m_world s)\<lparr>w_out := w_out (m_world s) @ [usage_manager]\<rparr>\<rparr>)) (ret None)
     else
       bnd (of_res (stoi (argv ! 1))) (\<lambda>controlPort.
       bnd (zoom m_world (\<lambda>w s. s\<lparr>m_world := w\<rparr>) (ServerSocket_new controlPort)) (\<lambda>ssocket.
       seq (mlog (log_info ''manager started''))
       (bnd (gets (\<lambda>s. case w_file (m_world s) (argv ! 2) of None \<Rightarrow> [] | Some text \<Rightarrow> tokens text)) (\<lambda>ts.
        seq (load_controllers dial ts)
        (seq (mlog (log_info ''supervised controllers:''))
        (bnd (gets controllers) (\<lambda>cs.
         seq (for_each cs (\<lambda>c. mlog (log_info (cr_id c @ '': '' @ cr_address c @ '':'' @ to_string (cr_port c)))))
         (ret (Some ssocket))))))))))"

text \<open>
  One turn of the accept loop, given what \<open>::accept\<close> returned, and as many turns as there are
  results: the sockets of the handlers it starts.
\<close>

definition mgr_accept_turn :: "int \<Rightarrow> ('r manager, socket option) M" where
  "mgr_accept_turn connFD =
    try_catch is_util_exception
      (bnd (of_res (ServerSocket_accept connFD)) (\<lambda>s. ret (Some s)))
      (\<lambda>ex. seq (mlog (log_error (exn_what ex))) (ret None))"

fun mgr_accept_loop :: "int list \<Rightarrow> ('r manager, socket list) M" where
  "mgr_accept_loop [] = ret []"
| "mgr_accept_loop (fd # fds) =
    bnd (mgr_accept_turn fd) (\<lambda>s. bnd (mgr_accept_loop fds) (\<lambda>ss.
      ret (case s of None \<Rightarrow> ss | Some s \<Rightarrow> s # ss)))"

end
