(* ===== verification/Client.thy ===== *)
theory Client
  imports Manager
begin

text \<open>
  \<open>src/src/client.cpp\<close>: the command line client. Its state is the proxy of the manager and what it
  has printed; one line of input is one command. What the manager answers is the parameter
  \<open>react\<close>.
\<close>

record 'r client =
  cl_proxy :: "'r link"
  cl_screen :: string

definition cl_print :: "string \<Rightarrow> ('r client, unit) M" where
  "cl_print text = modify (\<lambda>s. s\<lparr>cl_screen := cl_screen s @ text\<rparr>)"

definition cl_call :: "('r link, 'a) M \<Rightarrow> ('r client, 'a) M" where
  "cl_call m = zoom cl_proxy (\<lambda>l s. s\<lparr>cl_proxy := l\<rparr>) m"

definition NL :: string where
  "NL = [CHR 0x0A]"

definition TAB :: string where
  "TAB = [CHR 0x09]"

section \<open>The commands\<close>

definition help_text :: string where
  "help_text =
    '' - templates'' @ NL @ ''       list of all available templates'' @ NL
    @ '' - instances'' @ NL @ ''       list of all running VM instances'' @ NL
    @ '' - new <template> <memory> <cpus>'' @ NL @ ''       create new VM using given parameters'' @ NL
    @ '' - run <vm-id>'' @ NL @ ''       run VM with given id'' @ NL
    @ '' - kill <vm-id>'' @ NL @ ''       kill VM with given id'' @ NL
    @ '' - exit'' @ NL @ ''       exit CLI'' @ NL"

definition template_row :: "templ \<Rightarrow> string" where
  "template_row t = '' - '' @ t_name t @ '' ('' @ t_description t @ '')'' @ NL"

definition instances_head :: string where
  "instances_head =
    ''   ID'' @ TAB @ TAB @ ''template'' @ TAB @ ''RAM'' @ TAB @ TAB @ ''CPUs'' @ TAB @ TAB
    @ ''SSH port'' @ TAB @ ''status'' @ NL"

definition instance_row :: "instanceInfo \<Rightarrow> string" where
  "instance_row i =
    '' - '' @ ii_id i @ TAB
    @ ii_templ i @ TAB @ TAB
    @ to_string (ii_memory i) @ TAB @ TAB
    @ to_string (ii_cpus i) @ TAB @ TAB
    @ (if ii_running i then to_string (ii_sshPort i) else ''  -  '') @ TAB @ TAB
    @ (if ii_running i then ''ONLINE'' else ''OFFLINE'') @ TAB @ NL"

definition new_row :: "instanceInfo \<Rightarrow> string" where
  "new_row i = ''   result: ID: '' @ ii_id i @ '', SSH port: '' @ to_string (ii_sshPort i) @ NL"

definition invalid_arguments :: string where
  "invalid_arguments = ''invalid arguments'' @ NL"

definition map_at :: "('k, 'v) cmap \<Rightarrow> 'k \<Rightarrow> 'v res" where
  "map_at m k = (case map_find m k of None \<Rightarrow> Inl (Throws Out_Of_Range) | Some v \<Rightarrow> Inr v)"

definition cl_templates :: "'r react \<Rightarrow> ('r client, unit) M" where
  "cl_templates react =
    bnd (cl_call (proxy_getTemplates react)) (\<lambda>ts. for_each (map_values ts) (\<lambda>t. cl_print (template_row t)))"

definition cl_instances :: "'r react \<Rightarrow> ('r client, unit) M" where
  "cl_instances react =
    seq (cl_print instances_head)
    (bnd (cl_call (proxy_getInstances react)) (\<lambda>is. for_each (map_values is) (\<lambda>i. cl_print (instance_row i))))"

text \<open>
  The three arguments are evaluated in an order C++ leaves open; whichever throws first, the same
  handler runs.
\<close>

definition cl_new :: "'r react \<Rightarrow> string list \<Rightarrow> ('r client, unit) M" where
  "cl_new react msg =
    try_catch (\<lambda>_. True)
      (bnd (cl_call (proxy_getTemplates react)) (\<lambda>templ.
       bnd (of_res (rbind (vec_at_checked msg 1) (map_at templ))) (\<lambda>t.
       bnd (of_res (rbind (vec_at_checked msg 2) stoi)) (\<lambda>memory.
       bnd (of_res (rbind (vec_at_checked msg 3) stoi)) (\<lambda>cpus.
       bnd (cl_call (proxy_instantiate react t memory cpus)) (\<lambda>inst.
         cl_print (new_row inst)))))))
      (\<lambda>_. cl_print invalid_arguments)"

definition cl_switch :: "(string \<Rightarrow> ('r link, bool) M) \<Rightarrow> string list \<Rightarrow> ('r client, unit) M" where
  "cl_switch call msg =
    try_catch (\<lambda>_. True)
      (bnd (of_res (vec_at_checked msg 1)) (\<lambda>d.
       bnd (cl_call (call d)) (\<lambda>done. cl_print ((if done then ''OK'' else ''ERROR'') @ NL))))
      (\<lambda>_. cl_print invalid_arguments)"

definition cl_prompt :: string where
  "cl_prompt = NL @ ''> ''"

definition cl_command :: "'r react \<Rightarrow> string list \<Rightarrow> ('r client, unit) M" where
  "cl_command react msg =
    (let cmd = msg ! 0 in
     if cmd = ''help'' then cl_print help_text
     else if cmd = ''templates'' then cl_templates react
     else if cmd = ''instances'' then cl_instances react
     else if cmd = ''new'' then cl_new react msg
     else if cmd = ''run'' then cl_switch (proxy_run react) msg
     else if cmd = ''kill'' then cl_switch (proxy_kill react) msg
     else cl_print (''unknown command'' @ NL))"

text \<open>The loop over the lines of the standard input.\<close>

fun cl_lines :: "'r react \<Rightarrow> string list \<Rightarrow> ('r client, unit) M" where
  "cl_lines react [] = ret ()"
| "cl_lines react (line # lines) =
    (if line = ''exit'' then ret ()
     else if tokens line = [] then seq (cl_print cl_prompt) (cl_lines react lines)
     else seq (cl_command react (tokens line)) (seq (cl_print cl_prompt) (cl_lines react lines)))"

section \<open>The main program\<close>

definition usage_client :: string where
  "usage_client = ''usage: client <controller-address:controller-port>''"

definition greeting :: string where
  "greeting = ''KVM-cloud CLI'' @ NL @ ''type '' @ [CHR 0x27] @ ''help'' @ [CHR 0x27]
    @ '' for list of all available commands'' @ NL @ NL @ ''> ''"

text \<open>\<open>None\<close> where \<open>main\<close> returns -1, otherwise the client when its input ends.\<close>

definition client_main ::
  "'r react \<Rightarrow> (string \<Rightarrow> int \<Rightarrow> 'r) \<Rightarrow> string list \<Rightarrow> string list \<Rightarrow> (world, 'r client option) M" where
  "client_main react dial argv lines =
    (if length argv < 2
     then seq (modify (\<lambda>w. w\<lparr>w_out := w_out w @ [usage_client]\<rparr>)) (ret None)
     else
       bnd (try_catch (\<lambda>_. True)
             (bnd (of_res (explodeAddress (argv ! 1))) (\<lambda>(address, port).
              bnd (proxy_new (dial address port) address port) (\<lambda>l. ret (Some l))))
             (\<lambda>_. seq (log_error ''cannot create controller proxy'') (ret None))) (\<lambda>proxy.
         case proxy of
           None \<Rightarrow> ret None
         | Some l \<Rightarrow>
             (case cl_lines react lines \<lparr>cl_proxy = l, cl_screen = greeting\<rparr> of (r, s) \<Rightarrow>
                of_res (rbind r (\<lambda>_. Inr (Some s))))))"

lemma cl_new_run:
  assumes "proxy_getTemplates react (cl_proxy s) = (Inr ts, l1)" "map_find ts name = Some t"
    and "stoi a = Inr memory" "stoi b = Inr cpus" "proxy_instantiate react t memory cpus l1 = (Inr i, l2)"
  shows "cl_new react [cmd, name, a, b] s = (Inr (), s\<lparr>cl_proxy := l2, cl_screen := cl_screen s @ new_row i\<rparr>)"
proof -
  have args: "rbind (vec_at_checked [cmd, name, a, b] 1) (map_at ts) = Inr t"
    "rbind (vec_at_checked [cmd, name, a, b] 2) stoi = Inr memory"
    "rbind (vec_at_checked [cmd, name, a, b] 3) stoi = Inr cpus"
    using assms(2-4) by (simp_all add: vec_at_checked_def map_at_def)
  have calls: "cl_call (proxy_getTemplates react) s = (Inr ts, s\<lparr>cl_proxy := l1\<rparr>)"
    "cl_call (proxy_instantiate react t memory cpus) (s\<lparr>cl_proxy := l1\<rparr>) = (Inr i, s\<lparr>cl_proxy := l2\<rparr>)"
    using assms(1,5) by (simp_all add: cl_call_def zoom_def)
  show ?thesis
    unfolding cl_new_def try_catch_def
    by (simp add: bnd_def [of "cl_call _"] calls args cl_print_def modify_def del: One_nat_def)
qed

section \<open>Properties\<close>

text \<open>What a line is answered with when that takes no call to the manager.\<close>

fun local_reply :: "string list \<Rightarrow> string option" where
  "local_reply [] = Some []"
| "local_reply (cmd # args) =
    (if cmd = ''help'' then Some help_text
     else if cmd = ''templates'' \<or> cmd = ''instances'' \<or> cmd = ''new'' then None
     else if cmd = ''run'' \<or> cmd = ''kill'' then (if args = [] then Some invalid_arguments else None)
     else Some (''unknown command'' @ NL))"

lemma cl_command_local:
  assumes "local_reply (cmd # args) = Some reply"
  shows "cl_command react (cmd # args) s = (Inr (), s\<lparr>cl_screen := cl_screen s @ reply\<rparr>)"
  using assms
  by (auto simp: cl_command_def cl_print_def modify_def cl_switch_def vec_at_checked_def try_catch_def
      simp del: append.simps append_assoc split: if_splits)

lemma cl_line_local:
  assumes "line \<noteq> ''exit''" "local_reply (tokens line) = Some reply"
  shows "cl_lines react (line # rest) s
    = cl_lines react rest (s\<lparr>cl_screen := cl_screen s @ reply @ cl_prompt\<rparr>)"
proof (cases "tokens line")
  case Nil
  with assms show ?thesis by (simp add: seq_def bnd_def cl_print_def modify_def)
next
  case (Cons cmd args)
  with assms cl_command_local [of cmd args reply react s] show ?thesis
    by (simp add: seq_def bnd_def cl_print_def modify_def del: local_reply.simps)
qed

text \<open>
  The prompt survives any input that needs no manager: blank lines, \<open>help\<close>, \<open>run\<close> and \<open>kill\<close>
  without an argument and unknown commands each print their answer and the prompt, in order,
  without a byte being sent, whatever the peer is; and \<open>exit\<close> ends the loop at once, whatever
  follows it.
\<close>

theorem client_local_lines:
  assumes "\<And>line. line \<in> set lines \<Longrightarrow> line \<noteq> ''exit'' \<and> local_reply (tokens line) \<noteq> None"
  shows "cl_lines react (lines @ ''exit'' # rest) s = (Inr (), s\<lparr>cl_screen := cl_screen s
      @ concat (map (\<lambda>line. the (local_reply (tokens line)) @ cl_prompt) lines)\<rparr>)
    \<and> cl_lines react lines s = cl_lines react (lines @ ''exit'' # rest) s"
  using assms
proof (induction lines arbitrary: s)
  case Nil
  then show ?case by (simp add: ret_def)
next
  case (Cons line lines)
  obtain reply where line: "line \<noteq> ''exit''" "local_reply (tokens line) = Some reply"
    using Cons.prems by auto
  have "\<And>l. l \<in> set lines \<Longrightarrow> l \<noteq> ''exit'' \<and> local_reply (tokens l) \<noteq> None" using Cons.prems by simp
  note IH = Cons.IH [OF this, of "s\<lparr>cl_screen := cl_screen s @ reply @ cl_prompt\<rparr>"]
  show ?case
    unfolding append_Cons cl_line_local [OF line] using IH line(2) by simp
qed

text \<open>A client whose peer never answers.\<close>

definition deaf :: "unit react" where
  "deaf bytes r = (([], False), r)"

definition fresh_client :: "unit client" where
  "fresh_client = \<lparr>cl_proxy = \<lparr>l_socket = new_socket 3, l_peer = ()\<rparr>, cl_screen = greeting\<rparr>"

theorem client_local_lines_witness:
  "cl_lines deaf ([''help'', [], ''run'', ''reboot now''] @ ''exit'' # [''help'']) fresh_client
      = (Inr (), fresh_client\<lparr>cl_screen := cl_screen fresh_client
      @ concat (map (\<lambda>line. the (local_reply (tokens line)) @ cl_prompt) [''help'', [], ''run'', ''reboot now''])\<rparr>)
    \<and> cl_lines deaf [''help'', [], ''run'', ''reboot now''] fresh_client
      = cl_lines deaf ([''help'', [], ''run'', ''reboot now''] @ ''exit'' # [''help'']) fresh_client"
  by (rule client_local_lines) (auto simp: tokens_def is_space_def char_code_def)

end
