(* ===== verification/Manager_Laws.thy ===== *)
theory Manager_Laws
  imports Manager
begin

text \<open>
  What the manager's operations achieve: full ids are taken apart again, the round robin stays in
  range, and over any controllers that keep the interface \<open>service\<close> an \<open>instantiate\<close> request goes
  to the next controller that offers the template, and \<open>run\<close> and \<open>kill\<close> to the controller named
  in the id.
\<close>

section \<open>Ids\<close>

lemma extract_full_id:
  assumes "CHR ''/'' \<notin> set srv" "str_fits (makeFullId srv i)"
  shows "extractIdParts (makeFullId srv i) = Inr (srv, i)"
proof -
  have "takeWhile (\<lambda>x. x \<noteq> CHR ''/'') (srv @ CHR ''/'' # i) = srv"
    using assms(1) by (intro takeWhile_stop) auto
  then show ?thesis
    using assms substr_after_find_in [of srv "CHR ''/''" i] substr_to_find [of "srv @ CHR ''/'' # i" "CHR ''/''"]
    by (simp add: extractIdParts_def makeFullId_def)
qed

lemma extract_bare_id:
  "CHR ''/'' \<notin> set d \<Longrightarrow> str_fits d \<Longrightarrow> extractIdParts d = Inr (d, d)"
  by (simp add: extractIdParts_def substr_after_find_notin substr_to_find takeWhile_neq_all)

lemma extract_parts:
  assumes "str_fits d" "CHR ''/'' \<in> set d"
  shows "\<exists>srv i. d = makeFullId srv i \<and> CHR ''/'' \<notin> set srv \<and> extractIdParts d = Inr (srv, i)"
proof -
  obtain srv i where d: "d = srv @ CHR ''/'' # i" "CHR ''/'' \<notin> set srv"
    using assms(2) by (meson split_list_first)
  then have "d = makeFullId srv i" by (simp add: makeFullId_def)
  with d(2) assms(1) extract_full_id [of srv i] show ?thesis by blast
qed

section \<open>The round robin\<close>

lemma sint_of_size: "uint (q :: 64 word) < 2147483648 \<Longrightarrow> sint (ucast q :: 32 word) = uint q"
  using signed_take_bit_int_eq_self [of 31 "uint q"] uint_ge_0 [of q]
  by (simp add: sint_uint unsigned_ucast_eq take_bit_eq_mod)

lemma size_of_int: "n < 2 ^ 31 \<Longrightarrow> sint (of_nat n :: 32 word) = int n"
  using signed_take_bit_int_eq_self [of 31 "int n"] by (simp add: signed_of_nat)

lemma advance_mod:
  assumes "0 \<le> b" "b < int n" "n < 2 ^ 31"
  shows "advanceModulo n b = Inr ((b + 1) mod int n)"
proof -
  have n: "0 < n" "int n < 2147483648" using assms by auto
  have "uint (word_of_int (b + 1) :: 64 word) = b + 1"
    using assms n by (simp only: uint_word_of_int_eq) (simp add: take_bit_int_eq_self)
  moreover have "uint (of_nat n :: 64 word) = int n"
    using n by (simp add: unsigned_of_nat take_bit_nat_eq_self)
  ultimately have q: "uint ((word_of_int (b + 1) :: 64 word) mod of_nat n) = (b + 1) mod int n"
    by (simp only: uint_mod)
  have r: "0 \<le> (b + 1) mod int n" "(b + 1) mod int n < 2147483648"
    using n by (auto intro: less_trans [OF pos_mod_bound])
  have "sint (ucast ((word_of_int (b + 1) :: 64 word) mod of_nat n) :: 32 word) = (b + 1) mod int n"
    using sint_of_size [of "(word_of_int (b + 1) :: 64 word) mod of_nat n"] unfolding q using r by simp
  then show ?thesis
    using assms n by (auto simp: advanceModulo_def int_max_def)
qed

text \<open>Where the round robin stands after \<open>i\<close> steps; \<open>n\<close> steps in a row visit every controller once.\<close>

definition turn :: "nat \<Rightarrow> int \<Rightarrow> nat \<Rightarrow> nat" where
  "turn n b i = nat ((b + int i) mod int n)"

lemma turn_less: "0 < n \<Longrightarrow> turn n b i < n"
  by (simp add: turn_def nat_less_iff)

lemma turn_Suc: "0 < n \<Longrightarrow> (int (turn n b i) + 1) mod int n = int (turn n b (Suc i))"
  by (simp add: turn_def mod_simps algebra_simps)

lemma turn_inj:
  assumes "i < j" "j < i + n"
  shows "turn n b i \<noteq> turn n b j"
proof
  assume "turn n b i = turn n b j"
  moreover have "0 < n" using assms by simp
  ultimately have "(b + int j) mod int n = (b + int i) mod int n"
    by (simp add: turn_def eq_nat_nat_iff)
  then have "int n dvd int j - int i" by (simp add: mod_eq_dvd_iff)
  then have "int n \<le> int j - int i" using assms(1) by (intro zdvd_imp_le) auto
  with assms(2) show False by simp
qed

section \<open>Calls on the controllers\<close>

abbreviation proxy :: "'r mserver \<Rightarrow> nat \<Rightarrow> 'r link" where
  "proxy ms k \<equiv> cr_proxy (controllers (ms_mgr ms) ! k)"

abbreviation ctrls :: "'r mserver \<Rightarrow> 'r ctrlRef list" where
  "ctrls ms \<equiv> controllers (ms_mgr ms)"

definition set_link :: "nat \<Rightarrow> 'r link \<Rightarrow> 'r mserver \<Rightarrow> 'r mserver" where
  "set_link k l ms =
    ms\<lparr>ms_mgr := (ms_mgr ms)\<lparr>controllers := (ctrls ms)[k := (ctrls ms ! k)\<lparr>cr_proxy := l\<rparr>]\<rparr>\<rparr>"

definition set_next :: "int \<Rightarrow> 'r mserver \<Rightarrow> 'r mserver" where
  "set_next next ms = ms\<lparr>ms_mgr := (ms_mgr ms)\<lparr>nextController := next\<rparr>\<rparr>"

lemma on_ctrl_run:
  "mg_do (on_ctrl k m) ms = (case m (proxy ms k) of (r, l) \<Rightarrow> (r, set_link k l ms))"
  by (simp add: mg_do_def on_ctrl_def zoom_def set_link_def split: prod.split)

lemma set_link_simps [simp]:
  "length (ctrls (set_link k l ms)) = length (ctrls ms)"
  "map cr_id (ctrls (set_link k l ms)) = map cr_id (ctrls ms)"
  "nextController (ms_mgr (set_link k l ms)) = nextController (ms_mgr ms)"
  "m_world (ms_mgr (set_link k l ms)) = m_world (ms_mgr ms)"
  "ms_conn (set_link k l ms) = ms_conn ms" "ms_fault (set_link k l ms) = ms_fault ms"
proof -
  show "map cr_id (ctrls (set_link k l ms)) = map cr_id (ctrls ms)"
    by (cases "k < length (ctrls ms)") (simp_all add: set_link_def map_update list_update_same_conv list_update_beyond not_less)
qed (simp_all add: set_link_def)

lemma proxy_set_link [simp]:
  "k < length (ctrls ms) \<Longrightarrow> proxy (set_link k l ms) k' = (if k' = k then l else proxy ms k')"
  by (simp add: set_link_def nth_list_update)

lemma cr_id_set_link [simp]: "cr_id (ctrls (set_link k l ms) ! k') = cr_id (ctrls ms ! k')"
  by (cases "k < length (ctrls ms)")
    (simp_all add: set_link_def nth_list_update list_update_beyond not_less)

lemma set_next_simps [simp]:
  "ctrls (set_next next ms) = ctrls ms" "nextController (ms_mgr (set_next next ms)) = next"
  "m_world (ms_mgr (set_next next ms)) = m_world (ms_mgr ms)"
  "ms_conn (set_next next ms) = ms_conn ms" "ms_fault (set_next next ms) = ms_fault ms"
  by (simp_all add: set_next_def)

lemma mg_run:
  "mg_do (modify (\<lambda>s. s\<lparr>nextController := next\<rparr>)) ms = (Inr (), set_next next ms)"
  "mg_write d ms = (Inr (), ms\<lparr>ms_conn := write_line d (ms_conn ms)\<rparr>)"
  "mg_write_lines ds ms = (Inr (), ms\<lparr>ms_conn := write_lines ds (ms_conn ms)\<rparr>)"
  "mg_send ms = (Inr (), ms\<lparr>ms_conn := Socket_send (ms_conn ms)\<rparr>)"
  by (simp_all add: mg_do_def zoom_def modify_def set_next_def mg_write_def mg_write_lines_def mg_send_def)

section \<open>Looking a template up in what a controller listed\<close>

definition listing :: "templ list \<Rightarrow> (string, templ) cmap" where
  "listing ts = fold (\<lambda>t. map_put (t_name t) t) ts []"

lemma listing_ok: "map_ok (listing ts)"
  unfolding listing_def using cxx_map.ok_fold [of "[]" t_name "\<lambda>t. t" ts] by simp

lemma listing_None: "name \<notin> t_name ` set ts \<Longrightarrow> map_find (listing ts) name = None"
  unfolding listing_def using cxx_map.find_fold_notin [of "[]" name t_name ts "\<lambda>t. t"] by simp

lemma listing_Some: "name \<in> t_name ` set ts \<Longrightarrow> \<exists>t. map_find (listing ts) name = Some t \<and> t_name t = name"
proof (induction ts rule: rev_induct)
  case (snoc t ts)
  have "listing (ts @ [t]) = map_put (t_name t) t (listing ts)" by (simp add: listing_def)
  with snoc listing_ok [of ts] show ?case by auto
qed simp

text \<open>A manager's controllers: any peers that keep the interface.\<close>

locale cluster = service react ready view do_templates do_instances do_new do_run do_kill
  for react :: "'r react" and ready and view :: "'r \<Rightarrow> 'v" and do_templates and do_instances
    and do_new and do_run and do_kill
begin

text \<open>
  \<open>lists B v\<close>: a controller in state \<open>v\<close> answers \<open>getTemplates\<close>, with a reply that costs \<open>B\<close> at most.
\<close>

definition lists :: "nat \<Rightarrow> 'v \<Rightarrow> bool" where
  "lists B v \<longleftrightarrow> (\<exists>ts. fst (do_templates v) = Inr ts \<and> ts \<noteq> []
     \<and> frame_ok (concat (map Template_serialize ts)) \<and> cost (concat (map Template_serialize ts)) \<le> B)"

definition offered :: "'v \<Rightarrow> string set" where
  "offered v = (case fst (do_templates v) of Inl _ \<Rightarrow> {} | Inr ts \<Rightarrow> t_name ` set ts)"

definition listed :: "'v \<Rightarrow> 'v" where
  "listed v = snd (do_templates v)"

abbreviation pview :: "'r mserver \<Rightarrow> nat \<Rightarrow> 'v" where
  "pview ms k \<equiv> view (l_peer (proxy ms k))"

lemma templates_at:
  assumes "lists B (pview ms k)" "linked (b + B) (proxy ms k)"
  shows "\<exists>ts l. mg_do (on_ctrl k (proxy_getTemplates react)) ms = (Inr (listing ts), set_link k l ms)
    \<and> linked b l \<and> view (l_peer l) = listed (pview ms k) \<and> offered (pview ms k) = t_name ` set ts"
proof -
  obtain ts v where ts: "do_templates (pview ms k) = (Inr ts, v)" "ts \<noteq> []"
      "frame_ok (concat (map Template_serialize ts))" "cost (concat (map Template_serialize ts)) \<le> B"
    using assms(1) by (metis lists_def prod.exhaust_sel)
  have "linked (b + cost (concat (map Template_serialize ts))) (proxy ms k)"
    using linked_mono [OF assms(2)] ts(4) by simp
  from proxy_templates [OF this ts(1-3)] obtain l where
    "proxy_getTemplates react (proxy ms k) = (Inr (listing ts), l)" "linked b l" "view (l_peer l) = v"
    by (auto simp: listing_def)
  then show ?thesis
    using ts(1) by (intro exI [of _ ts] exI [of _ l]) (simp add: on_ctrl_run listed_def offered_def)
qed

lemma try_skip_once:
  assumes "advanceModulo (length (ctrls ms)) (nextController (ms_mgr ms)) = Inr (int k)"
    and "k < length (ctrls ms)" "lists B (pview ms k)" "linked (b + B) (proxy ms k)"
    and "ii_templ req \<notin> offered (pview ms k)"
  shows "\<exists>l. (\<forall>t. 0 \<le> t \<longrightarrow> try_controllers react req (1 + t) ms
      = try_controllers react req t (set_link k l (set_next (int k) ms)))
    \<and> linked b l \<and> view (l_peer l) = listed (pview ms k)"
proof -
  obtain ts l where l: "mg_do (on_ctrl k (proxy_getTemplates react)) (set_next (int k) ms)
      = (Inr (listing ts), set_link k l (set_next (int k) ms))"
    "linked b l" "view (l_peer l) = listed (pview ms k)" "offered (pview ms k) = t_name ` set ts"
    using templates_at [of B "set_next (int k) ms" k b] assms(3,4) by auto
  then show ?thesis
    using assms listing_None [of "ii_templ req" ts]
    by (intro exI [of _ l]) (simp add: try_controllers.simps [of react req "1 + _"] gets_def bnd_def
        of_res_def seq_def vec_at_def mg_run)
qed

lemma try_pick:
  assumes "0 < tries" "advanceModulo (length (ctrls ms)) (nextController (ms_mgr ms)) = Inr (int k)"
    and "k < length (ctrls ms)" "lists B (pview ms k)" "linked (b + 15 + B) (proxy ms k)"
    and "ii_templ req \<in> offered (pview ms k)" "word_line (ii_templ req)" "info_ok req"
    and "do_new (ii_templ req) (ii_memory req) (ii_cpus req) (listed (pview ms k)) = (Inr i, v)"
    and "frame_ok (InstanceInfo_serialize i)" "info_ok i"
  shows "\<exists>l. try_controllers react req tries ms
      = (Inr (- 101), (set_link k l (set_next (int k) ms))\<lparr>ms_conn :=
           write_lines (InstanceInfo_serialize (setId (makeFullId (cr_id (ctrls ms ! k)) (ii_id i)) i)) (ms_conn ms)\<rparr>)
    \<and> linked b l \<and> view (l_peer l) = v"
proof -
  let ?ms = "set_next (int k) ms"
  obtain ts l where l: "mg_do (on_ctrl k (proxy_getTemplates react)) ?ms = (Inr (listing ts), set_link k l ?ms)"
    "linked (b + 15) l" "view (l_peer l) = listed (pview ms k)" "offered (pview ms k) = t_name ` set ts"
    using templates_at [of B ?ms k "b + 15"] assms(4,5) by auto
  obtain t where t: "map_find (listing ts) (ii_templ req) = Some t" "t_name t = ii_templ req"
    using listing_Some [of "ii_templ req" ts] assms(6) l(4) by auto
  obtain l' where l': "proxy_instantiate react t (ii_memory req) (ii_cpus req) l = (Inr i, l')"
    "linked b l'" "view (l_peer l') = v"
    using proxy_new_vm [of b l t "ii_memory req" "ii_cpus req" i v] l(2,3) t(2) assms(7-11)
    by (auto simp: info_ok_def)
  have "set_link k l' (set_link k l ?ms) = set_link k l' ?ms"
    using assms(3) by (simp add: set_link_def set_next_def)
  then show ?thesis
    using assms(1-3) l(1) t(1) l'
    by (intro exI [of _ l']) (simp add: try_controllers.simps [of react req tries] gets_def bnd_def
        of_res_def seq_def vec_at_def mg_run on_ctrl_run [of _ "proxy_instantiate _ _ _ _"]
        try_controllers.simps [of react req "- 100"] ret_def)
qed

text \<open>
  \<open>asked b K ms ms'\<close>: between \<open>ms\<close> and \<open>ms'\<close> the controllers in \<open>K\<close> were asked for their templates
  once, and nothing else changed but the round robin.
\<close>

definition asked :: "nat \<Rightarrow> nat set \<Rightarrow> 'r mserver \<Rightarrow> 'r mserver \<Rightarrow> bool" where
  "asked b K ms ms' \<longleftrightarrow>
    map cr_id (ctrls ms') = map cr_id (ctrls ms) \<and> ms_conn ms' = ms_conn ms
    \<and> m_world (ms_mgr ms') = m_world (ms_mgr ms) \<and> ms_fault ms' = ms_fault ms
    \<and> (\<forall>k < length (ctrls ms).
         if k \<in> K then linked b (proxy ms' k) \<and> pview ms' k = listed (pview ms k)
         else proxy ms' k = proxy ms k)"

lemma asked_refl: "asked b {} ms ms"
  by (simp add: asked_def)

lemma asked_length: "asked b K ms ms' \<Longrightarrow> length (ctrls ms') = length (ctrls ms)"
  using length_map by (metis asked_def)

lemma asked_one:
  assumes "asked b K ms ms'" "k < length (ctrls ms)" "k \<notin> K"
    and "linked b l" "view (l_peer l) = listed (pview ms k)"
  shows "asked b (insert k K) ms (set_link k l (set_next next ms'))"
  using assms asked_length [OF assms(1)] by (auto simp: asked_def)

lemma skip_many:
  fixes ms :: "'r mserver" and n :: nat and b0 :: int
  assumes n: "n = length (ctrls ms)" "n < 2 ^ 31" and b0: "b0 = nextController (ms_mgr ms)" "0 \<le> b0" "b0 < int n"
    and all: "\<And>k. k < n \<Longrightarrow> lists B (pview ms k) \<and> linked (b + B) (proxy ms k)"
  shows "m \<le> n \<Longrightarrow> (\<And>i. 1 \<le> i \<Longrightarrow> i \<le> m \<Longrightarrow> ii_templ req \<notin> offered (pview ms (turn n b0 i))) \<Longrightarrow>
    \<exists>ms'. (\<forall>t. 0 \<le> t \<longrightarrow> try_controllers react req (int m + t) ms = try_controllers react req t ms')
      \<and> nextController (ms_mgr ms') = int (turn n b0 m) \<and> asked b (turn n b0 ` {1..m}) ms ms'"
proof (induction m)
  case 0
  then show ?case
    using b0 asked_refl by (intro exI [of _ ms]) (simp add: turn_def)
next
  case (Suc m)
  then obtain ms' where ms': "\<And>t. 0 \<le> t \<Longrightarrow> try_controllers react req (int m + t) ms = try_controllers react req t ms'"
    "nextController (ms_mgr ms') = int (turn n b0 m)" "asked b (turn n b0 ` {1..m}) ms ms'"
    by auto
  let ?k = "turn n b0 (Suc m)"
  have pos: "0 < n" using b0 by linarith
  have k: "?k < n" by (rule turn_less [OF pos])
  have new: "?k \<notin> turn n b0 ` {1..m}"
  proof
    assume "?k \<in> turn n b0 ` {1..m}"
    then obtain i where "1 \<le> i" "i \<le> m" "turn n b0 i = ?k" by auto
    with turn_inj [of i "Suc m" n b0] Suc.prems(1) show False by simp
  qed
  have same: "proxy ms' ?k = proxy ms ?k" using ms'(3) new k n(1) by (simp add: asked_def)
  have adv: "advanceModulo (length (ctrls ms')) (nextController (ms_mgr ms')) = Inr (int ?k)"
    using advance_mod [of "int (turn n b0 m)" n] turn_less [OF pos, of b0 m] turn_Suc [OF pos, of b0 m]
      asked_length [OF ms'(3)] ms'(2) n by simp
  have k': "?k < length (ctrls ms')" "lists B (pview ms' ?k)" "linked (b + B) (proxy ms' ?k)"
    "ii_templ req \<notin> offered (pview ms' ?k)"
    using k n(1) asked_length [OF ms'(3)] all [OF k] same Suc.prems(2) by auto
  obtain l where l: "\<And>t. 0 \<le> t \<Longrightarrow> try_controllers react req (1 + t) ms'
      = try_controllers react req t (set_link ?k l (set_next (int ?k) ms'))"
    "linked b l" "view (l_peer l) = listed (pview ms' ?k)"
    using try_skip_once [OF adv k'] by blast
  show ?case
  proof (intro exI [of _ "set_link ?k l (set_next (int ?k) ms')"] conjI allI impI)
    fix t :: int
    assume t: "0 \<le> t"
    have eq: "int (Suc m) + t = int m + (1 + t)" by simp
    show "try_controllers react req (int (Suc m) + t) ms
        = try_controllers react req t (set_link ?k l (set_next (int ?k) ms'))"
      unfolding eq using ms'(1) [of "1 + t"] l(1) [OF t] t by simp
  next
    have "turn n b0 ` {1..Suc m} = insert ?k (turn n b0 ` {1..m})"
      by (simp add: atLeastAtMostSuc_conv)
    then show "asked b (turn n b0 ` {1..Suc m}) ms (set_link ?k l (set_next (int ?k) ms'))"
      using asked_one [OF ms'(3) _ new l(2), of "int ?k"] l(3) same k n(1) by simp
  qed simp
qed

lemma instantiate_goes_to:
  fixes ms :: "'r mserver" and n :: nat and b0 :: int
  assumes n: "n = length (ctrls ms)" "n < 2 ^ 31" and b0: "b0 = nextController (ms_mgr ms)" "0 \<le> b0" "b0 < int n"
    and all: "\<And>k. k < n \<Longrightarrow> lists B (pview ms k) \<and> linked (b + 15 + B) (proxy ms k)"
    and req: "InstanceInfo_deserialize args = Inr req" "word_line (ii_templ req)"
    and j: "1 \<le> j" "j \<le> n" "k = turn n b0 j" "ii_templ req \<in> offered (pview ms k)"
    and skip: "\<And>i. 1 \<le> i \<Longrightarrow> i < j \<Longrightarrow> ii_templ req \<notin> offered (pview ms (turn n b0 i))"
    and new: "do_new (ii_templ req) (ii_memory req) (ii_cpus req) (listed (pview ms k)) = (Inr i, v)"
      "frame_ok (InstanceInfo_serialize i)" "info_ok i"
  shows "\<exists>ms'. mgr_instantiate react args ms = (Inr (), ms')
    \<and> ms_conn ms' = write_lines (InstanceInfo_serialize
        (setId (makeFullId (cr_id (ctrls ms ! k)) (ii_id i)) i)) (ms_conn ms)
    \<and> nextController (ms_mgr ms') = int k \<and> map cr_id (ctrls ms') = map cr_id (ctrls ms)
    \<and> m_world (ms_mgr ms') = m_world (ms_mgr ms) \<and> ms_fault ms' = ms_fault ms
    \<and> (\<forall>k' < n. linked b (proxy ms' k') \<and> pview ms' k' =
         (if k' = k then v else if k' \<in> turn n b0 ` {1..<j} then listed (pview ms k') else pview ms k'))"
proof -
  obtain m where m: "j = Suc m" using j(1) by (cases j) auto
  have pos: "0 < n" and k: "k < n" using b0 j(3) by (auto intro: turn_less)
  have range: "turn n b0 ` {1..<j} = turn n b0 ` {1..m}" using m by (simp add: atLeastLessThanSuc_atLeastAtMost)
  obtain ms1 where ms1: "\<And>t. 0 \<le> t \<Longrightarrow> try_controllers react req (int m + t) ms = try_controllers react req t ms1"
    "nextController (ms_mgr ms1) = int (turn n b0 m)" "asked (b + 15) (turn n b0 ` {1..m}) ms ms1"
    using skip_many [OF n b0 all, of m req] j(2) m skip by auto
  have new_k: "k \<notin> turn n b0 ` {1..m}"
  proof
    assume "k \<in> turn n b0 ` {1..m}"
    then obtain i where "1 \<le> i" "i \<le> m" "turn n b0 i = k" by auto
    with turn_inj [of i j n b0] j m show False by simp
  qed
  then have same: "proxy ms1 k = proxy ms k" using ms1(3) k n(1) by (simp add: asked_def)
  have len1: "length (ctrls ms1) = n" using asked_length [OF ms1(3)] n(1) by simp
  have id1: "cr_id (ctrls ms1 ! k) = cr_id (ctrls ms ! k)"
    using ms1(3) k len1 n(1) by (metis asked_def nth_map)
  have adv: "advanceModulo (length (ctrls ms1)) (nextController (ms_mgr ms1)) = Inr (int k)"
    using advance_mod [of "int (turn n b0 m)" n] turn_less [OF pos, of b0 m] turn_Suc [OF pos, of b0 m] ms1(2) n len1 j(3) m
    by simp
  have left: "0 < int n - int m" using j(2) m by simp
  obtain l where l: "try_controllers react req (int n - int m) ms1
      = (Inr (- 101), (set_link k l (set_next (int k) ms1))\<lparr>ms_conn :=
           write_lines (InstanceInfo_serialize (setId (makeFullId (cr_id (ctrls ms ! k)) (ii_id i)) i)) (ms_conn ms1)\<rparr>)"
    "linked b l" "view (l_peer l) = v"
    using try_pick [OF left adv, of B b req i v] len1 k all [OF k] same req(2) j(4) new
      deserialize_info_ok [OF req(1)] id1 by auto
  let ?ms' = "(set_link k l (set_next (int k) ms1))\<lparr>ms_conn :=
     write_lines (InstanceInfo_serialize (setId (makeFullId (cr_id (ctrls ms ! k)) (ii_id i)) i)) (ms_conn ms1)\<rparr>"
  have "try_controllers react req (int n) ms = (Inr (- 101), ?ms')"
    using ms1(1) [of "int n - int m"] left l(1) by simp
  then have run: "mgr_instantiate react args ms = (Inr (), ?ms')"
    using n req(1) size_of_int [OF n(2)] by (simp add: mgr_instantiate_def bnd_def of_res_def gets_def ret_def)
  have others: "linked b (proxy ms1 k') \<and> pview ms1 k' =
      (if k' \<in> turn n b0 ` {1..m} then listed (pview ms k') else pview ms k')" if "k' < n" for k'
  proof -
    have "linked b (proxy ms k')" using all [OF that] by (auto intro: linked_mono)
    moreover have "linked (b + 15) x \<Longrightarrow> linked b x" for x by (erule linked_mono) simp
    ultimately show ?thesis using ms1(3) that n(1) by (auto simp: asked_def)
  qed
  have "linked b (proxy ?ms' k') \<and> pview ?ms' k' =
      (if k' = k then v else if k' \<in> turn n b0 ` {1..<j} then listed (pview ms k') else pview ms k')"
    if "k' < n" for k'
    unfolding range using others [OF that] l(2,3) k len1 by simp
  with run ms1(3) show ?thesis
    by (intro exI [of _ ?ms']) (simp add: asked_def)
qed

lemma instantiate_nowhere:
  fixes ms :: "'r mserver" and n :: nat and b0 :: int
  assumes n: "n = length (ctrls ms)" "n < 2 ^ 31" and b0: "b0 = nextController (ms_mgr ms)" "0 \<le> b0" "b0 < int n"
    and all: "\<And>k. k < n \<Longrightarrow> lists B (pview ms k) \<and> linked (b + B) (proxy ms k)"
    and req: "InstanceInfo_deserialize args = Inr req" "length (ii_templ req) \<le> 800"
    and clock: "clock_ok (m_world (ms_mgr ms))"
    and skip: "\<And>k. k < n \<Longrightarrow> ii_templ req \<notin> offered (pview ms k)"
  shows "\<exists>ms'. mgr_instantiate react args ms = (Inr (), ms')
    \<and> ms_conn ms' = write_lines (InstanceInfo_serialize req) (ms_conn ms)
    \<and> nextController (ms_mgr ms') = b0 \<and> map cr_id (ctrls ms') = map cr_id (ctrls ms)
    \<and> (\<forall>k < n. linked b (proxy ms' k) \<and> pview ms' k = listed (pview ms k))"
proof -
  have pos: "0 < n" using b0 by linarith
  obtain ms1 where ms1: "\<And>t. 0 \<le> t \<Longrightarrow> try_controllers react req (int n + t) ms = try_controllers react req t ms1"
    "nextController (ms_mgr ms1) = int (turn n b0 n)" "asked b (turn n b0 ` {1..n}) ms ms1"
    using skip_many [OF n b0 all, of n req] skip turn_less [OF pos] by auto
  have "inj_on (turn n b0) {1..n}"
  proof (rule linorder_inj_onI')
    fix i j
    assume "i \<in> {1..n}" "j \<in> {1..n}" "i < j"
    then show "turn n b0 i \<noteq> turn n b0 j" by (intro turn_inj) auto
  qed
  then have "card (turn n b0 ` {1..n}) = n" by (simp add: card_image)
  then have every: "turn n b0 ` {1..n} = {..<n}"
    using turn_less [OF pos] by (intro card_subset_eq) auto
  have round: "int (turn n b0 n) = b0" using b0 by (simp add: turn_def)
  let ?msg = "''unable to find controller with template '' @ ii_templ req"
  have "length ?msg \<le> 900" using req(2) by simp
  moreover have "clock_ok (m_world (ms_mgr ms1))" using clock ms1(3) by (simp add: asked_def)
  ultimately obtain out where log: "log_warn ?msg (m_world (ms_mgr ms1)) = (Inr (), (m_world (ms_mgr ms1))\<lparr>w_out := out\<rparr>)"
    unfolding log_warn_def using log_output_short by blast
  let ?ms2 = "ms1\<lparr>ms_mgr := (ms_mgr ms1)\<lparr>m_world := (m_world (ms_mgr ms1))\<lparr>w_out := out\<rparr>\<rparr>,
     ms_conn := write_lines (InstanceInfo_serialize req) (ms_conn ms1)\<rparr>"
  have "try_controllers react req (int n) ms = (Inr (- 1), ms1)"
    using ms1(1) [of 0] by (simp add: try_controllers.simps [of react req 0] ret_def)
  then have "mgr_instantiate react args ms = (Inr (), ?ms2)"
    using n req(1) size_of_int [OF n(2)] log
    by (simp add: mgr_instantiate_def bnd_def of_res_def gets_def seq_def mg_run mg_do_def zoom_def mlog_def
        del: append.simps append_assoc)
  then show ?thesis
    using ms1(2,3) n(1) round unfolding every
    by (intro exI [of _ ?ms2]) (simp add: asked_def)
qed

end

end
