(* ===== verification/Manager_Service.thy ===== *)
theory Manager_Service
  imports Manager_Laws
begin

text \<open>
  The manager as the peer of a client: its commands as operations on the manager alone, without
  the client's connection, and the proof that it keeps the interface \<open>service\<close> whatever its own
  controllers do. So the client's remote calls are the manager's operations, as the manager's
  remote calls are the controllers'.
\<close>

section \<open>The commands without the connection\<close>

definition mprocessing :: "string \<Rightarrow> ('r manager, unit) M" where
  "mprocessing cmd = mlog (log_info (''processing request: '' @ cmd))"

fun gather :: "'k list \<Rightarrow> ('k \<Rightarrow> ('s, 'a list) M) \<Rightarrow> ('s, 'a list) M" where
  "gather [] f = ret []"
| "gather (k # ks) f = bnd (f k) (\<lambda>xs. bnd (gather ks f) (\<lambda>ys. ret (xs @ ys)))"

definition templates_of :: "'r react \<Rightarrow> nat \<Rightarrow> ('r manager, templ list) M" where
  "templates_of react k = bnd (on_ctrl k (proxy_getTemplates react)) (\<lambda>ts. ret (map_values ts))"

definition instances_of :: "'r react \<Rightarrow> nat \<Rightarrow> ('r manager, instanceInfo list) M" where
  "instances_of react k =
    bnd (gets (\<lambda>s. cr_id (controllers s ! k))) (\<lambda>server.
    bnd (on_ctrl k (proxy_getInstances react)) (\<lambda>is.
      ret (map (\<lambda>i. setId (makeFullId server (ii_id i)) i) (map_values is))))"

definition man_templates :: "'r react \<Rightarrow> ('r manager, templ list) M" where
  "man_templates react =
    seq (mprocessing ''getTemplates'')
    (bnd (gets (\<lambda>s. length (controllers s))) (\<lambda>n. gather [0..<n] (templates_of react)))"

text \<open>
  With no instance at all the manager writes nothing and sends a message that is not ended (unless
  it is the first on its connection), so the caller waits for ever.
\<close>

definition man_instances :: "'r react \<Rightarrow> ('r manager, instanceInfo list) M" where
  "man_instances react =
    seq (mprocessing ''getInstances'')
    (bnd (gets (\<lambda>s. length (controllers s))) (\<lambda>n.
     bnd (gather [0..<n] (instances_of react)) (\<lambda>is.
       if is = [] then fail Blocks else ret is)))"

function man_try :: "'r react \<Rightarrow> instanceInfo \<Rightarrow> int \<Rightarrow> ('r manager, instanceInfo option) M" where
  "man_try react req tries =
    (if \<not> tries > 0 then ret None
     else
       bnd (gets (\<lambda>s. s)) (\<lambda>mgr.
       bnd (of_res (advanceModulo (length (controllers mgr)) (nextController mgr))) (\<lambda>next.
       seq (modify (\<lambda>s. s\<lparr>nextController := next\<rparr>))
       (bnd (of_res (vec_at (controllers mgr) (nat next))) (\<lambda>ctrl.
       bnd (on_ctrl (nat next) (proxy_getTemplates react)) (\<lambda>templates.
         case map_find templates (ii_templ req) of
           None \<Rightarrow> man_try react req (tries - 1)
         | Some templ \<Rightarrow>
             bnd (on_ctrl (nat next) (proxy_instantiate react templ (ii_memory req) (ii_cpus req))) (\<lambda>inst.
               ret (Some (setId (makeFullId (cr_id ctrl) (ii_id inst)) inst))))))))) "
  by pat_completeness auto
termination
  by (relation "measure (\<lambda>(react, req, tries). nat tries)") auto

declare man_try.simps [simp del]

text \<open>More controllers than an \<open>int\<close> can count are left out.\<close>

definition man_find :: "'r react \<Rightarrow> instanceInfo \<Rightarrow> ('r manager, instanceInfo) M" where
  "man_find react req =
    bnd (gets (\<lambda>s. length (controllers s))) (\<lambda>n.
    bnd (if n < 2 ^ 31 then man_try react req (int n) else fail Undefined) (\<lambda>made.
      case made of
        None \<Rightarrow> seq (mlog (log_warn (''unable to find controller with template '' @ ii_templ req))) (ret req)
      | Some i \<Rightarrow> ret i))"

definition man_new :: "'r react \<Rightarrow> string \<Rightarrow> int \<Rightarrow> int \<Rightarrow> ('r manager, instanceInfo) M" where
  "man_new react name memory cpus =
    seq (mprocessing ''instantiate'')
      (man_find react
        \<lparr>ii_id = ''0'', ii_templ = name, ii_memory = memory, ii_cpus = cpus, ii_sshPort = 0, ii_running = False\<rparr>)"

definition man_route :: "(string \<Rightarrow> ('r link, bool) M) \<Rightarrow> string \<Rightarrow> ('r manager, bool) M" where
  "man_route call d =
    bnd (of_res (extractIdParts d)) (\<lambda>parts.
    bnd (gets (\<lambda>s. find_controller (fst parts) (controllers s))) (\<lambda>found.
      case found of
        None \<Rightarrow> seq (mlog (log_warn (''controller with id '' @ fst parts @ '' not found''))) (ret False)
      | Some k \<Rightarrow> on_ctrl k (call (snd parts))))"

definition man_run :: "'r react \<Rightarrow> string \<Rightarrow> ('r manager, bool) M" where
  "man_run react d = seq (mprocessing ''run'') (man_route (proxy_run react) d)"

definition man_kill :: "'r react \<Rightarrow> string \<Rightarrow> ('r manager, bool) M" where
  "man_kill react d = seq (mprocessing ''kill'') (man_route (proxy_kill react) d)"

section \<open>The commands are those operations, and a write\<close>

text \<open>
  \<open>lifts m cmd wr\<close>: the command runs \<open>m\<close> on the manager and writes its result with \<open>wr\<close>.
\<close>

definition lifts :: "('r manager, 'a) M \<Rightarrow> ('a \<Rightarrow> socket \<Rightarrow> socket) \<Rightarrow> ('r mserver, unit) M \<Rightarrow> bool" where
  "lifts m wr cmd \<longleftrightarrow>
    (\<forall>ms a c. m (ms_mgr ms) = (Inr a, c) \<longrightarrow>
       cmd ms = (Inr (), ms\<lparr>ms_mgr := c, ms_conn := wr a (ms_conn ms)\<rparr>))"

lemma mg_do_run: "mg_do m ms = (case m (ms_mgr ms) of (r, c) \<Rightarrow> (r, ms\<lparr>ms_mgr := c\<rparr>))"
  by (simp add: mg_do_def zoom_def)

lemma for_each_mg_write:
  "for_each xs (\<lambda>x. mg_write_lines (ser x)) ms
    = (Inr (), ms\<lparr>ms_conn := fold write_lines (map ser xs) (ms_conn ms)\<rparr>)"
  by (induction xs arbitrary: ms) (simp_all add: ret_def seq_def bnd_def mg_run)

lemma lifts_gather:
  fixes f :: "'k \<Rightarrow> ('r manager, 'a list) M"
  shows "(\<And>k. lifts (f k) (\<lambda>xs. fold write_lines (map ser xs)) (body k)) \<Longrightarrow>
   lifts (gather ks f) (\<lambda>xs. fold write_lines (map ser xs)) (for_each ks body)"
proof (induction ks)
  case Nil
  then show ?case by (simp add: lifts_def ret_def)
next
  case (Cons k ks)
  then have one: "lifts (f k) (\<lambda>xs. fold write_lines (map ser xs)) (body k)"
    and rest: "lifts (gather ks f) (\<lambda>xs. fold write_lines (map ser xs)) (for_each ks body)" by simp_all
  show ?case
    unfolding lifts_def
  proof (intro allI impI)
    fix ms :: "'r mserver" and xs c
    assume "gather (k # ks) f (ms_mgr ms) = (Inr xs, c)"
    then obtain as bs c1 where "f k (ms_mgr ms) = (Inr as, c1)" "gather ks f c1 = (Inr bs, c)" "xs = as @ bs"
      by (auto simp: bnd_Inr_iff ret_def)
    with one rest show "for_each (k # ks) body ms
        = (Inr (), ms\<lparr>ms_mgr := c, ms_conn := fold write_lines (map ser xs) (ms_conn ms)\<rparr>)"
      by (auto simp: lifts_def seq_def bnd_def)
  qed
qed

lemma lifts_templates:
  "lifts (bnd (gets (\<lambda>s. length (controllers s))) (\<lambda>n. gather [0..<n] (templates_of react)))
     (\<lambda>ts. fold write_lines (map Template_serialize ts)) (mgr_getTemplates react)"
proof -
  have "lifts (templates_of react k) (\<lambda>ts. fold write_lines (map Template_serialize ts))
      (bnd (mg_do (on_ctrl k (proxy_getTemplates react))) (\<lambda>ts.
        for_each (map_values ts) (\<lambda>t. mg_write_lines (Template_serialize t))))" for k
    by (auto simp: lifts_def templates_of_def bnd_Inr_iff ret_def for_each_mg_write mg_do_run
        bnd_def [of "mg_do _"])
  from lifts_gather [where f = "templates_of react", OF this] show ?thesis
    by (simp add: lifts_def mgr_getTemplates_def bnd_gets)
qed

lemma lifts_instances:
  "lifts (bnd (gets (\<lambda>s. length (controllers s))) (\<lambda>n. gather [0..<n] (instances_of react)))
     (\<lambda>is. fold write_lines (map InstanceInfo_serialize is)) (mgr_getInstances react)"
proof -
  have "lifts (instances_of react k) (\<lambda>is. fold write_lines (map InstanceInfo_serialize is))
      (bnd (gets (\<lambda>ms. cr_id (controllers (ms_mgr ms) ! k))) (\<lambda>server.
        bnd (mg_do (on_ctrl k (proxy_getInstances react))) (\<lambda>is.
          for_each (map_values is) (\<lambda>i.
            mg_write_lines (InstanceInfo_serialize (setId (makeFullId server (ii_id i)) i))))))" for k
    by (auto simp: lifts_def instances_of_def bnd_gets bnd_Inr_iff ret_def mg_do_run comp_def
        for_each_mg_write [of _ "\<lambda>i. InstanceInfo_serialize (setId (makeFullId _ (ii_id i)) i)"]
        bnd_def [of "mg_do _"])
  from lifts_gather [where f = "instances_of react", OF this] show ?thesis
    by (simp add: lifts_def mgr_getInstances_def bnd_gets)
qed

lemma try_controllers_man_try:
  "man_try react req tries (ms_mgr ms) = (Inr made, c) \<Longrightarrow> 0 \<le> tries \<Longrightarrow>
   try_controllers react req tries ms =
     (case made of
        None \<Rightarrow> (Inr (- 1), ms\<lparr>ms_mgr := c\<rparr>)
      | Some i \<Rightarrow> (Inr (- 101), ms\<lparr>ms_mgr := c, ms_conn := write_lines (InstanceInfo_serialize i) (ms_conn ms)\<rparr>))"
proof (induction react req tries arbitrary: ms rule: man_try.induct)
  case (1 react req tries)
  show ?case
  proof (cases "tries > 0")
    case False
    with 1(2,3) show ?thesis
      by (auto simp: man_try.simps [of react req tries] try_controllers.simps [of react req 0] ret_def)
  next
    case True
    let ?s = "ms_mgr ms"
    from 1(2) True obtain nxt ctrl templates c1 where
      adv: "advanceModulo (length (controllers ?s)) (nextController ?s) = Inr nxt" and
      ctrl: "vec_at (controllers ?s) (nat nxt) = Inr ctrl" and
      ts: "on_ctrl (nat nxt) (proxy_getTemplates react) (?s\<lparr>nextController := nxt\<rparr>) = (Inr templates, c1)" and
      rest: "(case map_find templates (ii_templ req) of
           None \<Rightarrow> man_try react req (tries - 1)
         | Some templ \<Rightarrow>
             bnd (on_ctrl (nat nxt) (proxy_instantiate react templ (ii_memory req) (ii_cpus req))) (\<lambda>inst.
               ret (Some (setId (makeFullId (cr_id ctrl) (ii_id inst)) inst)))) c1 = (Inr made, c)"
      by (auto simp: man_try.simps [of react req tries] bnd_Inr_iff seq_Inr_iff gets_def of_res_def modify_def)
    have asked:
      "seq (mg_do (modify (\<lambda>s. s\<lparr>nextController := nxt\<rparr>))) m ms = m (set_next nxt ms)"
      "bnd (mg_do (on_ctrl (nat nxt) (proxy_getTemplates react))) k (set_next nxt ms)
        = k templates (ms\<lparr>ms_mgr := c1\<rparr>)" for m :: "('a mserver, int) M" and k :: "_ \<Rightarrow> ('a mserver, int) M"
      using ts by (simp_all add: seq_def bnd_def mg_run) (simp add: mg_do_run set_next_def)
    have "try_controllers react req tries ms = (case map_find templates (ii_templ req) of
           None \<Rightarrow> try_controllers react req (tries - 1)
         | Some templ \<Rightarrow>
             bnd (mg_do (on_ctrl (nat nxt)
                   (proxy_instantiate react templ (ii_memory req) (ii_cpus req)))) (\<lambda>inst.
             seq (mg_write_lines (InstanceInfo_serialize (setId (makeFullId (cr_id ctrl) (ii_id inst)) inst)))
                 (try_controllers react req (- 100)))) (ms\<lparr>ms_mgr := c1\<rparr>)"
      using True adv ctrl asked
      by (simp add: try_controllers.simps [of react req tries] bnd_gets)
    also have "\<dots> = (case made of
        None \<Rightarrow> (Inr (- 1), ms\<lparr>ms_mgr := c\<rparr>)
      | Some i \<Rightarrow> (Inr (- 101), ms\<lparr>ms_mgr := c, ms_conn := write_lines (InstanceInfo_serialize i) (ms_conn ms)\<rparr>))"
    proof (cases "map_find templates (ii_templ req)")
      case None
      then show ?thesis
        using "1.IH" [OF _ None, where ms = "ms\<lparr>ms_mgr := c1\<rparr>"] rest True by (cases made) simp_all
    next
      case (Some templ)
      with rest obtain inst where inst:
        "on_ctrl (nat nxt) (proxy_instantiate react templ (ii_memory req) (ii_cpus req)) c1 = (Inr inst, c)"
        "made = Some (setId (makeFullId (cr_id ctrl) (ii_id inst)) inst)"
        by (auto simp: bnd_Inr_iff ret_def)
      with Some show ?thesis
        by (simp add: bnd_def seq_def mg_do_run mg_run try_controllers.simps [of react req "- 100"] ret_def)
    qed
    finally show ?thesis .
  qed
qed

lemma lifts_instantiate:
  fixes react :: "'r react"
  assumes "InstanceInfo_deserialize args = Inr req"
  shows "lifts (man_find react req) (\<lambda>i. write_lines (InstanceInfo_serialize i)) (mgr_instantiate react args)"
  unfolding lifts_def
proof (intro allI impI)
  fix ms :: "'r mserver" and i c
  let ?n = "length (ctrls ms)"
  assume "man_find react req (ms_mgr ms) = (Inr i, c)"
  then obtain made c1 where n: "?n < 2 ^ 31" and made: "man_try react req (int ?n) (ms_mgr ms) = (Inr made, c1)"
    and rest: "(case made of
        None \<Rightarrow> seq (mlog (log_warn (''unable to find controller with template '' @ ii_templ req))) (ret req)
      | Some i \<Rightarrow> ret i) c1 = (Inr i, c)"
    by (auto simp: man_find_def bnd_gets bnd_Inr_iff fail_def simp del: append.simps split: if_splits)
  note run = try_controllers_man_try [OF made] size_of_int [OF n]
  show "mgr_instantiate react args ms
      = (Inr (), ms\<lparr>ms_mgr := c, ms_conn := write_lines (InstanceInfo_serialize i) (ms_conn ms)\<rparr>)"
  proof (cases made)
    case None
    with rest have "mlog (log_warn (''unable to find controller with template '' @ ii_templ req)) c1 = (Inr (), c)"
      "i = req" by (auto simp: seq_Inr_iff ret_def)
    with assms run None show ?thesis
      by (simp add: mgr_instantiate_def bnd_def of_res_def gets_def seq_def mg_do_run mg_run
          del: append.simps append_assoc)
  next
    case (Some j)
    with assms run rest show ?thesis
      by (simp add: mgr_instantiate_def bnd_def of_res_def gets_def ret_def)
  qed
qed

lemma lifts_route:
  fixes call :: "string \<Rightarrow> ('r link, bool) M"
  assumes parts: "extractIdParts d = Inr parts"
  shows "lifts (man_route call d) (\<lambda>b. write_line (to_string (bool_int b))) (mgr_route call [cmd, d])"
  unfolding lifts_def
proof (intro allI impI)
  fix ms :: "'r mserver" and b c
  assume op: "man_route call d (ms_mgr ms) = (Inr b, c)"
  have arg: "rbind (vec_at [cmd, d] 1) extractIdParts = Inr parts"
    using parts by (simp add: vec_at_def)
  show "mgr_route call [cmd, d] ms
      = (Inr (), ms\<lparr>ms_mgr := c, ms_conn := write_line (to_string (bool_int b)) (ms_conn ms)\<rparr>)"
  proof (cases "find_controller (fst parts) (ctrls ms)")
    case None
    then have "mlog (log_warn (''controller with id '' @ fst parts @ '' not found'')) (ms_mgr ms) = (Inr (), c)" "\<not> b"
      using op parts by (auto simp: man_route_def bnd_gets seq_Inr_iff ret_def simp del: append.simps)
    then show ?thesis
      using None by (simp add: mgr_route_def arg [simplified] bnd_def of_res_def gets_def seq_def mg_do_run mg_run ret_def
          del: append.simps append_assoc)
  next
    case (Some k)
    then have "on_ctrl k (call (snd parts)) (ms_mgr ms) = (Inr b, c)"
      using op parts by (simp add: man_route_def bnd_gets)
    then show ?thesis
      using Some by (simp add: mgr_route_def arg [simplified] bnd_def of_res_def gets_def mg_do_run mg_run)
  qed
qed

section \<open>The manager is a service\<close>

definition mg_ready :: "nat \<Rightarrow> 'r mserver \<Rightarrow> bool" where
  "mg_ready n ms \<longleftrightarrow> ms_fault ms = None \<and> quiet n (ms_conn ms)"

lemma mgr_request_run:
  assumes "lifts m wr (mgr_dispatch react cmd (cmd # args))"
    and "seq (mprocessing cmd) m (ms_mgr ms) = (Inr a, c)"
  shows "mgr_request react (cmd # args) ms
    = (Inr (), ms\<lparr>ms_mgr := c, ms_conn := Socket_send (wr a (ms_conn ms))\<rparr>)"
proof -
  obtain c1 where "mprocessing cmd (ms_mgr ms) = (Inr (), c1)" "m c1 = (Inr a, c)"
    using assms(2) by (auto simp: seq_Inr_iff)
  then show ?thesis
    using assms(1)
    by (simp add: mgr_request_def vec_at_checked_def mprocessing_def seq_def bnd_def of_res_def mg_do_run mg_run
        lifts_def)
qed

text \<open>A request that is processed to its end sends what it wrote, and the manager waits for the next.\<close>

lemma manager_react_run:
  assumes "quiet n (ms_conn ms)" "ms_fault ms = None" "frame_ok commands"
    and "mgr_request react commands ms = (Inr (), ms\<lparr>ms_mgr := c, ms_conn := s'\<rparr>)"
    and "s_in s' = []" "\<not> s_closed s'"
  shows "manager_react react (frame commands) ms
    = ((s_out s', False), ms\<lparr>ms_mgr := c, ms_conn := s'\<lparr>s_out := []\<rparr>, ms_fault := None\<rparr>)"
proof -
  let ?conn = "ms_conn ms" and ?ms' = "ms\<lparr>ms_mgr := c, ms_conn := s'\<rparr>"
  have "Socket_read (?conn\<lparr>s_in := frame commands\<rparr>) = (Inr commands, ?conn\<lparr>s_in := []\<rparr>)"
    using Socket_read_frame [of commands "?conn\<lparr>s_in := frame commands\<rparr>" "[]"] assms(3) by simp
  moreover have "?conn\<lparr>s_in := []\<rparr> = ?conn" using assms(1) by (simp add: quiet_def)
  ultimately have "mgr_serve react (ms\<lparr>ms_conn := ?conn\<lparr>s_in := frame commands\<rparr>\<rparr>) = mgr_serve react ?ms'"
    using assms(4) by (simp add: mgr_serve.simps [of react "ms\<lparr>ms_conn := ?conn\<lparr>s_in := frame commands\<rparr>\<rparr>"])
  also have "\<dots> = (Blocks, ?ms')"
    using assms(5,6) by (simp add: mgr_serve.simps [of react ?ms'] Socket_read_decodes stuck_def)
  finally show ?thesis
    using assms(1,2) by (simp add: manager_react_def quiet_def)
qed

lemma mgr_request_answers:
  assumes ready: "mg_ready (n + k + 2) ms" and cmds: "sendable commands"
    and run: "mgr_request react commands ms = (Inr (), ms\<lparr>ms_mgr := c, ms_conn := Socket_send s'\<rparr>)"
    and out: "writes k ds (ms_conn ms) s'" "0 < k"
    and reply: "wire ds @ CRLF = frame reply" "frame_ok reply"
  shows "\<exists>ms'. answers (manager_react react) ms commands reply ms' \<and> mg_ready n ms' \<and> ms_mgr ms' = c"
proof -
  have q: "quiet (n + k + 2) (ms_conn ms)" "ms_fault ms = None" using ready by (simp_all add: mg_ready_def)
  note sent = writes_sent [OF out(1) q(1) out(2)]
  have "s_in (Socket_send s') = []" "\<not> s_closed (Socket_send s')"
    using out(1) q(1) by (simp_all add: writes_def quiet_def)
  from manager_react_run [OF q _ run this] cmds have "manager_react react (frame commands) ms
      = ((frame reply, False), ms\<lparr>ms_mgr := c, ms_conn := (Socket_send s')\<lparr>s_out := []\<rparr>, ms_fault := None\<rparr>)"
    using sent(1) reply(1) by (simp add: frame_ok_def)
  then show ?thesis
    using sent(2) reply(2) by (auto simp: answers_def mg_ready_def)
qed

lemma cloud_templates:
  assumes "mg_ready (n + cost (concat (map Template_serialize ts))) ms"
    and op: "man_templates react (ms_mgr ms) = (Inr ts, c)" and "ts \<noteq> []"
    and "frame_ok (concat (map Template_serialize ts))"
  shows "\<exists>ms'. answers (manager_react react) ms [''getTemplates''] (concat (map Template_serialize ts)) ms'
    \<and> mg_ready n ms' \<and> ms_mgr ms' = c"
proof -
  have ne: "concat (map Template_serialize ts) \<noteq> []"
    using assms(3) template_codec.ser_ne by (cases ts) auto
  have "mgr_dispatch react ''getTemplates'' [''getTemplates''] = mgr_getTemplates react"
    by (simp add: mgr_dispatch_def)
  then have run: "mgr_request react [''getTemplates''] ms
      = (Inr (), ms\<lparr>ms_mgr := c, ms_conn := Socket_send (fold write_lines (map Template_serialize ts) (ms_conn ms))\<rparr>)"
    using lifts_templates op unfolding man_templates_def by (intro mgr_request_run) simp_all
  have "mg_ready (n + 2 * length (concat (map Template_serialize ts)) + 2) ms"
    using assms(1) by (auto simp: cost_def mg_ready_def intro: quiet_mono)
  moreover have "sendable [''getTemplates'']" by (simp add: sendable_words)
  ultimately show ?thesis
    using run writes_fold [of "map Template_serialize ts" "ms_conn ms"] ne assms(4)
    by (intro mgr_request_answers) (auto simp: frame_def)
qed

lemma cloud_instances:
  assumes "mg_ready (n + cost (concat (map InstanceInfo_serialize xs))) ms"
    and op: "man_instances react (ms_mgr ms) = (Inr xs, c)"
    and "frame_ok (concat (map InstanceInfo_serialize xs))"
  shows "\<exists>ms'. answers (manager_react react) ms [''getInstances''] (concat (map InstanceInfo_serialize xs)) ms'
    \<and> mg_ready n ms' \<and> ms_mgr ms' = c"
proof -
  have some: "xs \<noteq> []" and op': "seq (mprocessing ''getInstances'')
      (bnd (gets (\<lambda>s. length (controllers s))) (\<lambda>n. gather [0..<n] (instances_of react))) (ms_mgr ms) = (Inr xs, c)"
    using op by (auto simp: man_instances_def seq_Inr_iff bnd_Inr_iff gets_def fail_def ret_def split: if_splits)
  then have ne: "concat (map InstanceInfo_serialize xs) \<noteq> []"
    using info_codec.ser_ne by (cases xs) auto
  have "mgr_dispatch react ''getInstances'' [''getInstances''] = mgr_getInstances react"
    by (simp add: mgr_dispatch_def)
  then have run: "mgr_request react [''getInstances''] ms
      = (Inr (), ms\<lparr>ms_mgr := c, ms_conn := Socket_send (fold write_lines (map InstanceInfo_serialize xs) (ms_conn ms))\<rparr>)"
    using lifts_instances op' by (intro mgr_request_run) simp_all
  have "mg_ready (n + 2 * length (concat (map InstanceInfo_serialize xs)) + 2) ms"
    using assms(1) by (auto simp: cost_def mg_ready_def intro: quiet_mono)
  moreover have "sendable [''getInstances'']" by (simp add: sendable_words)
  ultimately show ?thesis
    using run writes_fold [of "map InstanceInfo_serialize xs" "ms_conn ms"] ne assms(3)
    by (intro mgr_request_answers) (auto simp: frame_def)
qed

lemma cloud_new:
  assumes "mg_ready (n + 15) ms" and op: "man_new react name memory cpus (ms_mgr ms) = (Inr i, c)"
    and name: "word_line name" and ints: "in_int memory" "in_int cpus" and ok: "frame_ok (InstanceInfo_serialize i)"
  shows "\<exists>ms'. answers (manager_react react) ms (''instantiate'' # new_request name memory cpus)
      (InstanceInfo_serialize i) ms' \<and> mg_ready n ms' \<and> ms_mgr ms' = c"
proof -
  let ?req = "new_request name memory cpus" and ?reply = "InstanceInfo_serialize i"
  have "InstanceInfo_deserialize ?req = Inr \<lparr>ii_id = ''0'', ii_templ = name, ii_memory = memory,
      ii_cpus = cpus, ii_sshPort = 0, ii_running = False\<rparr>"
    unfolding new_request_def using ints by (intro InstanceInfo_roundtrip_ok) (simp add: info_ok_def)
  then have run: "mgr_request react (''instantiate'' # ?req) ms
      = (Inr (), ms\<lparr>ms_mgr := c, ms_conn := Socket_send (write_lines ?reply (ms_conn ms))\<rparr>)"
    using op unfolding man_new_def
    by (intro mgr_request_run [where wr = "\<lambda>i. write_lines (InstanceInfo_serialize i)"])
      (simp_all add: mgr_dispatch_def lifts_instantiate)
  have "length ?reply = 6" by (simp add: InstanceInfo_serialize_def)
  moreover have "?reply \<noteq> []" by (rule info_codec.ser_ne)
  moreover have "mg_ready (n + 12 + 2) ms" using assms(1) by (auto simp: mg_ready_def intro: quiet_mono)
  moreover have "sendable (''instantiate'' # ?req)"
    using name by (intro sendable_words) (simp_all add: new_request_def InstanceInfo_serialize_def word_line_def)
  ultimately show ?thesis
    using run writes_lines [of ?reply "ms_conn ms"] ok by (intro mgr_request_answers) (auto simp: frame_def)
qed

lemma cloud_route:
  assumes "mg_ready (n + 5) ms" and d: "word_line d"
    and cmd: "cmd = ''run'' \<and> call = proxy_run react \<or> cmd = ''kill'' \<and> call = proxy_kill react"
    and op: "seq (mprocessing cmd) (man_route call d) (ms_mgr ms) = (Inr b, c)"
  shows "\<exists>ms'. answers (manager_react react) ms [cmd, d] [to_string (bool_int b)] ms'
    \<and> mg_ready n ms' \<and> ms_mgr ms' = c"
proof -
  obtain parts where "extractIdParts d = Inr parts"
    using op by (cases "extractIdParts d") (auto simp: seq_Inr_iff man_route_def)
  then have "lifts (man_route call d) (\<lambda>b. write_line (to_string (bool_int b))) (mgr_route call [cmd, d])"
    by (rule lifts_route)
  then have run: "mgr_request react [cmd, d] ms
      = (Inr (), ms\<lparr>ms_mgr := c, ms_conn := Socket_send (write_line (to_string (bool_int b)) (ms_conn ms))\<rparr>)"
    using op cmd
    by (intro mgr_request_run [where wr = "\<lambda>b. write_line (to_string (bool_int b))"]) (auto simp: mgr_dispatch_def)
  have "sendable [cmd, d]" using d cmd by (auto simp: sendable_words)
  moreover have "mg_ready (n + 1 + 2) ms" using assms(1) by (auto simp: mg_ready_def intro: quiet_mono)
  ultimately show ?thesis
    using run writes_line [of "to_string (bool_int b)" "ms_conn ms"] frame_ok_bool
    by (intro mgr_request_answers) (auto simp: frame_def)
qed

interpretation cloud: service "manager_react react" mg_ready ms_mgr
  "man_templates react" "man_instances react" "man_new react" "man_run react" "man_kill react"
proof
  show "mg_ready m r \<Longrightarrow> n \<le> m \<Longrightarrow> mg_ready n r" for m n and r :: "'a mserver"
    by (auto simp: mg_ready_def intro: quiet_mono)
qed (rule cloud_templates cloud_instances cloud_new cloud_route;
     (assumption | simp add: man_run_def | simp add: man_kill_def))+

end
