(* ===== verification/Vm_Controller.thy ===== *)
theory Vm_Controller
  imports Vm_Info Net
begin

text \<open>
  \<open>src/src/Vm/Controller.hpp\<close>: the state of a controller node (its templates, its instances, the
  next id and the next port to try), the search for a free id and a free port, and the
  operations \<open>instantiate\<close>, \<open>restore\<close>, \<open>run\<close> and \<open>kill\<close>. The operating system is part of the
  state (\<open>c_world\<close>). The instances the code shares by \<open>shared_ptr\<close> are the values of the map:
  every access goes through the map, so a change is a change of the map's entry.
\<close>

section \<open>State\<close>

record controller =
  workingDir :: string
  nextId :: int
  nextPort :: int
  templates :: "(string, templ) cmap"
  instances :: "(int, inst) cmap"
  c_world :: world

definition onw :: "(world, 'a) M \<Rightarrow> (controller, 'a) M" where
  "onw m = zoom c_world (\<lambda>w s. s\<lparr>c_world := w\<rparr>) m"

definition set_inst :: "int \<Rightarrow> inst \<Rightarrow> (controller, unit) M" where
  "set_inst vmid i = modify (\<lambda>s. s\<lparr>instances := map_put vmid i (instances s)\<rparr>)"

lemma onw_run: "onw m s = (case m (c_world s) of (r, w) \<Rightarrow> (r, s\<lparr>c_world := w\<rparr>))"
  by (simp add: onw_def zoom_def)

section \<open>Ports, directories and ids\<close>

definition copyFile :: "string \<Rightarrow> string \<Rightarrow> (world, unit) M" where
  "copyFile source target =
    modify (\<lambda>w. file_write target (case w_file w source of None \<Rightarrow> [] | Some text \<Rightarrow> text) w)"

text \<open>
  \<open>isPortFree\<close> tries to connect: any exception of the constructor, also the one for having no
  descriptor left, counts as a free port.
\<close>

definition isPortFree :: "int \<Rightarrow> (world, bool) M" where
  "isPortFree port =
    try_catch (\<lambda>_. True)
      (bnd (Socket_connect ''127.0.0.1'' port) (\<lambda>s. ret False))
      (\<lambda>_. ret True)"

definition dirExists :: "string \<Rightarrow> world \<Rightarrow> bool" where
  "dirExists path w = w_isdir w path"

definition mkInstDir :: "string \<Rightarrow> int \<Rightarrow> string" where
  "mkInstDir wdir vmid = wdir @ ''/'' @ to_string vmid"

text \<open>\<open>while (dirExists(mkInstDir(baseId)) || mapExists(instances, baseId)) ++baseId\<close>\<close>

function findNextId :: "controller \<Rightarrow> int \<Rightarrow> int res" where
  "findNextId s baseId =
    (if dirExists (mkInstDir (workingDir s) baseId) (c_world s) \<or> mapExists (instances s) baseId
     then (if baseId < int_max then findNextId s (baseId + 1) else Inl Undefined)
     else Inr baseId)"
  by pat_completeness auto
termination
  by (relation "measure (\<lambda>(s, baseId). nat (int_max - baseId))") auto

text \<open>\<open>while (!isPortFree(++basePort))\<close>\<close>

function findNextPort :: "int \<Rightarrow> (world, int) M" where
  "findNextPort basePort w =
    (if \<not> basePort < int_max then (Inl Undefined, w)
     else (case isPortFree (basePort + 1) w of (r, w') \<Rightarrow>
             (case r of
                Inl f \<Rightarrow> (Inl f, w')
              | Inr free \<Rightarrow> (if free then (Inr (basePort + 1), w') else findNextPort (basePort + 1) w'))))"
  by pat_completeness auto
termination
  by (relation "measure (\<lambda>(basePort, w). nat (int_max - basePort))") auto

declare findNextId.simps [simp del] findNextPort.simps [simp del]

section \<open>restore\<close>

definition restore_error :: "string \<Rightarrow> exn" where
  "restore_error what = util_exception ''Controller::restore(int)'' what"

text \<open>The five cookies; whatever exception reading them throws is replaced.\<close>

definition read_metadata :: "string \<Rightarrow> (world, string \<times> int \<times> int \<times> int \<times> int) M" where
  "read_metadata dir =
    try_catch (\<lambda>_. True)
      (bnd (cookie_read_string (dir @ ''/.template'')) (\<lambda>tempName.
       bnd (cookie_read_int (dir @ ''/.memory'')) (\<lambda>memory.
       bnd (cookie_read_int (dir @ ''/.cpus'')) (\<lambda>cpus.
       bnd (cookie_read_int (dir @ ''/.ssh'')) (\<lambda>sshPort.
       bnd (cookie_read_int (dir @ ''/.pid'')) (\<lambda>pid.
         ret (tempName, memory, cpus, sshPort, pid)))))))
      (\<lambda>_. throw (restore_error ''vm metadata is corrupted''))"

definition read_append :: "string \<Rightarrow> (world, string) M" where
  "read_append dir =
    try_catch (\<lambda>_. True)
      (bnd (cookie_read_string (dir @ ''/.append'')) (\<lambda>appendStr.
         seq (log_info (''append string: '' @ appendStr)) (ret appendStr)))
      (\<lambda>_. ret [])"

text \<open>The command line of the virtual machine (\<open>CHR 0x27\<close> is a single, \<open>CHR 0x22\<close> a double quote).\<close>

definition vmArgs :: "int \<Rightarrow> int \<Rightarrow> int \<Rightarrow> bool \<Rightarrow> string \<Rightarrow> string \<Rightarrow> string \<Rightarrow> string list" where
  "vmArgs memory cpus sshPort withKernel kernelPath rootfsPath appendStr =
    [''-c'',
     [CHR 0x27, CHR 0x27] @ ''/usr/bin/kvm -m '' @ to_string memory
     @ '' -smp '' @ to_string cpus
     @ '' -redir tcp:'' @ to_string sshPort @ ''::22''
     @ (if withKernel then '' -kernel '' @ kernelPath else [])
     @ '' -hda '' @ rootfsPath
     @ '' -boot c''
     @ (if withKernel then '' -append '' @ [CHR 0x22] @ ''root=/dev/sda console=ttyS0'' @ [CHR 0x22] else [])
     @ '' -nographic''
     @ '' -enable-kvm''
     @ '' '' @ appendStr @ [CHR 0x27, CHR 0x27]]"

text \<open>\<open>nextPort = findNextPort(nextPort)\<close>\<close>

definition advancePort :: "(controller, int) M" where
  "advancePort =
    bnd (gets nextPort) (\<lambda>base.
    bnd (onw (findNextPort base)) (\<lambda>port.
    seq (modify (\<lambda>s. s\<lparr>nextPort := port\<rparr>)) (ret port)))"

definition restore :: "int \<Rightarrow> (controller, inst) M" where
  "restore vmid =
    bnd (gets (\<lambda>s. mkInstDir (workingDir s) vmid)) (\<lambda>instanceDir.
    bnd (gets (\<lambda>s. dirExists instanceDir (c_world s))) (\<lambda>isdir.
    if \<not> isdir then throw (restore_error ''instnace with given id does not exist'') else
    bnd (gets (\<lambda>s. map_find (instances s) vmid)) (\<lambda>existing.
    case existing of
      Some i \<Rightarrow> ret i
    | None \<Rightarrow>
        bnd (gets (\<lambda>s. w_file (c_world s) (instanceDir @ ''/kernel'') \<noteq> None)) (\<lambda>withKernel.
        bnd (onw (read_metadata instanceDir)) (\<lambda>(tempName, memory, cpus, sshPort, pid).
        bnd (onw (read_append instanceDir)) (\<lambda>appendStr.
        bnd (onw (isPortFree sshPort)) (\<lambda>free.
        bnd (if free then ret sshPort
             else bnd advancePort (\<lambda>port.
                  seq (onw (cookie_write_int (instanceDir @ ''/.ssh'') port)) (ret port))) (\<lambda>sshPort.
        bnd (gets (\<lambda>s. map_find (templates s) tempName)) (\<lambda>templ.
        case templ of
          None \<Rightarrow> throw (restore_error (''template '' @ tempName @ '' is missing''))
        | Some t \<Rightarrow>
            (let process = Process_new ''/bin/bash''
                   (vmArgs memory cpus sshPort withKernel (instanceDir @ ''/kernel'')
                      (instanceDir @ ''/rootfs.img'') appendStr);
                 i = \<lparr>i_id = vmid, i_memory = memory, i_cpus = cpus, i_sshPort = sshPort,
                      i_template = t, i_process = process\<rparr>
             in seq (set_inst vmid i)
                (seq (onw (log_info (''instantiating '' @ t_name t @ '' (id '' @ to_string vmid
                        @ '') at port '' @ to_string sshPort)))
                 (ret i))))))))))))"

section \<open>instantiate, run, kill\<close>

definition instantiate :: "os \<Rightarrow> templ \<Rightarrow> int \<Rightarrow> int \<Rightarrow> (controller, inst) M" where
  "instantiate os templ memory cpus =
    bnd advancePort (\<lambda>port.
    bnd (gets (\<lambda>s. findNextId s (nextId s))) (\<lambda>found.
    bnd (of_res found) (\<lambda>vmid.
    seq (modify (\<lambda>s. s\<lparr>nextId := vmid\<rparr>))
    (bnd (gets (\<lambda>s. mkInstDir (workingDir s) vmid)) (\<lambda>instanceDir.
    bnd (onw (runAndWait os (Process_new ''/bin/mkdir'' [instanceDir]))) (\<lambda>_.
    seq (if t_kernelPath templ \<noteq> ''-none-''
         then onw (copyFile (t_kernelPath templ) (instanceDir @ ''/kernel'')) else ret ())
    (seq (onw (copyFile (t_rootfsPath templ) (instanceDir @ ''/rootfs.img'')))
    (seq (onw (cookie_write_string (instanceDir @ ''/.template'') (t_name templ)))
    (seq (onw (cookie_write_int (instanceDir @ ''/.memory'') memory))
    (seq (onw (cookie_write_int (instanceDir @ ''/.cpus'') cpus))
    (seq (onw (cookie_write_int (instanceDir @ ''/.ssh'') port))
    (seq (onw (cookie_write_int (instanceDir @ ''/.pid'') 0))
    (restore vmid)))))))))))))"

definition run :: "os \<Rightarrow> int \<Rightarrow> (controller, bool) M" where
  "run os vmid =
    bnd (gets (\<lambda>s. map_find (instances s) vmid)) (\<lambda>found.
    case found of
      None \<Rightarrow> seq (onw (log_error (''vm with id '' @ to_string vmid @ '' not found''))) (ret False)
    | Some i \<Rightarrow>
        bnd (gets (\<lambda>s. isRunning (i_process i) (c_world s))) (\<lambda>running.
        if running
        then seq (onw (log_error (''vm with id '' @ to_string vmid @ '' is already running''))) (ret False)
        else
        bnd (gets (\<lambda>s. mkInstDir (workingDir s) vmid)) (\<lambda>instanceDir.
        bnd (onw (isPortFree (i_sshPort i))) (\<lambda>free.
        bnd (if free then ret i else
             seq (onw (log_warn (''port '' @ to_string (i_sshPort i)
                     @ '' is already in use. searching for other port'')))
             (bnd advancePort (\<lambda>port.
              seq (onw (cookie_write_int (instanceDir @ ''/.ssh'') port))
              (seq (set_inst vmid (setSshPort port i))
              (seq (onw (log_info (''assigned new port '' @ to_string port)))
               (ret (setSshPort port i))))))) (\<lambda>i.
        bnd (onw (Process_run os True (i_process i))) (\<lambda>(pid, process).
        seq (set_inst vmid (i\<lparr>i_process := process\<rparr>))
        (seq (onw (cookie_write_int (instanceDir @ ''/.pid'') (getPid process)))
         (ret True))))))))"

definition kill :: "int \<Rightarrow> (controller, bool) M" where
  "kill vmid =
    bnd (gets (\<lambda>s. map_find (instances s) vmid)) (\<lambda>found.
    case found of
      None \<Rightarrow> seq (onw (log_error (''vm with id '' @ to_string vmid @ '' not found''))) (ret False)
    | Some i \<Rightarrow>
        bnd (gets (\<lambda>s. isRunning (i_process i) (c_world s))) (\<lambda>running.
        if \<not> running then ret True
        else seq (onw (Process_kill (i_process i))) (ret True)))"

definition getTemplates :: "controller \<Rightarrow> (string, templ) cmap" where
  "getTemplates s = templates s"

definition getInstances :: "controller \<Rightarrow> (int, inst) cmap" where
  "getInstances s = instances s"

section \<open>The constructor\<close>

definition cirros :: templ where
  "cirros = \<lparr>t_name = ''cirros'',
     t_description = ''CirrOS is a Tiny OS that specializes in running on a cloud.'',
     t_kernelPath = ''templates/cirros/cirros-0.3.3-x86_64-kernel'',
     t_rootfsPath = ''templates/cirros/cirros-0.3.3-x86_64-rootfs-non_ec2.img''\<rparr>"

definition wheezy :: templ where
  "wheezy = \<lparr>t_name = ''wheezy'', t_description = ''Debian Wheezy AMD64.'', t_kernelPath = ''-none-'',
     t_rootfsPath = ''templates/wheezy/debian_wheezy_amd64_standard.qcow2''\<rparr>"

definition the_templates :: "(string, templ) cmap" where
  "the_templates = map_put ''wheezy'' wheezy (map_put ''cirros'' cirros [])"

text \<open>One entry of the working directory: a name that is not a number is skipped, a
  \<open>Util::Exception\<close> is logged, any other exception ends the constructor.\<close>

definition load_entry :: "string \<Rightarrow> (controller, unit) M" where
  "load_entry name =
    try_catch is_util_exception
      (try_catch (\<lambda>e. e = Invalid_Argument)
         (bnd (of_res (stoi name)) (\<lambda>vmid. bnd (restore vmid) (\<lambda>_. ret ())))
         (\<lambda>_. ret ()))
      (\<lambda>ex. onw (log_error (exn_what ex)))"

definition Controller_load :: "(controller, unit) M" where
  "Controller_load =
    bnd (gets (\<lambda>s. w_entries (c_world s) (workingDir s))) (\<lambda>entries.
    bnd (gets workingDir) (\<lambda>wdir.
    case entries of
      None \<Rightarrow> throw (util_exception ''Controller::Controller(...)'' (''failed to open working directory '' @ wdir))
    | Some names \<Rightarrow> for_each names load_entry))"

definition Controller_new :: "string \<Rightarrow> int \<Rightarrow> int \<Rightarrow> world \<Rightarrow> unit res \<times> controller" where
  "Controller_new wdir initialId initialPort w =
    Controller_load \<lparr>workingDir = wdir, nextId = initialId, nextPort = initialPort,
      templates = the_templates, instances = [], c_world = w\<rparr>"

section \<open>What the searches find\<close>

definition busy :: "world \<Rightarrow> int \<Rightarrow> bool" where
  "busy w port \<longleftrightarrow> connects w ''127.0.0.1'' port"

lemma isPortFree_run:
  "isPortFree port w =
    (Inr (\<not> (socket_left w \<and> busy w port)),
     if socket_left w then w\<lparr>w_fds := Suc (w_fds w)\<rparr> else w)"
  by (simp add: isPortFree_def try_catch_def bnd_def Socket_connect_run busy_def ret_def)

lemma busy_fds [simp]: "busy (w\<lparr>w_fds := n\<rparr>) p = busy w p"
  by (simp add: busy_def connects_def)

lemma isPortFree_fds:
  "\<exists>n. isPortFree port w = (Inr (\<not> (socket_left w \<and> busy w port)), w\<lparr>w_fds := n\<rparr>)"
  by (cases "socket_left w") (auto simp: isPortFree_run intro: exI [of _ "w_fds w"])

lemma busy_mod: "p mod 65536 = q mod 65536 \<Longrightarrow> busy w p = busy w q"
  using htons_port_mod [of p q] by (simp add: busy_def connects_def)

text \<open>\<open>sockets w n\<close>: the next \<open>n\<close> calls of \<open>socket()\<close> succeed.\<close>

definition sockets :: "world \<Rightarrow> nat \<Rightarrow> bool" where
  "sockets w n \<longleftrightarrow> (\<forall>k < n. w_socket w (w_fds w + k) \<noteq> - 1)"

lemma sockets_Suc: "sockets w (Suc n) \<longleftrightarrow> socket_left w \<and> sockets (w\<lparr>w_fds := Suc (w_fds w)\<rparr>) n"
proof -
  have "(\<forall>k < Suc n. P k) \<longleftrightarrow> P 0 \<and> (\<forall>k < n. P (Suc k))" for P :: "nat \<Rightarrow> bool"
    by (auto simp: less_Suc_eq_0_disj)
  then show ?thesis by (simp add: sockets_def socket_left_def)
qed

lemma findNextPort_finds:
  "b < p \<Longrightarrow> p \<le> int_max \<Longrightarrow> \<not> busy w p \<Longrightarrow> (\<And>q. b < q \<Longrightarrow> q < p \<Longrightarrow> busy w q) \<Longrightarrow>
   sockets w (nat (p - b)) \<Longrightarrow> findNextPort b w = (Inr p, w\<lparr>w_fds := w_fds w + nat (p - b)\<rparr>)"
proof (induction "nat (p - b)" arbitrary: b w)
  case (Suc n)
  have left: "socket_left w" and sock: "sockets (w\<lparr>w_fds := Suc (w_fds w)\<rparr>) n"
    using Suc.prems(5) Suc.hyps(2) sockets_Suc [of w n] by simp_all
  show ?case
  proof (cases "b + 1 = p")
    case True
    with Suc.prems left show ?thesis
      by (auto simp: findNextPort.simps [of b w] isPortFree_run)
  next
    case False
    let ?w = "w\<lparr>w_fds := Suc (w_fds w)\<rparr>"
    have n: "n = nat (p - (b + 1))" using Suc.hyps(2) by linarith
    have "findNextPort (b + 1) ?w = (Inr p, ?w\<lparr>w_fds := w_fds ?w + nat (p - (b + 1))\<rparr>)"
      using Suc.prems False sock n by (intro Suc.hyps(1)) auto
    moreover have "nat (p - b) = Suc (nat (p - (b + 1)))"
      using Suc.prems(1) by simp
    ultimately show ?thesis
      using Suc.prems False left by (simp add: findNextPort.simps [of b w] isPortFree_run)
  qed
qed simp

lemma findNextPort_result:
  "findNextPort b w = (r, w') \<Longrightarrow>
   (\<exists>n. w' = w\<lparr>w_fds := n\<rparr>) \<and> (r = Inl Undefined \<or> (\<exists>p. r = Inr p \<and> b < p \<and> p \<le> int_max))"
proof (induction b w arbitrary: r w' rule: findNextPort.induct)
  case (1 b w)
  show ?case
  proof (cases "b < int_max \<and> socket_left w \<and> busy w (b + 1)")
    case True
    have "(\<exists>n. w' = (w\<lparr>w_fds := Suc (w_fds w)\<rparr>)\<lparr>w_fds := n\<rparr>)
      \<and> (r = Inl Undefined \<or> (\<exists>p. r = Inr p \<and> b + 1 < p \<and> p \<le> int_max))"
      using True 1(2) by (intro 1(1)) (auto simp: findNextPort.simps [of b w] isPortFree_run)
    then show ?thesis by force
  next
    case False
    then show ?thesis
      using 1(2) by (auto simp: findNextPort.simps [of b w] isPortFree_run split: if_splits
          intro: exI [of _ "w_fds w"] exI [of _ "Suc (w_fds w)"])
  qed
qed

definition fresh_id :: "controller \<Rightarrow> int \<Rightarrow> bool" where
  "fresh_id s i \<longleftrightarrow> \<not> w_isdir (c_world s) (mkInstDir (workingDir s) i) \<and> map_find (instances s) i = None"

lemma findNextId_unfold:
  "findNextId s b =
    (if fresh_id s b then Inr b else if b < int_max then findNextId s (b + 1) else Inl Undefined)"
  by (simp add: findNextId.simps [of s b] fresh_id_def dirExists_def mapExists_def)

lemma findNextId_least:
  "findNextId s b = Inr i \<Longrightarrow> b \<le> int_max \<Longrightarrow>
   b \<le> i \<and> i \<le> int_max \<and> fresh_id s i \<and> (\<forall>j. b \<le> j \<longrightarrow> j < i \<longrightarrow> \<not> fresh_id s j)"
proof (induction s b rule: findNextId.induct)
  case (1 s b)
  show ?case
  proof (cases "fresh_id s b")
    case True
    with 1(2,3) show ?thesis by (simp add: findNextId_unfold)
  next
    case False
    with 1(2) have b: "b < int_max" "findNextId s (b + 1) = Inr i"
      by (simp_all add: findNextId_unfold [of s b] split: if_splits)
    have "b + 1 \<le> i \<and> i \<le> int_max \<and> fresh_id s i \<and> (\<forall>j. b + 1 \<le> j \<longrightarrow> j < i \<longrightarrow> \<not> fresh_id s j)"
      using False b by (intro 1(1)) (simp_all add: fresh_id_def dirExists_def mapExists_def)
    moreover from this False have "\<not> fresh_id s j" if "b \<le> j" "j < i" for j
      using that by (cases "j = b") auto
    ultimately show ?thesis by simp
  qed
qed

lemma findNextId_finds:
  "b \<le> i \<Longrightarrow> i \<le> int_max \<Longrightarrow> fresh_id s i \<Longrightarrow> \<exists>j. findNextId s b = Inr j"
proof (induction "nat (i - b)" arbitrary: b)
  case 0
  then show ?case by (simp add: findNextId_unfold)
next
  case (Suc n)
  then have "\<exists>j. findNextId s (b + 1) = Inr j" by (intro Suc.hyps(1)) auto
  moreover have "b < int_max" using Suc by linarith
  ultimately show ?case by (simp add: findNextId_unfold [of s b])
qed

lemma findNextId_Undefined: "findNextId s b = Inl f \<Longrightarrow> f = Undefined"
  by (induction s b rule: findNextId.induct)
    (metis findNextId.simps sum.inject(1) sum.simps(4))

lemma findNextId_cong:
  "(\<And>i. fresh_id s i = fresh_id s' i) \<Longrightarrow> findNextId s b = findNextId s' b"
proof (induction s b rule: findNextId.induct)
  case (1 s b)
  show ?case
  proof (cases "fresh_id s b \<or> \<not> b < int_max")
    case True
    with 1(2) show ?thesis by (auto simp: findNextId_unfold [of s b] findNextId_unfold [of s' b])
  next
    case False
    have "findNextId s (b + 1) = findNextId s' (b + 1)"
      using False 1(2) by (intro 1(1)) (simp_all add: fresh_id_def dirExists_def mapExists_def)
    with False 1(2) show ?thesis
      by (simp add: findNextId_unfold [of s b] findNextId_unfold [of s' b])
  qed
qed

lemma copyFile_run:
  "copyFile source target w =
    (Inr (), file_write target (case w_file w source of None \<Rightarrow> [] | Some text \<Rightarrow> text) w)"
  by (simp add: copyFile_def modify_def)

lemma advancePort_run:
  "findNextPort (nextPort s) (c_world s) = (r, w) \<Longrightarrow>
   advancePort s =
     (case r of Inl f \<Rightarrow> (Inl f, s\<lparr>c_world := w\<rparr>) | Inr p \<Rightarrow> (Inr p, s\<lparr>c_world := w, nextPort := p\<rparr>))"
  by (simp add: advancePort_def bnd_def gets_def onw_run seq_def modify_def ret_def split: sum.split)

end
