(* ===== verification/Vm_Controller_Laws.thy ===== *)
theory Vm_Controller_Laws
  imports Vm_Controller
begin

text \<open>
  What the controller's operations achieve: \<open>restore\<close> from the cookies on disk, \<open>instantiate\<close> on
  every step of its path, and the reload of all virtual machines when a controller starts.
\<close>

section \<open>A virtual machine on disk\<close>

record vm =
  v_templ :: templ
  v_memory :: int
  v_cpus :: int
  v_port :: int

text \<open>The cookies of a machine in directory \<open>d\<close>, as \<open>instantiate\<close> writes them.\<close>

definition stored :: "world \<Rightarrow> string \<Rightarrow> vm \<Rightarrow> bool" where
  "stored w d v \<longleftrightarrow>
    w_file w (d @ ''/.template'') = Some (t_name (v_templ v))
    \<and> w_file w (d @ ''/.memory'') = Some (to_string (v_memory v))
    \<and> w_file w (d @ ''/.cpus'') = Some (to_string (v_cpus v))
    \<and> w_file w (d @ ''/.ssh'') = Some (to_string (v_port v))
    \<and> (\<exists>pid. in_int pid \<and> w_file w (d @ ''/.pid'') = Some (to_string pid))
    \<and> w_file w (d @ ''/.append'') = None"

definition vm_ok :: "(string, templ) cmap \<Rightarrow> vm \<Rightarrow> bool" where
  "vm_ok ts v \<longleftrightarrow>
    in_int (v_memory v) \<and> in_int (v_cpus v) \<and> in_int (v_port v)
    \<and> map_find ts (t_name (v_templ v)) = Some (v_templ v)
    \<and> LF \<notin> set (t_name (v_templ v)) \<and> length (t_name (v_templ v)) \<le> 500"

text \<open>The object \<open>restore\<close> makes of it.\<close>

definition restored :: "string \<Rightarrow> bool \<Rightarrow> int \<Rightarrow> vm \<Rightarrow> inst" where
  "restored d withKernel vmid v =
    \<lparr>i_id = vmid, i_memory = v_memory v, i_cpus = v_cpus v, i_sshPort = v_port v,
     i_template = v_templ v,
     i_process = Process_new ''/bin/bash''
       (vmArgs (v_memory v) (v_cpus v) (v_port v) withKernel (d @ ''/kernel'') (d @ ''/rootfs.img'') [])\<rparr>"

lemma read_metadata_stored:
  "stored w d v \<Longrightarrow> vm_ok ts v \<Longrightarrow>
   \<exists>pid. read_metadata d w = (Inr (t_name (v_templ v), v_memory v, v_cpus v, v_port v, pid), w)"
  unfolding read_metadata_def try_catch_def
  by (auto simp: stored_def vm_ok_def bnd_def cookie_read_string_run cookie_read_int_run ret_def
      takeWhile_neq_all)

lemma read_append_none: "w_file w (d @ ''/.append'') = None \<Longrightarrow> read_append d w = (Inr [], w)"
  by (simp add: read_append_def try_catch_def bnd_def cookie_read_string_run ret_def)

lemma restore_stored:
  assumes d: "d = mkInstDir (workingDir s) vmid" and w: "w = c_world s"
    and dir: "w_isdir w d" and new: "map_find (instances s) vmid = None" and id: "in_int vmid"
    and files: "stored w d v" and ok: "vm_ok (templates s) v" and free: "\<not> busy w (v_port v)"
    and clock: "clock_ok w"
  defines "i \<equiv> restored d (w_file w (d @ ''/kernel'') \<noteq> None) vmid v"
  shows "\<exists>n out. restore vmid s =
    (Inr i, s\<lparr>instances := map_put vmid i (instances s), c_world := w\<lparr>w_fds := n, w_out := out\<rparr>\<rparr>)"
proof -
  let ?msg = "''instantiating '' @ t_name (v_templ v) @ '' (id '' @ to_string vmid @ '') at port '' @ to_string (v_port v)"
  obtain pid where meta: "read_metadata d w = (Inr (t_name (v_templ v), v_memory v, v_cpus v, v_port v, pid), w)"
    using read_metadata_stored [OF files ok] by blast
  have app: "read_append d w = (Inr [], w)"
    using files by (intro read_append_none) (simp add: stored_def)
  obtain n where probe: "isPortFree (v_port v) w = (Inr True, w\<lparr>w_fds := n\<rparr>)"
    using isPortFree_fds [of "v_port v" w] free by auto
  have "length ?msg \<le> 900"
    using ok id length_to_string [of vmid] length_to_string [of "v_port v"] by (simp add: vm_ok_def)
  moreover have "clock_ok (w\<lparr>w_fds := n\<rparr>)" using clock by (simp add: clock_ok_def)
  ultimately obtain out where
    log: "log_info ?msg (w\<lparr>w_fds := n\<rparr>) = (Inr (), w\<lparr>w_fds := n, w_out := out\<rparr>)"
    using log_output_short [of "w\<lparr>w_fds := n\<rparr>" ?msg INFO INFO] unfolding log_info_def by auto
  have templ: "map_find (templates s) (t_name (v_templ v)) = Some (v_templ v)"
    using ok by (simp add: vm_ok_def)
  have "restore vmid s = (Inr i, s\<lparr>instances := map_put vmid i (instances s), c_world := w\<lparr>w_fds := n, w_out := out\<rparr>\<rparr>)"
    unfolding restore_def
    by (simp add: bnd_def seq_def gets_def ret_def onw_run dirExists_def d [symmetric] w [symmetric]
        dir new meta app probe templ log Let_def set_inst_def modify_def i_def restored_def
        del: append.simps append_assoc)
  then show ?thesis by blast
qed

section \<open>instantiate\<close>

definition contents :: "world \<Rightarrow> string \<Rightarrow> string" where
  "contents w path = (case w_file w path of None \<Rightarrow> [] | Some text \<Rightarrow> text)"

text \<open>The files \<open>instantiate\<close> puts into the new directory.\<close>

definition copy_images :: "string \<Rightarrow> templ \<Rightarrow> world \<Rightarrow> world" where
  "copy_images d t w =
    (let w' = (if t_kernelPath t \<noteq> ''-none-''
               then file_write (d @ ''/kernel'') (contents w (t_kernelPath t)) w else w)
     in file_write (d @ ''/rootfs.img'') (contents w' (t_rootfsPath t)) w')"

definition write_cookies :: "string \<Rightarrow> vm \<Rightarrow> world \<Rightarrow> world" where
  "write_cookies d v w =
    file_write (d @ ''/.pid'') (to_string 0)
    (file_write (d @ ''/.ssh'') (to_string (v_port v))
    (file_write (d @ ''/.cpus'') (to_string (v_cpus v))
    (file_write (d @ ''/.memory'') (to_string (v_memory v))
    (file_write (d @ ''/.template'') (t_name (v_templ v)) w))))"

definition empty_dir :: "world \<Rightarrow> string \<Rightarrow> bool" where
  "empty_dir w d \<longleftrightarrow> w_isdir w d \<and>
    (\<forall>name. CHR ''/'' \<notin> set name \<longrightarrow>
       w_file w (d @ CHR ''/'' # name) = None \<and> \<not> w_isdir w (d @ CHR ''/'' # name))"

lemma write_frame [simp]:
  "w_isdir (write_cookies d v w) = w_isdir w" "w_isdir (copy_images d t w) = w_isdir w"
  "w_connects (write_cookies d v w) = w_connects w" "w_connects (copy_images d t w) = w_connects w"
  "w_clock (write_cookies d v w) = w_clock w" "w_clock (copy_images d t w) = w_clock w"
  "w_probe (write_cookies d v w) = w_probe w" "w_probe (copy_images d t w) = w_probe w"
  by (simp_all add: write_cookies_def copy_images_def Let_def)

lemma file_write_in_dir:
  "w_isdir w d \<Longrightarrow> \<not> w_isdir w (d @ CHR ''/'' # name) \<Longrightarrow> CHR ''/'' \<notin> set name \<Longrightarrow>
   file_write (d @ CHR ''/'' # name) text w = w\<lparr>w_file := (w_file w)(d @ CHR ''/'' # name \<mapsto> text)\<rparr>"
  by (simp add: file_write_def)

lemma copy_images_files:
  assumes "empty_dir w d" "t_rootfsPath t \<noteq> d @ ''/kernel''"
  shows "w_file (copy_images d t w) (d @ ''/rootfs.img'') = Some (contents w (t_rootfsPath t))"
    and "w_file (copy_images d t w) (d @ ''/kernel'')
      = (if t_kernelPath t \<noteq> ''-none-'' then Some (contents w (t_kernelPath t)) else None)"
    and "w_file (copy_images d t w) (d @ ''/.append'') = None"
  using assms by (simp_all add: copy_images_def Let_def file_write_in_dir empty_dir_def contents_def)

lemma write_cookies_other:
  "q \<notin> {d @ ''/.pid'', d @ ''/.ssh'', d @ ''/.cpus'', d @ ''/.memory'', d @ ''/.template''} \<Longrightarrow>
   w_file (write_cookies d v w) q = w_file w q"
  by (simp add: write_cookies_def)

lemma write_cookies_stored:
  assumes "w_isdir w d" "\<And>name. CHR ''/'' \<notin> set name \<Longrightarrow> \<not> w_isdir w (d @ CHR ''/'' # name)"
    and "w_file w (d @ ''/.append'') = None"
  shows "stored (write_cookies d v w) d v"
  using assms by (auto simp: stored_def write_cookies_def file_write_in_dir intro!: exI [of _ 0])

lemma mkdir_run:
  assumes "mkdir_works os d w" "CHR 0x00 \<notin> set d"
  obtains p w' where "runAndWait os (Process_new ''/bin/mkdir'' [d]) w = (Inr p, w')"
    "w_isdir w' = (w_isdir w)(d := True)" "w_file w' = w_file w" "w_connects w' = w_connects w"
    "w_clock w' = w_clock w"
proof -
  obtain pid w1 where "os_spawn os True ''/bin/mkdir'' ['''', d] w = (pid, w1)"
    by (cases "os_spawn os True ''/bin/mkdir'' ['''', d] w")
  moreover have "c_str ''/bin/mkdir'' = ''/bin/mkdir''" "c_str '''' = ''''" by simp_all
  ultimately show thesis
    using assms that
    by (simp add: runAndWait_eq exec_args_def Process_new_def mkdir_works_def Let_def isRunning_def)
qed

lemma instantiate_run:
  assumes port: "findNextPort (nextPort s) (c_world s) = (Inr p, w1)"
    and id: "findNextId s (nextId s) = Inr vmid"
    and mkdir: "runAndWait os (Process_new ''/bin/mkdir'' [d]) w1 = (Inr pr, w2)"
    and d: "d = mkInstDir (workingDir s) vmid"
    and v: "v = \<lparr>v_templ = t, v_memory = memory, v_cpus = cpus, v_port = p\<rparr>"
  shows "instantiate os t memory cpus s
    = restore vmid (s\<lparr>nextPort := p, nextId := vmid, c_world := write_cookies d v (copy_images d t w2)\<rparr>)"
proof -
  have "\<exists>n. w1 = (c_world s)\<lparr>w_fds := n\<rparr>" using findNextPort_result [OF port] by blast
  then have "findNextId (s\<lparr>c_world := w1, nextPort := p\<rparr>) (nextId s) = Inr vmid"
    using id by (subst findNextId_cong [of _ s]) (auto simp: fresh_id_def)
  then show ?thesis
    unfolding instantiate_def
    by (simp add: bnd_def seq_def gets_def modify_def ret_def of_res_def onw_run advancePort_run [OF port] mkdir
        d [symmetric] copyFile_run cookie_write_run write_cookies_def copy_images_def contents_def
        v Let_def del: append.simps append_assoc)
qed

text \<open>
  The whole operation, when the searches find a port and an id and \<open>mkdir\<close> works: the new machine
  is entered under its id, and its directory holds its images and cookies.
\<close>

lemma instantiate_ok:
  assumes port: "findNextPort (nextPort s) (c_world s) = (Inr p, w1)" "\<not> busy (c_world s) p"
    and id: "findNextId s (nextId s) = Inr vmid" "in_int (nextId s)"
    and mkdir: "mkdir_works os d w1" and d: "d = mkInstDir (workingDir s) vmid"
    and world: "fs_ok (c_world s)" "clock_ok (c_world s)" "CHR 0x00 \<notin> set (workingDir s)"
    and v: "v = \<lparr>v_templ = t, v_memory = memory, v_cpus = cpus, v_port = p\<rparr>"
    and ok: "vm_ok (templates s) v" and rootfs: "t_rootfsPath t \<noteq> d @ ''/kernel''"
  defines "i \<equiv> restored d (t_kernelPath t \<noteq> ''-none-'') vmid v"
  shows "\<exists>w'. instantiate os t memory cpus s =
      (Inr i, s\<lparr>nextPort := p, nextId := vmid, instances := map_put vmid i (instances s), c_world := w'\<rparr>)
    \<and> fresh_id s vmid \<and> stored w' d v \<and> w_isdir w' = (w_isdir (c_world s))(d := True)
    \<and> w_file w' (d @ ''/rootfs.img'') = Some (contents (c_world s) (t_rootfsPath t))
    \<and> (w_file w' (d @ ''/kernel'') \<noteq> None) = (t_kernelPath t \<noteq> ''-none-'')
    \<and> w_connects w' = w_connects (c_world s) \<and> w_clock w' = w_clock (c_world s)"
proof -
  have id_ok: "fresh_id s vmid" "in_int vmid"
    using findNextId_least [OF id(1)] id(2) by (auto simp: in_int_def)
  have dne: "d \<noteq> []" "CHR 0x00 \<notin> set d"
    using d world(3) by (simp_all add: mkInstDir_def)
  have nodir: "\<not> w_isdir (c_world s) d"
    using id_ok(1) d by (simp add: fresh_id_def)
  obtain n where w1: "w1 = (c_world s)\<lparr>w_fds := n\<rparr>"
    using findNextPort_result [OF port(1)] by blast
  obtain pr w2 where mk: "runAndWait os (Process_new ''/bin/mkdir'' [d]) w1 = (Inr pr, w2)"
    and w2: "w_isdir w2 = (w_isdir (c_world s))(d := True)" "w_file w2 = w_file (c_world s)"
      "w_connects w2 = w_connects (c_world s)" "w_clock w2 = w_clock (c_world s)"
    using mkdir_run [OF mkdir dne(2)] w1 by auto
  have fresh_dir: "empty_dir w2 d"
    using fs_okD [OF world(1) dne(1) nodir] by (auto simp: empty_dir_def w2)
  let ?w = "write_cookies d v (copy_images d t w2)"
  have st: "stored ?w d v"
    using fresh_dir copy_images_files(3) [OF fresh_dir rootfs]
    by (intro write_cookies_stored) (simp_all add: empty_dir_def)
  have img: "w_file ?w (d @ ''/rootfs.img'') = Some (contents (c_world s) (t_rootfsPath t))"
    "w_file ?w (d @ ''/kernel'') = (if t_kernelPath t \<noteq> ''-none-'' then Some (contents w2 (t_kernelPath t)) else None)"
    using copy_images_files(1,2) [OF fresh_dir rootfs] by (simp_all add: write_cookies_other contents_def w2)
  let ?s = "s\<lparr>nextPort := p, nextId := vmid, c_world := ?w\<rparr>"
  obtain n' out where "restore vmid ?s = (Inr (restored d (w_file ?w (d @ ''/kernel'') \<noteq> None) vmid v),
      ?s\<lparr>instances := map_put vmid (restored d (w_file ?w (d @ ''/kernel'') \<noteq> None) vmid v) (instances ?s),
         c_world := ?w\<lparr>w_fds := n', w_out := out\<rparr>\<rparr>)"
    using restore_stored [of d ?s vmid ?w v] d st ok id_ok port(2) world(2) v
    by (auto simp: fresh_id_def w2 busy_def connects_def clock_ok_def)
  moreover have "(w_file ?w (d @ ''/kernel'') \<noteq> None) = (t_kernelPath t \<noteq> ''-none-'')"
    using img(2) by simp
  ultimately have "instantiate os t memory cpus s =
      (Inr i, s\<lparr>nextPort := p, nextId := vmid, instances := map_put vmid i (instances s),
         c_world := ?w\<lparr>w_fds := n', w_out := out\<rparr>\<rparr>)"
    by (simp add: instantiate_run [OF port(1) id(1) mk d v] i_def)
  then show ?thesis
    using id_ok(1) st img w2 by (intro exI [of _ "?w\<lparr>w_fds := n', w_out := out\<rparr>"]) (simp add: stored_def)
qed

section \<open>Starting a controller\<close>

text \<open>\<open>good_vm\<close>: a machine that is completely on disk and whose port nobody listens on.\<close>

definition good_vm :: "controller \<Rightarrow> int \<Rightarrow> vm \<Rightarrow> bool" where
  "good_vm s k v \<longleftrightarrow>
    in_int k \<and> w_isdir (c_world s) (mkInstDir (workingDir s) k)
    \<and> stored (c_world s) (mkInstDir (workingDir s) k) v \<and> vm_ok (templates s) v
    \<and> \<not> busy (c_world s) (v_port v)"

definition on_disk :: "controller \<Rightarrow> int \<Rightarrow> vm \<Rightarrow> inst" where
  "on_disk s k v =
    (let d = mkInstDir (workingDir s) k
     in restored d (w_file (c_world s) (d @ ''/kernel'') \<noteq> None) k v)"

text \<open>What loading changes: the instances, open sockets and the log.\<close>

definition reloaded :: "controller \<Rightarrow> (int, inst) cmap \<Rightarrow> nat \<Rightarrow> string list \<Rightarrow> controller" where
  "reloaded s is n out = s\<lparr>instances := is, c_world := (c_world s)\<lparr>w_fds := n, w_out := out\<rparr>\<rparr>"

lemma reloaded_simps [simp]:
  "instances (reloaded s is n out) = is" "workingDir (reloaded s is n out) = workingDir s"
  "templates (reloaded s is n out) = templates s"
  "good_vm (reloaded s is n out) k v = good_vm s k v" "on_disk (reloaded s is n out) k v = on_disk s k v"
  "clock_ok (c_world (reloaded s is n out)) = clock_ok (c_world s)"
  "reloaded (reloaded s is n out) is' n' out' = reloaded s is' n' out'"
  by (simp_all add: reloaded_def good_vm_def on_disk_def stored_def clock_ok_def busy_def connects_def Let_def)

lemma load_entry_number:
  assumes "good_vm s k v" "clock_ok (c_world s)"
  shows "\<exists>is n out. load_entry (to_string k) s = (Inr (), reloaded s is n out)
    \<and> is = (if map_find (instances s) k = None then map_put k (on_disk s k v) (instances s) else instances s)"
proof (cases "map_find (instances s) k")
  case None
  obtain n out where "restore k s = (Inr (on_disk s k v), reloaded s (map_put k (on_disk s k v) (instances s)) n out)"
    using restore_stored [of "mkInstDir (workingDir s) k" s k "c_world s" v] assms None
    by (auto simp: good_vm_def on_disk_def reloaded_def Let_def)
  then show ?thesis
    using assms None by (auto simp: load_entry_def try_catch_def bnd_def of_res_def ret_def good_vm_def)
next
  case (Some i)
  have "restore k s = (Inr i, s)"
    using assms Some by (simp add: restore_def bnd_def gets_def ret_def good_vm_def dirExists_def)
  moreover have "s = reloaded s (instances s) (w_fds (c_world s)) (w_out (c_world s))"
    by (simp add: reloaded_def)
  ultimately show ?thesis
    using assms Some by (auto simp: load_entry_def try_catch_def bnd_def of_res_def ret_def good_vm_def)
qed

lemma load_entry_other:
  "stoi name = Inl (Throws Invalid_Argument) \<Longrightarrow> load_entry name s = (Inr (), s)"
  by (simp add: load_entry_def try_catch_def bnd_def of_res_def ret_def)

text \<open>
  The names of a working directory: numbers that name machines on disk (\<open>vms\<close>), and names such
  as \<open>.\<close> and \<open>..\<close> that are not numbers.
\<close>

definition names_ok :: "controller \<Rightarrow> (int \<Rightarrow> vm) \<Rightarrow> string list \<Rightarrow> bool" where
  "names_ok s vms names \<longleftrightarrow>
    list_all (\<lambda>name. stoi name = Inl (Throws Invalid_Argument)
      \<or> (\<exists>k. name = to_string k \<and> good_vm s k (vms k))) names"

lemma load_names:
  "names_ok s vms names \<Longrightarrow> clock_ok (c_world s) \<Longrightarrow> map_ok (instances s) \<Longrightarrow>
   \<exists>is n out. for_each names load_entry s = (Inr (), reloaded s is n out) \<and> map_ok is
     \<and> (\<forall>k. map_find is k =
          (if map_find (instances s) k \<noteq> None then map_find (instances s) k
           else if in_int k \<and> to_string k \<in> set names then Some (on_disk s k (vms k)) else None))"
proof (induction names arbitrary: s)
  case Nil
  have "s = reloaded s (instances s) (w_fds (c_world s)) (w_out (c_world s))"
    by (simp add: reloaded_def)
  then show ?case using Nil by (intro exI [of _ "instances s"]) (auto simp: ret_def)
next
  case (Cons name names)
  from Cons.prems(1) consider (other) "stoi name = Inl (Throws Invalid_Argument)"
    | (number) k where "name = to_string k" "good_vm s k (vms k)"
    by (auto simp: names_ok_def)
  then show ?case
  proof cases
    case other
    then have ne: "to_string k \<noteq> name" if "in_int k" for k using that by auto
    have "names_ok s vms names" using Cons.prems(1) by (simp add: names_ok_def)
    then obtain is1 n1 out1 where
      f: "for_each names load_entry s = (Inr (), reloaded s is1 n1 out1)" "map_ok is1"
      and look: "\<And>k. map_find is1 k = (if map_find (instances s) k \<noteq> None then map_find (instances s) k
           else if in_int k \<and> to_string k \<in> set names then Some (on_disk s k (vms k)) else None)"
      using Cons.IH [of s] Cons.prems(2,3) by blast
    have "map_find is1 k = (if map_find (instances s) k \<noteq> None then map_find (instances s) k
           else if in_int k \<and> to_string k \<in> set (name # names) then Some (on_disk s k (vms k)) else None)" for k
      using look [of k] ne [of k] by auto
    moreover have "for_each (name # names) load_entry s = (Inr (), reloaded s is1 n1 out1)"
      using f(1) by (simp add: seq_Inr load_entry_other [OF other])
    ultimately show ?thesis using f(2) by blast
  next
    case (number k0)
    then have k0: "in_int k0" by (simp add: good_vm_def)
    obtain is0 n0 out0 where l: "load_entry name s = (Inr (), reloaded s is0 n0 out0)"
      and is0: "is0 = (if map_find (instances s) k0 = None
        then map_put k0 (on_disk s k0 (vms k0)) (instances s) else instances s)"
      using load_entry_number [OF number(2) Cons.prems(2)] number(1) by blast
    have "names_ok (reloaded s is0 n0 out0) vms names"
      using Cons.prems(1) by (simp add: names_ok_def)
    moreover have "map_ok is0" using is0 Cons.prems(3) by simp
    ultimately obtain is1 n1 out1 where
      f: "for_each names load_entry (reloaded s is0 n0 out0) = (Inr (), reloaded s is1 n1 out1)" "map_ok is1"
      and look: "\<And>k. map_find is1 k = (if map_find is0 k \<noteq> None then map_find is0 k
           else if in_int k \<and> to_string k \<in> set names then Some (on_disk s k (vms k)) else None)"
      using Cons.IH [of "reloaded s is0 n0 out0"] Cons.prems(2) by auto
    have "to_string k = name \<longleftrightarrow> k = k0" for k
      using number(1) to_string_inj by blast
    then have "map_find is1 k = (if map_find (instances s) k \<noteq> None then map_find (instances s) k
           else if in_int k \<and> to_string k \<in> set (name # names) then Some (on_disk s k (vms k)) else None)" for k
      using look [of k] is0 k0 Cons.prems(3) by auto
    moreover have "for_each (name # names) load_entry s = (Inr (), reloaded s is1 n1 out1)"
      using f(1) by (simp add: seq_Inr l)
    ultimately show ?thesis using f(2) by blast
  qed
qed

lemma Controller_new_loads:
  assumes "w_entries w wdir = Some names" "clock_ok w"
    and "names_ok \<lparr>workingDir = wdir, nextId = i0, nextPort = p0, templates = the_templates,
           instances = [], c_world = w\<rparr> vms names"
  defines "s \<equiv> \<lparr>workingDir = wdir, nextId = i0, nextPort = p0, templates = the_templates,
           instances = [], c_world = w\<rparr>"
  shows "\<exists>is n out. Controller_new wdir i0 p0 w = (Inr (), reloaded s is n out) \<and> map_ok is
    \<and> (\<forall>k. map_find is k = (if in_int k \<and> to_string k \<in> set names then Some (on_disk s k (vms k)) else None))"
  using load_names [of s vms names] assms
  by (simp add: Controller_new_def Controller_load_def bnd_def gets_def)

end
