(* ===== verification/Vm_Controller_Inv.thy ===== *)
theory Vm_Controller_Inv
  imports Vm_Controller_Laws
begin

text \<open>
  The invariant of a controller, kept by every operation on every path, also the ones that fail;
  a controller as a state machine (its operations, whatever they return, and an environment
  that changes the operating system in any way between them), and what holds in every state it
  reaches.
\<close>

section \<open>The invariant\<close>

text \<open>
  An instance is filed under its id, its numbers are of type \<open>int\<close>, its template is one of the
  controller's, and its process is the command line built for its memory and processors.
\<close>

definition inst_inv :: "string \<Rightarrow> int \<Rightarrow> inst \<Rightarrow> bool" where
  "inst_inv wdir k i \<longleftrightarrow>
    i_id i = k \<and> in_int k \<and> in_int (i_memory i) \<and> in_int (i_cpus i) \<and> in_int (i_sshPort i)
    \<and> map_find the_templates (t_name (i_template i)) = Some (i_template i)
    \<and> p_path (i_process i) = ''/bin/bash''
    \<and> (\<exists>port withKernel appendStr. in_int port \<and>
         p_opts (i_process i) = vmArgs (i_memory i) (i_cpus i) port withKernel
           (mkInstDir wdir k @ ''/kernel'') (mkInstDir wdir k @ ''/rootfs.img'') appendStr)"

definition ctl_inv :: "string \<Rightarrow> controller \<Rightarrow> bool" where
  "ctl_inv wdir s \<longleftrightarrow>
    workingDir s = wdir \<and> templates s = the_templates \<and> in_int (nextId s) \<and> in_int (nextPort s)
    \<and> map_ok (instances s) \<and> (\<forall>k i. map_find (instances s) k = Some i \<longrightarrow> inst_inv wdir k i)"

lemma ctl_inv_world [simp]: "ctl_inv wdir (s\<lparr>c_world := w\<rparr>) = ctl_inv wdir s"
  by (simp add: ctl_inv_def)

lemma yields_onw: "yields (\<lambda>_. True) m \<phi> \<Longrightarrow> yields (ctl_inv wdir) (onw m) \<phi>"
  unfolding onw_def by (rule yields_zoom) (auto dest: yieldsD)

lemma keeps_True: "keeps (\<lambda>_. True) m"
  by (rule yieldsI) simp

lemma keeps_onw [triples]: "keeps (ctl_inv wdir) (onw m)"
  by (rule yields_onw [OF keeps_True])

lemma keeps_set_inst [triples]: "inst_inv wdir k i \<Longrightarrow> keeps (ctl_inv wdir) (set_inst k i)"
  unfolding set_inst_def by (rule yields_modify) (auto simp: ctl_inv_def split: if_splits)

lemma yields_read_int: "yields (\<lambda>_. True) (cookie_read_int c) in_int"
  by (rule yieldsI) (auto simp: cookie_read_int_run extract_in_int split: option.splits)

lemma yields_read_metadata:
  "yields (\<lambda>_. True) (read_metadata dir) (\<lambda>(tempName, memory, cpus, sshPort, pid).
     in_int memory \<and> in_int cpus \<and> in_int sshPort)"
  unfolding read_metadata_def
  by (intro yields_try keeps_bnd yields_bnd [OF yields_read_int] keeps_True yields_ret yields_throw) simp

lemma yields_advancePort: "yields (ctl_inv wdir) advancePort in_int"
  unfolding advancePort_def
proof (intro yields_bnd_gets)
  fix s
  assume "ctl_inv wdir s"
  then have "in_int (nextPort s)" by (simp add: ctl_inv_def)
  then have "yields (\<lambda>_. True) (findNextPort (nextPort s)) in_int"
    by (intro yieldsI) (auto dest!: findNextPort_result simp: in_int_def)
  then show "yields (ctl_inv wdir)
      (bnd (onw (findNextPort (nextPort s))) (\<lambda>port. seq (modify (\<lambda>s. s\<lparr>nextPort := port\<rparr>)) (ret port))) in_int"
    by (intro yields_bnd [OF yields_onw] yields_seq yields_modify yields_ret) (auto simp: ctl_inv_def)
qed

lemma yields_own_port:
  "in_int sshPort \<Longrightarrow>
   yields (ctl_inv wdir)
     (if free then ret sshPort
      else bnd advancePort (\<lambda>port. seq (onw (cookie_write_int c port)) (ret port))) in_int"
  by (intro yields_if yields_bnd [OF yields_advancePort] yields_seq keeps_onw yields_ret)

lemma the_templates_name: "map_find the_templates n = Some t \<Longrightarrow> t_name t = n"
  by (auto simp: the_templates_def map_find_def cirros_def wheezy_def split: if_splits)

lemma new_inst_inv:
  assumes "ctl_inv wdir s" "ctl_inv wdir s'" "map_find (templates s') n = Some t"
    and "in_int vmid" "in_int memory" "in_int cpus" "in_int port"
  shows "inst_inv wdir vmid
    \<lparr>i_id = vmid, i_memory = memory, i_cpus = cpus, i_sshPort = port, i_template = t,
     i_process = Process_new ''/bin/bash'' (vmArgs memory cpus port withKernel
        (mkInstDir (workingDir s) vmid @ ''/kernel'') (mkInstDir (workingDir s) vmid @ ''/rootfs.img'')
        appendStr)\<rparr>"
  using assms the_templates_name [of n t]
  by (auto simp: inst_inv_def ctl_inv_def Process_new_def simp del: append.simps)

lemma yields_restore:
  assumes "in_int vmid"
  shows "yields (ctl_inv wdir) (restore vmid) (inst_inv wdir vmid)"
  unfolding restore_def Let_def
  apply (rule yields_bnd_gets, rule yields_bnd_gets, rule yields_if, rule yields_throw,
      rule yields_bnd_gets, rule yields_case_option)
   apply (rule yields_bnd_gets, rule yields_bnd [OF yields_onw [OF yields_read_metadata]],
      rule yields_case_prod, rule yields_case_prod, rule yields_case_prod, rule yields_case_prod,
      rule yields_bnd [OF keeps_onw], rule yields_bnd [OF keeps_onw],
      rule yields_bnd [OF yields_own_port], simp, rule yields_bnd_gets, rule yields_case_option,
      rule yields_throw, rule yields_seq, rule keeps_set_inst, erule new_inst_inv, assumption,
      assumption, rule assms, simp, simp, assumption, rule yields_seq, rule keeps_onw, rule yields_ret,
      erule new_inst_inv, assumption, assumption, rule assms, simp, simp, assumption)
  apply (rule yields_ret, simp add: ctl_inv_def)
  done

lemma yields_instantiate:
  "yields (ctl_inv wdir) (instantiate os t memory cpus) (\<lambda>i. inst_inv wdir (i_id i) i)"
  unfolding instantiate_def
proof (rule yields_bnd [OF yields_advancePort], rule yields_bnd_gets, rule yields_bnd_of_res)
  fix port s vmid
  assume s: "ctl_inv wdir s" and found: "findNextId s (nextId s) = Inr vmid"
  have vmid: "in_int vmid"
    using findNextId_least [OF found] s by (auto simp: ctl_inv_def in_int_def)
  note res = yields_weaken [OF yields_restore [OF vmid], of wdir "\<lambda>i. inst_inv wdir (i_id i) i"]
  show "yields (ctl_inv wdir)
      (seq (modify (\<lambda>s. s\<lparr>nextId := vmid\<rparr>))
      (bnd (gets (\<lambda>s. mkInstDir (workingDir s) vmid)) (\<lambda>instanceDir.
       bnd (onw (runAndWait os (Process_new ''/bin/mkdir'' [instanceDir]))) (\<lambda>_.
       seq (if t_kernelPath t \<noteq> ''-none-''
            then onw (copyFile (t_kernelPath t) (instanceDir @ ''/kernel'')) else ret ())
       (seq (onw (copyFile (t_rootfsPath t) (instanceDir @ ''/rootfs.img'')))
       (seq (onw (cookie_write_string (instanceDir @ ''/.template'') (t_name t)))
       (seq (onw (cookie_write_int (instanceDir @ ''/.memory'') memory))
       (seq (onw (cookie_write_int (instanceDir @ ''/.cpus'') cpus))
       (seq (onw (cookie_write_int (instanceDir @ ''/.ssh'') port))
       (seq (onw (cookie_write_int (instanceDir @ ''/.pid'') 0))
       (restore vmid))))))))))) (\<lambda>i. inst_inv wdir (i_id i) i)"
    using vmid
    by (intro yields_seq yields_modify yields_bnd_gets yields_bnd [OF keeps_onw] keeps_onw
        yields_if yields_ret res) (auto simp: ctl_inv_def inst_inv_def)
qed

lemma inst_inv_updates:
  "inst_inv wdir k i \<Longrightarrow> in_int port \<Longrightarrow> inst_inv wdir k (setSshPort port i)"
  "inst_inv wdir k i \<Longrightarrow> p_path p = p_path (i_process i) \<Longrightarrow> p_opts p = p_opts (i_process i) \<Longrightarrow>
   inst_inv wdir k (i\<lparr>i_process := p\<rparr>)"
  by (auto simp: inst_inv_def setSshPort_def)

lemma yields_Process_run:
  "yields (\<lambda>_. True) (Process_run os silent p) (\<lambda>(pid, p'). p_path p' = p_path p \<and> p_opts p' = p_opts p)"
  by (rule yieldsI) (auto simp: Process_run_eq split: if_splits prod.splits)

lemma yields_choose_port:
  assumes "inst_inv wdir vmid i"
  shows "yields (ctl_inv wdir)
    (if free then ret i else
       seq (onw m1) (bnd advancePort (\<lambda>port.
       seq (onw (cookie_write_int c port))
       (seq (set_inst vmid (setSshPort port i))
       (seq (onw (m2 port)) (ret (setSshPort port i))))))) (inst_inv wdir vmid)"
  using assms
  by (intro yields_if yields_seq keeps_onw yields_bnd [OF yields_advancePort] keeps_set_inst yields_ret)
    (simp_all add: inst_inv_updates)

lemma keeps_run: "keeps (ctl_inv wdir) (run os vmid)"
  unfolding run_def
proof (rule yields_bnd_gets, rule yields_case_option)
  fix s
  show "keeps (ctl_inv wdir)
      (seq (onw (log_error (''vm with id '' @ to_string vmid @ '' not found''))) (ret False))"
    by (intro triples TrueI)
next
  fix s i
  assume "ctl_inv wdir s" "map_find (instances s) vmid = Some i"
  then have i: "inst_inv wdir vmid i" by (simp add: ctl_inv_def)
  show "keeps (ctl_inv wdir)
      (bnd (gets (\<lambda>s. isRunning (i_process i) (c_world s))) (\<lambda>running.
        if running
        then seq (onw (log_error (''vm with id '' @ to_string vmid @ '' is already running''))) (ret False)
        else
        bnd (gets (\<lambda>s. mkInstDir (workingDir s) vmid)) (\<lambda>instanceDir.
        bnd (onw (isPortFree (i_sshPort i))) (\<lambda>free.
        bnd (if free then ret i else
             seq (onw (log_warn (''port '' @ to_string (i_sshPort i)
                     @ '' is already in use. searching for other port'')))
             (bnd advancePort (\<lambda>port.
              seq (onw (cookie_write_int (instanceDir @ ''/.ssh'') port))
              (seq (set_inst vmid (setSshPort port i))
              (seq (onw (log_info (''assigned new port '' @ to_string port)))
               (ret (setSshPort port i))))))) (\<lambda>i.
        bnd (onw (Process_run os True (i_process i))) (\<lambda>(pid, process).
        seq (set_inst vmid (i\<lparr>i_process := process\<rparr>))
        (seq (onw (cookie_write_int (instanceDir @ ''/.pid'') (getPid process)))
         (ret True))))))))"
    by (rule yields_bnd_gets, rule yields_if, intro yields_seq keeps_onw yields_ret TrueI,
        rule yields_bnd_gets, rule yields_bnd [OF keeps_onw], rule yields_bnd [OF yields_choose_port [OF i]],
        rule yields_bnd [OF yields_onw [OF yields_Process_run]], rule yields_case_prod,
        intro yields_seq keeps_onw keeps_set_inst yields_ret TrueI) (simp add: inst_inv_updates)
qed

lemma keeps_kill: "keeps (ctl_inv wdir) (kill vmid)"
  unfolding kill_def by (intro triples yields_bnd_gets TrueI)

section \<open>The controller as a state machine\<close>

text \<open>
  One step is one operation, whatever it returns, or any change of the operating system: virtual
  machines end, ports are taken and released, the clock moves, files change.
\<close>

inductive ctl_step :: "os \<Rightarrow> controller \<Rightarrow> controller \<Rightarrow> bool" for os where
  step_instantiate: "ctl_step os s (snd (instantiate os t memory cpus s))"
| step_run: "ctl_step os s (snd (run os vmid s))"
| step_kill: "ctl_step os s (snd (kill vmid s))"
| step_world: "ctl_step os s (s\<lparr>c_world := w\<rparr>)"

inductive reachable :: "os \<Rightarrow> string \<Rightarrow> controller \<Rightarrow> bool" for os wdir where
  started: "in_int initialId \<Longrightarrow> in_int initialPort \<Longrightarrow>
    Controller_new wdir initialId initialPort w = (Inr (), s) \<Longrightarrow> reachable os wdir s"
| moved: "reachable os wdir s \<Longrightarrow> ctl_step os s s' \<Longrightarrow> reachable os wdir s'"

inductive_cases ctl_stepE: "ctl_step os s s'"

lemma ctl_step_inv: "ctl_step os s s' \<Longrightarrow> ctl_inv wdir s \<Longrightarrow> ctl_inv wdir s'"
  by (erule ctl_stepE)
    (auto intro: yields_state [OF yields_instantiate] yields_state [OF keeps_run] yields_state [OF keeps_kill])

lemma keeps_load_entry: "keeps (ctl_inv wdir) (load_entry name)"
  unfolding load_entry_def
  by (intro yields_try yields_bnd_of_res keeps_onw yields_ret TrueI
      keeps_bnd [OF yields_keeps [OF yields_restore]] stoi_in_int)

lemma Controller_new_inv:
  assumes "in_int initialId" "in_int initialPort" "Controller_new wdir initialId initialPort w = (r, s)"
  shows "ctl_inv wdir s"
proof -
  let ?s0 = "\<lparr>workingDir = wdir, nextId = initialId, nextPort = initialPort,
      templates = the_templates, instances = [], c_world = w\<rparr>"
  have "ctl_inv wdir ?s0" using assms by (simp add: ctl_inv_def)
  moreover have "keeps (ctl_inv wdir) Controller_load"
    unfolding Controller_load_def
    by (intro yields_bnd_gets yields_case_option yields_throw keeps_for_each keeps_load_entry)
  ultimately show ?thesis
    using assms(3) yieldsD [of "ctl_inv wdir" Controller_load _ ?s0 r s] by (auto simp: Controller_new_def)
qed

lemma reachable_ctl_inv: "reachable os wdir s \<Longrightarrow> ctl_inv wdir s"
proof (induction rule: reachable.induct)
  case (started initialId initialPort w s)
  then show ?case by (rule Controller_new_inv)
next
  case (moved s s')
  then show ?case by (blast intro: ctl_step_inv)
qed

end
