(* ===== verification/Controller_Server.thy ===== *)
theory Controller_Server
  imports Vm_Proxy Vm_Controller_Inv
begin

text \<open>
  \<open>src/src/controller.cpp\<close>: the command handler of a controller node, one request at a time, its
  loop over a connection, the node as the peer of a proxy, and \<open>main\<close> up to the accept loop. The
  node keeps the interface \<open>service\<close>: a remote call is the controller's own operation.
\<close>

section \<open>One request\<close>

text \<open>
  The state a handler works on: the node's controller and this connection. An exception that
  leaves \<open>run()\<close>, which is a thread's main function, ends the whole program; \<open>sv_fault\<close> says how
  the program ended or got stuck, once it has.
\<close>

record server =
  sv_ctl :: controller
  sv_conn :: socket
  sv_fault :: "fault option"

definition sv_do :: "(controller, 'a) M \<Rightarrow> (server, 'a) M" where
  "sv_do m = zoom sv_ctl (\<lambda>c sv. sv\<lparr>sv_ctl := c\<rparr>) m"

definition sv_write :: "string \<Rightarrow> (server, unit) M" where
  "sv_write d = modify (\<lambda>sv. sv\<lparr>sv_conn := write_line d (sv_conn sv)\<rparr>)"

definition sv_write_lines :: "string list \<Rightarrow> (server, unit) M" where
  "sv_write_lines ds = modify (\<lambda>sv. sv\<lparr>sv_conn := write_lines ds (sv_conn sv)\<rparr>)"

definition sv_send :: "(server, unit) M" where
  "sv_send = modify (\<lambda>sv. sv\<lparr>sv_conn := Socket_send (sv_conn sv)\<rparr>)"

definition cmd_getTemplates :: "(server, unit) M" where
  "cmd_getTemplates =
    bnd (gets (\<lambda>sv. getTemplates (sv_ctl sv))) (\<lambda>ts.
      for_each (map_values ts) (\<lambda>t. sv_write_lines (Template_serialize t)))"

definition cmd_getInstances :: "(server, unit) M" where
  "cmd_getInstances =
    bnd (gets (\<lambda>sv. getInstances (sv_ctl sv))) (\<lambda>is.
      if is = [] then sv_write []
      else for_each (map_values is) (\<lambda>i.
             bnd (gets (\<lambda>sv. getInstanceInfo i (c_world (sv_ctl sv)))) (\<lambda>info.
               sv_write_lines (InstanceInfo_serialize info))))"

text \<open>\<open>deserialize\<close> stands before the \<open>try\<close>: what it throws is not caught.\<close>

definition cmd_instantiate :: "os \<Rightarrow> string list \<Rightarrow> (server, unit) M" where
  "cmd_instantiate os args =
    bnd (of_res (InstanceInfo_deserialize args)) (\<lambda>inst.
    bnd (gets (\<lambda>sv. getTemplates (sv_ctl sv))) (\<lambda>tmpls.
      try_catch (\<lambda>_. True)
        (case map_find tmpls (ii_templ inst) of
           None \<Rightarrow>
             seq (sv_do (onw (log_warn (''non-existent template '' @ ii_templ inst @ '' instantiation required''))))
                 (sv_write_lines (InstanceInfo_serialize inst))
         | Some tmpl \<Rightarrow>
             bnd (sv_do (instantiate os tmpl (ii_memory inst) (ii_cpus inst))) (\<lambda>realInst.
             bnd (gets (\<lambda>sv. getInstanceInfo realInst (c_world (sv_ctl sv)))) (\<lambda>info.
               sv_write_lines (InstanceInfo_serialize info))))
        (\<lambda>_. sv_write_lines (InstanceInfo_serialize inst))))"

text \<open>\<open>try { result = controller->run(stoi(commands[1])); } catch (...) { }\<close>, and for \<open>kill\<close>.\<close>

definition cmd_run :: "os \<Rightarrow> string list \<Rightarrow> (server, unit) M" where
  "cmd_run os commands =
    bnd (try_catch (\<lambda>_. True)
          (bnd (of_res (vec_at commands 1)) (\<lambda>arg.
           bnd (of_res (stoi arg)) (\<lambda>vmid. sv_do (run os vmid))))
          (\<lambda>_. ret False)) (\<lambda>result.
      sv_write (to_string (bool_int result)))"

definition cmd_kill :: "string list \<Rightarrow> (server, unit) M" where
  "cmd_kill commands =
    bnd (try_catch (\<lambda>_. True)
          (bnd (of_res (vec_at commands 1)) (\<lambda>arg.
           bnd (of_res (stoi arg)) (\<lambda>vmid. sv_do (kill vmid))))
          (\<lambda>_. ret False)) (\<lambda>result.
      sv_write (to_string (bool_int result)))"

text \<open>The body of the handler's loop after the message is read.\<close>

definition dispatch :: "os \<Rightarrow> string \<Rightarrow> string list \<Rightarrow> (server, unit) M" where
  "dispatch os cmd commands =
    (if cmd = ''getTemplates'' then cmd_getTemplates
     else if cmd = ''getInstances'' then cmd_getInstances
     else if cmd = ''instantiate'' then cmd_instantiate os (tl commands)
     else if cmd = ''run'' then cmd_run os commands
     else if cmd = ''kill'' then cmd_kill commands
     else sv_write ''unknown command'')"

definition request :: "os \<Rightarrow> string list \<Rightarrow> (server, unit) M" where
  "request os commands =
    bnd (of_res (vec_at_checked commands 0)) (\<lambda>cmd.
    seq (sv_do (onw (log_info (''processing request: '' @ cmd))))
    (seq (dispatch os cmd commands) sv_send))"

section \<open>A connection\<close>

lemma keeps_sv_do [triples]: "(\<And>sv c. I (sv\<lparr>sv_ctl := c\<rparr>) = I sv) \<Longrightarrow> keeps I (sv_do m)"
  unfolding sv_do_def by (rule yields_zoom) auto

text \<open>A request takes nothing off the connection but its own message.\<close>

lemma keeps_request_input: "keeps (\<lambda>sv. s_in (sv_conn sv) = bs) (request os commands)"
  unfolding request_def dispatch_def cmd_getTemplates_def cmd_getInstances_def cmd_instantiate_def cmd_run_def
    cmd_kill_def sv_write_def sv_write_lines_def sv_send_def
  by (intro triples keeps_bnd yields_gets) auto

lemma request_input: "request os commands sv = (r, sv') \<Longrightarrow> s_in (sv_conn sv') = s_in (sv_conn sv)"
  using yieldsD [OF keeps_request_input] by blast

text \<open>
  \<open>for (;;)\<close> over the bytes that have arrived. While a message is incomplete the handler waits for
  the rest, with the bytes it already has; once it will not read another message, \<open>sv_fault\<close> is set.
\<close>

function serve :: "os \<Rightarrow> server \<Rightarrow> fault \<times> server" where
  "serve os sv =
    (case Socket_read (sv_conn sv) of (r, conn) \<Rightarrow>
       (case r of
          Inl f \<Rightarrow> (f, if f = Blocks then sv else sv\<lparr>sv_conn := conn, sv_fault := Some f\<rparr>)
        | Inr commands \<Rightarrow>
            (case request os commands (sv\<lparr>sv_conn := conn\<rparr>) of (r', sv') \<Rightarrow>
               (case r' of Inl f \<Rightarrow> (f, sv'\<lparr>sv_fault := Some f\<rparr>) | Inr _ \<Rightarrow> serve os sv'))))"
  by pat_completeness auto
termination
  by (relation "measure (\<lambda>(os, sv). length (s_in (sv_conn sv)))")
    (auto dest!: sym [THEN Socket_read_shorter] sym [THEN request_input])

declare serve.simps [simp del]

text \<open>The node as the peer of a proxy.\<close>

definition controller_react :: "os \<Rightarrow> server react" where
  "controller_react os bytes sv =
    (if sv_fault sv \<noteq> None then (([], sv_fault sv \<noteq> Some Loops), sv)
     else (case serve os (sv\<lparr>sv_conn := (sv_conn sv)\<lparr>s_in := s_in (sv_conn sv) @ bytes\<rparr>\<rparr>) of (f, sv') \<Rightarrow>
             ((s_out (sv_conn sv'), f \<noteq> Blocks \<and> f \<noteq> Loops),
              sv'\<lparr>sv_conn := (sv_conn sv')\<lparr>s_out := []\<rparr>\<rparr>)))"

section \<open>The main program\<close>

definition usage_controller :: string where
  "usage_controller = ''usage: controller <control-port> <working-dir> <initial-id> <initial-ssh-port>''"

text \<open>
  \<open>main\<close> up to its accept loop: \<open>None\<close> when there are too few arguments. What it throws is caught
  by nobody.
\<close>

definition controller_main :: "string list \<Rightarrow> (world, (server_socket \<times> controller) option) M" where
  "controller_main argv =
    (if length argv < 5
     then seq (modify (\<lambda>w. w\<lparr>w_out := w_out w @ [usage_controller]\<rparr>)) (ret None)
     else
       bnd (of_res (stoi (argv ! 1))) (\<lambda>controlPort.
       bnd (ServerSocket_new controlPort) (\<lambda>ssocket.
       bnd (of_res (stoi (argv ! 3))) (\<lambda>initialId.
       bnd (of_res (stoi (argv ! 4))) (\<lambda>initialPort.
       bnd (\<lambda>w. case Controller_new (argv ! 2) initialId initialPort w of (r, c) \<Rightarrow>
              (rbind r (\<lambda>_. Inr c), c_world c)) (\<lambda>c.
       seq (log_info ''VM Controller started!'')
       (bnd (gets (\<lambda>w. w)) (\<lambda>w. ret (Some (ssocket, c\<lparr>c_world := w\<rparr>))))))))))"

text \<open>
  One turn of the accept loop, given what \<open>::accept\<close> returned: the socket of the handler it
  starts, or \<open>None\<close> after logging the error. \<open>accept_loop\<close> is as many turns as there are results.
\<close>

definition accept_turn :: "int \<Rightarrow> (world, socket option) M" where
  "accept_turn connFD =
    try_catch is_util_exception
      (bnd (of_res (ServerSocket_accept connFD)) (\<lambda>s. ret (Some s)))
      (\<lambda>ex. seq (log_error (exn_what ex)) (ret None))"

fun accept_loop :: "int list \<Rightarrow> (world, socket list) M" where
  "accept_loop [] = ret []"
| "accept_loop (fd # fds) =
    bnd (accept_turn fd) (\<lambda>s. bnd (accept_loop fds) (\<lambda>ss.
      ret (case s of None \<Rightarrow> ss | Some s \<Rightarrow> s # ss)))"

section \<open>The node as a service\<close>

text \<open>The operations behind the commands, on the controller alone.\<close>

definition processing :: "string \<Rightarrow> (controller, unit) M" where
  "processing cmd = onw (log_info (''processing request: '' @ cmd))"

definition ctl_templates :: "(controller, templ list) M" where
  "ctl_templates = seq (processing ''getTemplates'') (gets (\<lambda>c. map_values (getTemplates c)))"

definition infos :: "controller \<Rightarrow> instanceInfo list" where
  "infos c = map (\<lambda>i. getInstanceInfo i (c_world c)) (map_values (getInstances c))"

definition ctl_instances :: "(controller, instanceInfo list) M" where
  "ctl_instances = seq (processing ''getInstances'') (gets infos)"

definition echo_info :: "string \<Rightarrow> int \<Rightarrow> int \<Rightarrow> instanceInfo" where
  "echo_info name memory cpus =
    \<lparr>ii_id = ''0'', ii_templ = name, ii_memory = memory, ii_cpus = cpus, ii_sshPort = 0, ii_running = False\<rparr>"

text \<open>What the \<open>try\<close> block of \<open>instantiate\<close> comes to: any exception becomes the echo.\<close>

definition new_or_echo :: "os \<Rightarrow> instanceInfo \<Rightarrow> (controller, instanceInfo) M" where
  "new_or_echo os inst =
    bnd (gets getTemplates) (\<lambda>tmpls.
      try_catch (\<lambda>_. True)
        (case map_find tmpls (ii_templ inst) of
           None \<Rightarrow>
             seq (onw (log_warn (''non-existent template '' @ ii_templ inst @ '' instantiation required'')))
                 (ret inst)
         | Some tmpl \<Rightarrow>
             bnd (instantiate os tmpl (ii_memory inst) (ii_cpus inst)) (\<lambda>realInst.
               gets (\<lambda>c. getInstanceInfo realInst (c_world c))))
        (\<lambda>_. ret inst))"

definition ctl_new :: "os \<Rightarrow> string \<Rightarrow> int \<Rightarrow> int \<Rightarrow> (controller, instanceInfo) M" where
  "ctl_new os name memory cpus =
    seq (processing ''instantiate'') (new_or_echo os (echo_info name memory cpus))"

definition by_number :: "(int \<Rightarrow> (controller, bool) M) \<Rightarrow> string \<Rightarrow> (controller, bool) M" where
  "by_number f d = try_catch (\<lambda>_. True) (bnd (of_res (stoi d)) f) (\<lambda>_. ret False)"

definition ctl_run :: "os \<Rightarrow> string \<Rightarrow> (controller, bool) M" where
  "ctl_run os d = seq (processing ''run'') (by_number (run os) d)"

definition ctl_kill :: "string \<Rightarrow> (controller, bool) M" where
  "ctl_kill d = seq (processing ''kill'') (by_number kill d)"

definition sv_ready :: "nat \<Rightarrow> server \<Rightarrow> bool" where
  "sv_ready n sv \<longleftrightarrow> sv_fault sv = None \<and> quiet n (sv_conn sv)"

lemma sv_run:
  "sv_do m sv = (case m (sv_ctl sv) of (r, c) \<Rightarrow> (r, sv\<lparr>sv_ctl := c\<rparr>))"
  "sv_write d sv = (Inr (), sv\<lparr>sv_conn := write_line d (sv_conn sv)\<rparr>)"
  "sv_write_lines ds sv = (Inr (), sv\<lparr>sv_conn := write_lines ds (sv_conn sv)\<rparr>)"
  "sv_send sv = (Inr (), sv\<lparr>sv_conn := Socket_send (sv_conn sv)\<rparr>)"
  by (simp_all add: sv_do_def zoom_def sv_write_def sv_write_lines_def sv_send_def modify_def)

lemma for_each_write:
  "for_each xs (\<lambda>x. sv_write_lines (ser x)) sv
    = (Inr (), sv\<lparr>sv_conn := fold write_lines (map ser xs) (sv_conn sv)\<rparr>)"
  by (induction xs arbitrary: sv) (simp_all add: ret_def seq_def bnd_def sv_run)

lemma for_each_write_infos:
  "for_each is (\<lambda>i. bnd (gets (\<lambda>sv. getInstanceInfo i (c_world (sv_ctl sv)))) (\<lambda>info.
       sv_write_lines (InstanceInfo_serialize info))) sv
    = (Inr (), sv\<lparr>sv_conn := fold write_lines
        (map (\<lambda>i. InstanceInfo_serialize (getInstanceInfo i (c_world (sv_ctl sv)))) is) (sv_conn sv)\<rparr>)"
  by (induction "is" arbitrary: sv) (simp_all add: ret_def seq_def bnd_def gets_def sv_run)

text \<open>
  A request that is processed to its end, with its reply written and counted, is an answer.
\<close>

lemma request_answers:
  assumes ready: "sv_ready (n + k + 2) sv" and cmds: "sendable commands"
    and run: "request os commands sv = (Inr (), sv\<lparr>sv_ctl := c, sv_conn := Socket_send s'\<rparr>)"
    and out: "writes k ds (sv_conn sv) s'" "0 < k"
    and reply: "wire ds @ CRLF = frame reply" "frame_ok reply"
  shows "\<exists>sv'. answers (controller_react os) sv commands reply sv'
    \<and> sv_ready n sv' \<and> sv_ctl sv' = c"
proof -
  let ?conn = "sv_conn sv" and ?sv' = "sv\<lparr>sv_ctl := c, sv_conn := Socket_send s'\<rparr>"
  have q: "quiet (n + k + 2) ?conn" "sv_fault sv = None" using ready by (simp_all add: sv_ready_def)
  note sent = writes_sent [OF out(1) q(1) out(2)]
  have s': "s_in s' = []" "\<not> s_closed s'" using out(1) q(1) by (simp_all add: writes_def quiet_def)
  have "Socket_read (?conn\<lparr>s_in := frame commands\<rparr>) = (Inr commands, ?conn\<lparr>s_in := []\<rparr>)"
    using Socket_read_frame [of commands "?conn\<lparr>s_in := frame commands\<rparr>" "[]"] cmds
    by (simp add: frame_ok_def)
  moreover have "?conn\<lparr>s_in := []\<rparr> = ?conn" using q(1) by (simp add: quiet_def)
  ultimately have "serve os (sv\<lparr>sv_conn := ?conn\<lparr>s_in := frame commands\<rparr>\<rparr>) = serve os ?sv'"
    using run by (simp add: serve.simps [of os "sv\<lparr>sv_conn := ?conn\<lparr>s_in := frame commands\<rparr>\<rparr>"])
  also have "\<dots> = (Blocks, ?sv')"
    using s' by (simp add: serve.simps [of os ?sv'] Socket_read_decodes stuck_def)
  finally have "controller_react os (frame commands) sv
      = ((frame reply, False), ?sv'\<lparr>sv_conn := (Socket_send s')\<lparr>s_out := []\<rparr>, sv_fault := None\<rparr>)"
    using q sent(1) reply(1) by (simp add: controller_react_def quiet_def)
  then show ?thesis
    using sent(2) reply(2) by (auto simp: answers_def sv_ready_def)
qed

lemma request_run:
  assumes "processing cmd (sv_ctl sv) = (Inr (), c)"
    and "dispatch os cmd (cmd # args) (sv\<lparr>sv_ctl := c\<rparr>) = (Inr (), sv')"
  shows "request os (cmd # args) sv = (Inr (), sv'\<lparr>sv_conn := Socket_send (sv_conn sv')\<rparr>)"
  using assms
  by (simp add: request_def vec_at_checked_def processing_def seq_def bnd_def of_res_def sv_run)

lemma cmd_instantiate_run:
  assumes "InstanceInfo_deserialize args = Inr inst"
  shows "cmd_instantiate os args sv =
    (case new_or_echo os inst (sv_ctl sv) of (r, c) \<Rightarrow>
       (case r of
          Inl f \<Rightarrow> (Inl f, sv\<lparr>sv_ctl := c\<rparr>)
        | Inr i \<Rightarrow> (Inr (), sv\<lparr>sv_ctl := c, sv_conn := write_lines (InstanceInfo_serialize i) (sv_conn sv)\<rparr>)))"
proof (cases "map_find (getTemplates (sv_ctl sv)) (ii_templ inst)")
  case None
  let ?log = "onw (log_warn (''non-existent template '' @ ii_templ inst @ '' instantiation required''))"
  obtain r c where l: "?log (sv_ctl sv) = (r, c)" by (cases "?log (sv_ctl sv)")
  show ?thesis
    using None assms l
    by (simp add: cmd_instantiate_def new_or_echo_def try_catch_def seq_def bnd_def of_res_def
        gets_def ret_def sv_run split: sum.split fault.split del: append.simps append_assoc)
next
  case (Some t)
  let ?new = "instantiate os t (ii_memory inst) (ii_cpus inst)"
  obtain r c where "?new (sv_ctl sv) = (r, c)" by (cases "?new (sv_ctl sv)")
  with Some assms show ?thesis
    by (simp add: cmd_instantiate_def new_or_echo_def try_catch_def seq_def bnd_def of_res_def
        gets_def ret_def sv_run split: sum.split fault.split)
qed

lemma try_sv_do:
  "try_catch p (bnd (of_res q) (\<lambda>x. sv_do (f x))) (\<lambda>_. ret b) sv =
    (case try_catch p (bnd (of_res q) f) (\<lambda>_. ret b) (sv_ctl sv) of (r, c) \<Rightarrow> (r, sv\<lparr>sv_ctl := c\<rparr>))"
  by (cases q) (auto simp: try_catch_def bnd_def of_res_def ret_def sv_run split: prod.splits sum.splits fault.splits)

lemma cmd_by_number_run:
  "cmd_run os [cmd, d] sv =
    (case by_number (run os) d (sv_ctl sv) of (r, c) \<Rightarrow>
       (case r of Inl f \<Rightarrow> (Inl f, sv\<lparr>sv_ctl := c\<rparr>)
        | Inr b \<Rightarrow> (Inr (), sv\<lparr>sv_ctl := c, sv_conn := write_line (to_string (bool_int b)) (sv_conn sv)\<rparr>)))"
  "cmd_kill [cmd, d] sv =
    (case by_number kill d (sv_ctl sv) of (r, c) \<Rightarrow>
       (case r of Inl f \<Rightarrow> (Inl f, sv\<lparr>sv_ctl := c\<rparr>)
        | Inr b \<Rightarrow> (Inr (), sv\<lparr>sv_ctl := c, sv_conn := write_line (to_string (bool_int b)) (sv_conn sv)\<rparr>)))"
proof -
  have arg: "bnd (of_res (vec_at [cmd, d] 1)) k = k d" for k :: "string \<Rightarrow> (server, bool) M"
    by (simp add: vec_at_def of_res_def bnd_def)
  show
    "cmd_run os [cmd, d] sv =
      (case by_number (run os) d (sv_ctl sv) of (r, c) \<Rightarrow>
         (case r of Inl f \<Rightarrow> (Inl f, sv\<lparr>sv_ctl := c\<rparr>)
          | Inr b \<Rightarrow> (Inr (), sv\<lparr>sv_ctl := c, sv_conn := write_line (to_string (bool_int b)) (sv_conn sv)\<rparr>)))"
    "cmd_kill [cmd, d] sv =
      (case by_number kill d (sv_ctl sv) of (r, c) \<Rightarrow>
         (case r of Inl f \<Rightarrow> (Inl f, sv\<lparr>sv_ctl := c\<rparr>)
          | Inr b \<Rightarrow> (Inr (), sv\<lparr>sv_ctl := c, sv_conn := write_line (to_string (bool_int b)) (sv_conn sv)\<rparr>)))"
    unfolding cmd_run_def cmd_kill_def arg by_number_def
    by (simp_all add: bnd_def [of "try_catch _ _ _"] try_sv_do sv_run split: prod.split sum.split)
qed

lemma cmd_getInstances_run:
  "getInstances (sv_ctl sv) \<noteq> [] \<Longrightarrow> cmd_getInstances sv
    = (Inr (), sv\<lparr>sv_conn := fold write_lines (map InstanceInfo_serialize (infos (sv_ctl sv))) (sv_conn sv)\<rparr>)"
  by (simp add: cmd_getInstances_def bnd_gets for_each_write_infos infos_def comp_def)

lemma node_templates:
  assumes ready: "sv_ready (n + cost (concat (map Template_serialize ts))) sv"
    and op: "ctl_templates (sv_ctl sv) = (Inr ts, v)"
    and ts: "ts \<noteq> []"
    and ok: "frame_ok (concat (map Template_serialize ts))"
  shows "\<exists>r'. answers (controller_react os) sv [''getTemplates''] (concat (map Template_serialize ts)) r'
    \<and> sv_ready n r' \<and> sv_ctl r' = v"
proof -
  let ?reply = "concat (map Template_serialize ts)"
  have log: "processing ''getTemplates'' (sv_ctl sv) = (Inr (), v)" and vals: "ts = map_values (getTemplates v)"
    using op by (auto simp: ctl_templates_def seq_Inr_iff gets_def)
  have ne: "?reply \<noteq> []" using ts template_codec.ser_ne by (cases ts) auto
  let ?s' = "fold write_lines (map Template_serialize ts) (sv_conn sv)"
  have "request os [''getTemplates''] sv = (Inr (), sv\<lparr>sv_ctl := v, sv_conn := Socket_send ?s'\<rparr>)"
    using request_run [OF log, of os "[]"] vals
    by (simp add: dispatch_def cmd_getTemplates_def bnd_def gets_def for_each_write)
  moreover have "sv_ready (n + 2 * length ?reply + 2) sv"
    using ready by (auto simp: cost_def sv_ready_def intro: quiet_mono)
  moreover have "sendable [''getTemplates'']" by (simp add: sendable_words)
  ultimately show ?thesis
    using writes_fold [of "map Template_serialize ts" "sv_conn sv"] ne ok
    by (intro request_answers) (auto simp: frame_def)
qed

lemma node_instances:
  assumes ready: "sv_ready (n + cost (concat (map InstanceInfo_serialize xs))) sv"
    and op: "ctl_instances (sv_ctl sv) = (Inr xs, v)"
    and ok: "frame_ok (concat (map InstanceInfo_serialize xs))"
  shows "\<exists>r'. answers (controller_react os) sv [''getInstances''] (concat (map InstanceInfo_serialize xs)) r'
    \<and> sv_ready n r' \<and> sv_ctl r' = v"
proof -
  let ?reply = "concat (map InstanceInfo_serialize xs)"
  have log: "processing ''getInstances'' (sv_ctl sv) = (Inr (), v)" and vals: "xs = infos v"
    using op by (auto simp: ctl_instances_def seq_Inr_iff gets_def)
  have rdy: "sv_ready (n + 2 * length ?reply + 2) sv" "sv_ready (n + 1 + 2) sv"
    using ready by (auto simp: cost_def sv_ready_def intro: quiet_mono)
  have req: "sendable [''getInstances'']" by (simp add: sendable_words)
  show ?thesis
  proof (cases "xs = []")
    case True
    then have "request os [''getInstances''] sv
        = (Inr (), sv\<lparr>sv_ctl := v, sv_conn := Socket_send (write_line [] (sv_conn sv))\<rparr>)"
      using request_run [OF log, of os "[]"] vals
      by (simp add: dispatch_def cmd_getInstances_def infos_def map_values_def bnd_def gets_def sv_run)
    then show ?thesis
      using True writes_line [of "[]" "sv_conn sv"] ok
      by (intro request_answers [OF rdy(2) req]) (auto simp: frame_def)
  next
    case False
    then have ne: "?reply \<noteq> []" using info_codec.ser_ne by (cases xs) auto
    let ?s' = "fold write_lines (map InstanceInfo_serialize xs) (sv_conn sv)"
    have "request os [''getInstances''] sv = (Inr (), sv\<lparr>sv_ctl := v, sv_conn := Socket_send ?s'\<rparr>)"
      using request_run [OF log, of os "[]"] vals False
      by (simp add: dispatch_def cmd_getInstances_run infos_def map_values_def)
    then show ?thesis
      using writes_fold [of "map InstanceInfo_serialize xs" "sv_conn sv"] ne ok
      by (intro request_answers [OF rdy(1) req]) (auto simp: frame_def)
  qed
qed

lemma node_new:
  assumes ready: "sv_ready (n + 15) sv"
    and op: "ctl_new os name memory cpus (sv_ctl sv) = (Inr i, v)"
    and name: "word_line name"
    and ints: "in_int memory" "in_int cpus"
    and ok: "frame_ok (InstanceInfo_serialize i)"
  shows "\<exists>r'. answers (controller_react os) sv (''instantiate'' # (new_request name memory cpus)) (InstanceInfo_serialize i) r'
    \<and> sv_ready n r' \<and> sv_ctl r' = v"
proof -
  let ?req = "new_request name memory cpus" and ?reply = "InstanceInfo_serialize i"
  have inst: "InstanceInfo_deserialize ?req = Inr (echo_info name memory cpus)"
    unfolding new_request_def echo_info_def using ints by (intro InstanceInfo_roundtrip_ok) (simp add: info_ok_def)
  obtain c where log: "processing ''instantiate'' (sv_ctl sv) = (Inr (), c)"
    and new: "new_or_echo os (echo_info name memory cpus) c = (Inr i, v)"
    using op by (auto simp: ctl_new_def seq_Inr_iff)
  have "request os (''instantiate'' # ?req) sv
      = (Inr (), sv\<lparr>sv_ctl := v, sv_conn := Socket_send (write_lines ?reply (sv_conn sv))\<rparr>)"
    using request_run [OF log, of os ?req] by (simp add: dispatch_def cmd_instantiate_run [OF inst] new)
  moreover have "length ?reply = 6" by (simp add: InstanceInfo_serialize_def)
  moreover have "?reply \<noteq> []" by (rule info_codec.ser_ne)
  moreover have "sv_ready (n + 12 + 2) sv" using ready by (auto simp: sv_ready_def intro: quiet_mono)
  moreover have "sendable (''instantiate'' # ?req)"
    using name by (intro sendable_words) (simp_all add: new_request_def InstanceInfo_serialize_def word_line_def)
  ultimately show ?thesis
    using writes_lines [of ?reply "sv_conn sv"] ok by (intro request_answers) (auto simp: frame_def)
qed

lemma node_run:
  assumes ready: "sv_ready (n + 5) sv"
    and op: "ctl_run os d (sv_ctl sv) = (Inr b, v)"
    and d: "word_line d"
  shows "\<exists>r'. answers (controller_react os) sv [''run'', d] [to_string (bool_int b)] r'
    \<and> sv_ready n r' \<and> sv_ctl r' = v"
proof -
  obtain c where log: "processing ''run'' (sv_ctl sv) = (Inr (), c)" and "by_number (run os) d c = (Inr b, v)"
    using op by (auto simp: ctl_run_def seq_Inr_iff)
  then have "request os [''run'', d] sv
      = (Inr (), sv\<lparr>sv_ctl := v, sv_conn := Socket_send (write_line (to_string (bool_int b)) (sv_conn sv))\<rparr>)"
    using request_run [OF log, of os "[d]"] by (simp add: dispatch_def cmd_by_number_run)
  moreover have "sendable [''run'', d]" using d by (simp add: sendable_words)
  moreover have "sv_ready (n + 1 + 2) sv" using ready by (auto simp: sv_ready_def intro: quiet_mono)
  ultimately show ?thesis
    using writes_line [of "to_string (bool_int b)" "sv_conn sv"] frame_ok_bool
    by (intro request_answers) (auto simp: frame_def)
qed

lemma node_kill:
  assumes ready: "sv_ready (n + 5) sv"
    and op: "ctl_kill d (sv_ctl sv) = (Inr b, v)"
    and d: "word_line d"
  shows "\<exists>r'. answers (controller_react os) sv [''kill'', d] [to_string (bool_int b)] r'
    \<and> sv_ready n r' \<and> sv_ctl r' = v"
proof -
  obtain c where log: "processing ''kill'' (sv_ctl sv) = (Inr (), c)" and "by_number kill d c = (Inr b, v)"
    using op by (auto simp: ctl_kill_def seq_Inr_iff)
  then have "request os [''kill'', d] sv
      = (Inr (), sv\<lparr>sv_ctl := v, sv_conn := Socket_send (write_line (to_string (bool_int b)) (sv_conn sv))\<rparr>)"
    using request_run [OF log, of os "[d]"] by (simp add: dispatch_def cmd_by_number_run)
  moreover have "sendable [''kill'', d]" using d by (simp add: sendable_words)
  moreover have "sv_ready (n + 1 + 2) sv" using ready by (auto simp: sv_ready_def intro: quiet_mono)
  ultimately show ?thesis
    using writes_line [of "to_string (bool_int b)" "sv_conn sv"] frame_ok_bool
    by (intro request_answers) (auto simp: frame_def)
qed

interpretation node: service "controller_react os" sv_ready sv_ctl
  ctl_templates ctl_instances "ctl_new os" "ctl_run os" ctl_kill
proof
  show "sv_ready m r \<Longrightarrow> n \<le> m \<Longrightarrow> sv_ready n r" for m n r
    by (auto simp: sv_ready_def intro: quiet_mono)
qed (rule node_templates node_instances node_new node_run node_kill; assumption)+

end
