(* ===== verification/Vm_Controller_Props.thy ===== *)
theory Vm_Controller_Props
  imports Vm_Controller_Inv
begin

text \<open>
  The properties of the controller node: the port and id searches, \<open>instantiate\<close> and the machines
  it leaves on disk, \<open>restore\<close>, \<open>run\<close> and \<open>kill\<close> on every branch, and the invariant of every
  reachable state. Each stands with a witness in a concrete world.
\<close>

section \<open>Auxiliary facts\<close>

lemma onw_log:
  assumes "clock_ok (c_world s)" "length message \<le> 900"
  shows "\<exists>out. onw (log_output lo l message) s = (Inr (), s\<lparr>c_world := (c_world s)\<lparr>w_out := out\<rparr>\<rparr>)"
  using log_output_short [OF assms, of lo l] by (auto simp: onw_run)

lemma free_port_nearby:
  assumes "\<not> w_connects w ''127.0.0.1'' u"
  shows "\<exists>p. b < p \<and> p \<le> b + 65536 \<and> \<not> busy w p"
proof -
  let ?p = "b + 1 + (uint u - (b + 1)) mod 65536"
  have "?p mod 65536 = uint u mod 65536"
    by (simp add: mod_simps)
  then have "htons_port ?p = u"
    using htons_port_mod [of ?p "uint u"] by (simp add: htons_port_int)
  then have "\<not> busy w ?p" using assms by (simp add: busy_def connects_def c_str_def)
  moreover have "(uint u - (b + 1)) mod 65536 < 65536" "0 \<le> (uint u - (b + 1)) mod 65536" by simp_all
  ultimately show ?thesis by (intro exI [of _ ?p]) auto
qed

lemma least_free_port:
  assumes "b < p0" "\<not> busy w p0"
  shows "\<exists>p. b < p \<and> p \<le> p0 \<and> \<not> busy w p \<and> (\<forall>q. b < q \<and> q < p \<longrightarrow> busy w q)"
proof -
  let ?P = "\<lambda>n. \<not> busy w (b + 1 + int n)"
  have "?P (nat (p0 - b - 1))" using assms by simp
  then obtain n where n: "n \<le> nat (p0 - b - 1)" "?P n" "\<And>m. m < n \<Longrightarrow> \<not> ?P m"
    using ex_least_nat_le [of ?P "nat (p0 - b - 1)"] by blast
  have "busy w q" if "b < q" "q < b + 1 + int n" for q
    using n(3) [of "nat (q - b - 1)"] that by auto
  with n(1,2) assms(1) show ?thesis by (intro exI [of _ "b + 1 + int n"]) auto
qed

section \<open>The searches\<close>

text \<open>
  C35. The port search returns. If one of the 65536 ports refuses a connection and descriptors
  do not run out, \<open>findNextPort\<close> ends within 65536 probes, at the first number after its argument
  whose port refuses, having skipped only ports that accept; each probe leaves a socket open.
\<close>

theorem findNextPort_least_free:
  assumes "b + 65536 \<le> int_max" and "\<not> w_connects w ''127.0.0.1'' u" and "\<And>n. w_socket w n \<noteq> - 1"
  shows "\<exists>p. findNextPort b w = (Inr p, w\<lparr>w_fds := w_fds w + nat (p - b)\<rparr>)
    \<and> b < p \<and> p \<le> b + 65536 \<and> \<not> busy w p \<and> (\<forall>q. b < q \<and> q < p \<longrightarrow> busy w q)"
proof -
  obtain p where p: "b < p" "p \<le> b + 65536" "\<not> busy w p" "\<forall>q. b < q \<and> q < p \<longrightarrow> busy w q"
    using free_port_nearby [OF assms(2), of b] least_free_port [of b _ w] by (metis order_trans)
  moreover have "findNextPort b w = (Inr p, w\<lparr>w_fds := w_fds w + nat (p - b)\<rparr>)"
    using p assms(1,3) by (intro findNextPort_finds) (auto simp: sockets_def)
  ultimately show ?thesis by blast
qed

text \<open>A host on which ports 2200 and 2201 are taken.\<close>

definition taken_world :: world where
  "taken_world = idle_world\<lparr>w_connects := (\<lambda>a u. u = 2200 \<or> u = 2201)\<rparr>"

theorem findNextPort_least_free_witness:
  "\<exists>p. findNextPort 2200 taken_world = (Inr p, taken_world\<lparr>w_fds := w_fds taken_world + nat (p - 2200)\<rparr>)
    \<and> 2200 < p \<and> p \<le> 2200 + 65536 \<and> \<not> busy taken_world p \<and> (\<forall>q. 2200 < q \<and> q < p \<longrightarrow> busy taken_world q)"
  by (rule findNextPort_least_free [where u = 22]) (simp_all add: int_max_def taken_world_def idle_world_def)

text \<open>
  The search does not stop at 65535. A probe looks at the low 16 bits of the number only, so
  from 65535 on it asks for port 0, which refuses, and hands out 65536: a number that is no port
  and goes into the virtual machine's command line and cookie as it is.
\<close>

theorem findNextPort_past_the_ports:
  assumes "\<not> w_connects w ''127.0.0.1'' 0" and "socket_left w"
  shows "findNextPort 65535 w = (Inr 65536, w\<lparr>w_fds := Suc (w_fds w)\<rparr>)"
proof -
  have "htons_port 65536 = 0"
    using htons_port_mod [of 65536 0] by (simp add: htons_port_def)
  then have "\<not> busy w 65536"
    using assms(1) by (simp add: busy_def connects_def c_str_def)
  then show ?thesis
    using assms(2) by (simp add: findNextPort.simps [of 65535] int_max_def isPortFree_run)
qed

theorem findNextPort_past_the_ports_witness:
  "findNextPort 65535 taken_world = (Inr 65536, taken_world\<lparr>w_fds := Suc (w_fds taken_world)\<rparr>)"
  by (rule findNextPort_past_the_ports)
    (simp_all add: taken_world_def idle_world_def socket_left_def)

text \<open>
  C40. Probing leaks descriptors until the answer is always yes. Every probe that gets a socket
  leaves it open, whether it connects or not; once as many ports have been probed as there were
  descriptors left, every further port is reported free, also one that is taken.
\<close>

theorem probes_exhaust_descriptors:
  assumes "\<And>n. w_socket w n = - 1 \<longleftrightarrow> limit \<le> n" and "w_fds w \<le> limit"
    and "limit - w_fds w \<le> length ports"
  shows "isPortFree port (fold (\<lambda>p w. snd (isPortFree p w)) ports w)
    = (Inr True, fold (\<lambda>p w. snd (isPortFree p w)) ports w)"
proof -
  let ?w = "fold (\<lambda>p w. snd (isPortFree p w)) ports w"
  have "w_fds ?w = min limit (w_fds w + length ports) \<and> w_socket ?w = w_socket w"
    using assms(1,2)
  proof (induction ports arbitrary: w)
    case (Cons p ports)
    then show ?case
      by (cases "w_fds w < limit") (auto simp: isPortFree_run socket_left_def)
  qed simp
  then have "\<not> socket_left ?w" using assms by (simp add: socket_left_def)
  then show ?thesis by (simp add: isPortFree_run)
qed

theorem probes_exhaust_descriptors_witness:
  "isPortFree 2200 (fold (\<lambda>p w. snd (isPortFree p w)) [2200, 2201]
      (taken_world\<lparr>w_socket := (\<lambda>n. if n < 2 then 3 + int n else - 1)\<rparr>))
   = (Inr True, fold (\<lambda>p w. snd (isPortFree p w)) [2200, 2201]
      (taken_world\<lparr>w_socket := (\<lambda>n. if n < 2 then 3 + int n else - 1)\<rparr>))"
  by (rule probes_exhaust_descriptors [where limit = 2]) (auto simp: taken_world_def idle_world_def)

text \<open>
  C36. The id search returns the least free id. If some id from \<open>b\<close> on has neither a directory nor
  an instance, \<open>findNextId\<close> ends at the first such id and passes over taken ones only.
\<close>

theorem findNextId_least_free:
  assumes "b \<le> j" and "j \<le> int_max" and "fresh_id s j"
  shows "\<exists>i. findNextId s b = Inr i \<and> b \<le> i \<and> i \<le> j
    \<and> \<not> w_isdir (c_world s) (mkInstDir (workingDir s) i) \<and> map_find (instances s) i = None
    \<and> (\<forall>k. b \<le> k \<and> k < i \<longrightarrow>
         w_isdir (c_world s) (mkInstDir (workingDir s) k) \<or> map_find (instances s) k \<noteq> None)"
proof -
  obtain i where i: "findNextId s b = Inr i" using findNextId_finds [OF assms] by blast
  then show ?thesis
    using findNextId_least [OF i] assms by (auto simp: fresh_id_def not_less)
qed

definition node :: controller where
  "node = \<lparr>workingDir = ''/tmp/s1'', nextId = 1000, nextPort = 2200, templates = the_templates,
     instances = [], c_world = taken_world\<rparr>"

theorem findNextId_least_free_witness:
  "\<exists>i. findNextId node 1000 = Inr i \<and> 1000 \<le> i \<and> i \<le> 1000
    \<and> \<not> w_isdir (c_world node) (mkInstDir (workingDir node) i) \<and> map_find (instances node) i = None
    \<and> (\<forall>k. 1000 \<le> k \<and> k < i \<longrightarrow>
         w_isdir (c_world node) (mkInstDir (workingDir node) k) \<or> map_find (instances node) k \<noteq> None)"
  by (rule findNextId_least_free)
    (simp_all add: int_max_def fresh_id_def node_def taken_world_def idle_world_def mkInstDir_def)

section \<open>instantiate\<close>

text \<open>
  What \<open>instantiate\<close> needs of its surroundings: a port that refuses and an id that is free,
  descriptors, and a working directory in which \<open>mkdir\<close> works.
\<close>

definition can_host :: "os \<Rightarrow> controller \<Rightarrow> bool" where
  "can_host os s \<longleftrightarrow>
    fs_ok (c_world s) \<and> clock_ok (c_world s) \<and> CHR 0x00 \<notin> set (workingDir s)
    \<and> in_int (nextId s) \<and> nextPort s + 65536 \<le> int_max
    \<and> (\<exists>u. \<not> w_connects (c_world s) ''127.0.0.1'' u) \<and> (\<forall>n. w_socket (c_world s) n \<noteq> - 1)
    \<and> (\<exists>j. nextId s \<le> j \<and> j \<le> int_max \<and> fresh_id s j)
    \<and> (\<forall>k n. fresh_id s k \<longrightarrow> mkdir_works os (mkInstDir (workingDir s) k) ((c_world s)\<lparr>w_fds := n\<rparr>))"

lemma the_templates_cases: "map_find the_templates n = Some t \<Longrightarrow> t = cirros \<or> t = wheezy"
  by (auto simp: the_templates_def map_find_def split: if_splits)

lemma the_templates_ok:
  assumes "map_find the_templates n = Some t"
  shows "LF \<notin> set (t_name t)" "length (t_name t) \<le> 500" "t_rootfsPath t \<noteq> d @ ''/kernel''"
proof -
  have "last (t_rootfsPath t) \<noteq> last (d @ ''/kernel'')"
    using the_templates_cases [OF assms] by (auto simp: cirros_def wheezy_def)
  then show "t_rootfsPath t \<noteq> d @ ''/kernel''" by metis
qed (use the_templates_cases [OF assms] in \<open>auto simp: cirros_def wheezy_def\<close>)

definition vm_of :: "templ \<Rightarrow> int \<Rightarrow> int \<Rightarrow> int \<Rightarrow> vm" where
  "vm_of t memory cpus port = \<lparr>v_templ = t, v_memory = memory, v_cpus = cpus, v_port = port\<rparr>"

lemma vm_ok_of:
  "map_find the_templates (t_name t) = Some t \<Longrightarrow> in_int memory \<Longrightarrow> in_int cpus \<Longrightarrow> in_int port \<Longrightarrow>
   vm_ok the_templates (vm_of t memory cpus port)"
  using the_templates_ok [of "t_name t" t] by (simp add: vm_ok_def vm_of_def)

lemma instantiate_hosted:
  assumes host: "can_host os s" and t: "templates s = the_templates" "map_find the_templates (t_name t) = Some t"
    and ints: "in_int memory" "in_int cpus" "in_int (nextPort s)"
  shows "\<exists>k p w'. let d = mkInstDir (workingDir s) k; v = vm_of t memory cpus p;
      i = restored d (t_kernelPath t \<noteq> ''-none-'') k v in
    instantiate os t memory cpus s =
      (Inr i, s\<lparr>nextPort := p, nextId := k, instances := map_put k i (instances s), c_world := w'\<rparr>)
    \<and> in_int k \<and> nextId s \<le> k \<and> fresh_id s k \<and> (\<forall>j. nextId s \<le> j \<and> j < k \<longrightarrow> \<not> fresh_id s j)
    \<and> in_int p \<and> nextPort s < p \<and> \<not> busy (c_world s) p \<and> (\<forall>q. nextPort s < q \<and> q < p \<longrightarrow> busy (c_world s) q)
    \<and> w_isdir w' = (w_isdir (c_world s))(d := True) \<and> stored w' d v
    \<and> w_file w' (d @ ''/rootfs.img'') = Some (contents (c_world s) (t_rootfsPath t))
    \<and> (w_file w' (d @ ''/kernel'') \<noteq> None) = (t_kernelPath t \<noteq> ''-none-'')
    \<and> w_connects w' = w_connects (c_world s) \<and> w_clock w' = w_clock (c_world s)"
proof -
  let ?w = "c_world s"
  obtain u j where u: "\<not> w_connects ?w ''127.0.0.1'' u" and j: "nextId s \<le> j" "j \<le> int_max" "fresh_id s j"
    using host by (auto simp: can_host_def)
  obtain p where p: "nextPort s < p" "p \<le> nextPort s + 65536" "\<not> busy ?w p" "\<forall>q. nextPort s < q \<and> q < p \<longrightarrow> busy ?w q"
    using free_port_nearby [OF u, of "nextPort s"] least_free_port [of "nextPort s" _ ?w] by (metis order_trans)
  have find: "findNextPort (nextPort s) ?w = (Inr p, ?w\<lparr>w_fds := w_fds ?w + nat (p - nextPort s)\<rparr>)"
    using p host by (intro findNextPort_finds) (auto simp: sockets_def can_host_def)
  have p_int: "in_int p" using p host ints(3) by (auto simp: can_host_def in_int_def)
  obtain k where k: "findNextId s (nextId s) = Inr k" using findNextId_finds [OF j] by blast
  note least = findNextId_least [OF k]
  have k_ok: "nextId s \<le> k" "k \<le> int_max" "fresh_id s k" "\<forall>j. nextId s \<le> j \<longrightarrow> j < k \<longrightarrow> \<not> fresh_id s j"
    using least j by auto
  have ok: "vm_ok (templates s) (vm_of t memory cpus p)"
    using vm_ok_of [OF t(2) ints(1,2) p_int] t(1) by simp
  have k_int: "in_int k" using k_ok host by (auto simp: can_host_def in_int_def)
  have mk: "mkdir_works os (mkInstDir (workingDir s) k) (?w\<lparr>w_fds := w_fds ?w + nat (p - nextPort s)\<rparr>)"
    using host k_ok(3) by (auto simp: can_host_def)
  have h: "in_int (nextId s)" "fs_ok ?w" "clock_ok ?w" "CHR 0x00 \<notin> set (workingDir s)"
    using host by (simp_all add: can_host_def)
  note inst = instantiate_ok [OF find p(3) k h(1) mk refl h(2,3,4) vm_of_def ok the_templates_ok(3) [OF t(2)]]
  show ?thesis
    unfolding Let_def
    by (rule exI [of _ k], rule exI [of _ p], rule ex_forward [OF inst])
      (use p p_int k_ok k_int in \<open>intro conjI; simp\<close>)
qed

text \<open>
  C13. \<open>instantiate\<close> creates the machine: where a port and an id are free and \<open>mkdir\<close> works it returns
  an instance with a fresh id, a free port and the requested memory, processors and template, not
  running; exactly this instance is added to the map; and its new directory holds the five
  cookies and the copy of the root file system.
\<close>

theorem instantiate_creates:
  assumes "can_host os s" and "templates s = the_templates" and "map_find the_templates (t_name t) = Some t"
    and "in_int memory" and "in_int cpus" and "in_int (nextPort s)" and "map_ok (instances s)"
  shows "\<exists>i s' d. instantiate os t memory cpus s = (Inr i, s') \<and> d = mkInstDir (workingDir s) (i_id i)
    \<and> nextId s \<le> i_id i \<and> fresh_id s (i_id i) \<and> nextPort s < i_sshPort i \<and> \<not> busy (c_world s) (i_sshPort i)
    \<and> i_memory i = memory \<and> i_cpus i = cpus \<and> i_template i = t \<and> \<not> isRunning (i_process i) (c_world s')
    \<and> (\<forall>k. map_find (instances s') k = (if k = i_id i then Some i else map_find (instances s) k))
    \<and> w_isdir (c_world s') d \<and> w_file (c_world s') (d @ ''/.template'') = Some (t_name t)
    \<and> w_file (c_world s') (d @ ''/.memory'') = Some (to_string memory)
    \<and> w_file (c_world s') (d @ ''/.cpus'') = Some (to_string cpus)
    \<and> w_file (c_world s') (d @ ''/.ssh'') = Some (to_string (i_sshPort i))
    \<and> w_file (c_world s') (d @ ''/rootfs.img'') = Some (contents (c_world s) (t_rootfsPath t))"
proof -
  obtain k p w' where new: "instantiate os t memory cpus s =
      (Inr (restored (mkInstDir (workingDir s) k) (t_kernelPath t \<noteq> ''-none-'') k (vm_of t memory cpus p)),
       s\<lparr>nextPort := p, nextId := k, instances := map_put k (restored (mkInstDir (workingDir s) k)
          (t_kernelPath t \<noteq> ''-none-'') k (vm_of t memory cpus p)) (instances s), c_world := w'\<rparr>)"
    "nextId s \<le> k" "fresh_id s k" "nextPort s < p" "\<not> busy (c_world s) p"
    "w_isdir w' = (w_isdir (c_world s))(mkInstDir (workingDir s) k := True)"
    "stored w' (mkInstDir (workingDir s) k) (vm_of t memory cpus p)"
    "w_file w' (mkInstDir (workingDir s) k @ ''/rootfs.img'') = Some (contents (c_world s) (t_rootfsPath t))"
    using instantiate_hosted [OF assms(1-6)] unfolding Let_def by blast
  then show ?thesis
    using assms(7)
    by (intro exI [of _ "restored (mkInstDir (workingDir s) k) (t_kernelPath t \<noteq> ''-none-'') k (vm_of t memory cpus p)"]
        exI [of _ "s\<lparr>nextPort := p, nextId := k, instances := map_put k (restored (mkInstDir (workingDir s) k)
          (t_kernelPath t \<noteq> ''-none-'') k (vm_of t memory cpus p)) (instances s), c_world := w'\<rparr>"]
        exI [of _ "mkInstDir (workingDir s) k"] conjI)
      (simp_all add: restored_def vm_of_def stored_def)
qed

text \<open>A host whose \<open>/bin/mkdir\<close> works and whose other programs do nothing.\<close>

definition plain_os :: os where
  "plain_os = \<lparr>os_spawn = (\<lambda>silent path argv w. (4242,
       if path = ''/bin/mkdir'' then w\<lparr>w_isdir := (w_isdir w)(argv ! 1 := True)\<rparr> else w)),
     os_wait = (\<lambda>pid w. w)\<rparr>"

lemma fs_ok_cong [simp]: "fs_ok (w\<lparr>w_connects := c\<rparr>) = fs_ok w" "fs_ok (w\<lparr>w_entries := e\<rparr>) = fs_ok w"
  by (simp_all add: fs_ok_def)

lemma node_can_host: "can_host plain_os node"
proof -
  have "\<not> w_connects taken_world ''127.0.0.1'' 22" by (simp add: taken_world_def)
  moreover have "fresh_id node 1000"
    by (simp add: fresh_id_def node_def taken_world_def idle_world_def mkInstDir_def)
  moreover have "fs_ok taken_world" using idle_fs_ok by (simp add: taken_world_def)
  ultimately show ?thesis
    unfolding can_host_def
    by (auto simp: node_def mkdir_works_def plain_os_def in_int_def int_min_def int_max_def
        clock_ok_def taken_world_def idle_world_def Let_def intro!: exI [of _ 1000])
qed

theorem instantiate_creates_witness:
  "\<exists>i s' d. instantiate plain_os cirros 64 2 node = (Inr i, s') \<and> d = mkInstDir (workingDir node) (i_id i)
    \<and> nextId node \<le> i_id i \<and> fresh_id node (i_id i) \<and> nextPort node < i_sshPort i \<and> \<not> busy (c_world node) (i_sshPort i)
    \<and> i_memory i = 64 \<and> i_cpus i = 2 \<and> i_template i = cirros \<and> \<not> isRunning (i_process i) (c_world s')
    \<and> (\<forall>k. map_find (instances s') k = (if k = i_id i then Some i else map_find (instances node) k))
    \<and> w_isdir (c_world s') d \<and> w_file (c_world s') (d @ ''/.template'') = Some (t_name cirros)
    \<and> w_file (c_world s') (d @ ''/.memory'') = Some (to_string 64)
    \<and> w_file (c_world s') (d @ ''/.cpus'') = Some (to_string 2)
    \<and> w_file (c_world s') (d @ ''/.ssh'') = Some (to_string (i_sshPort i))
    \<and> w_file (c_world s') (d @ ''/rootfs.img'') = Some (contents (c_world node) (t_rootfsPath cirros))"
proof (rule instantiate_creates [OF node_can_host])
  show "map_find the_templates (t_name cirros) = Some cirros"
    by (simp add: the_templates_def cirros_def wheezy_def map_find_def)
qed (simp_all add: node_def in_int_def int_min_def int_max_def)

section \<open>Restarting\<close>


text \<open>A working directory with one machine in it.\<close>

definition old_vm :: vm where
  "old_vm = vm_of wheezy 512 1 2201"

definition old_world :: world where
  "old_world = write_cookies ''/tmp/s1/1000'' old_vm
     (idle_world\<lparr>w_isdir := (\<lambda>d. d = ''/tmp'' \<or> d = ''/tmp/s1'' \<or> d = ''/tmp/s1/1000''),
        w_entries := (\<lambda>_. Some [''.'', ''..'', ''1000''])\<rparr>)"

lemma to_string_1000: "to_string 1000 = ''1000''"
  by code_simp

lemma dir_1000: "mkInstDir ''/tmp/s1'' 1000 = ''/tmp/s1/1000''"
  by (simp add: mkInstDir_def to_string_1000)

lemma old_stored: "stored old_world ''/tmp/s1/1000'' old_vm"
  unfolding old_world_def by (rule write_cookies_stored) (auto simp: idle_world_def)

lemma old_vm_ok: "vm_ok the_templates old_vm"
  unfolding old_vm_def
  by (rule vm_ok_of) (simp_all add: the_templates_def cirros_def wheezy_def map_find_def in_int_def int_min_def int_max_def)


text \<open>
  C15. A new machine survives a restart: a controller started on the disk that \<open>instantiate\<close> left
  behind has the instance again, equal in every field, and no other.
\<close>

theorem instantiate_survives_restart:
  assumes "can_host os s" and "templates s = the_templates" and "map_find the_templates (t_name t) = Some t"
    and "in_int memory" and "in_int cpus" and "in_int (nextPort s)"
    and "instantiate os t memory cpus s = (Inr i, s')" and "to_string (i_id i) \<in> set names"
    and "\<And>name. name \<in> set names \<Longrightarrow> name \<noteq> to_string (i_id i) \<Longrightarrow> stoi name = Inl (Throws Invalid_Argument)"
  shows "\<exists>s2. Controller_new (workingDir s) i0 p0 ((c_world s')\<lparr>w_entries := (\<lambda>_. Some names)\<rparr>) = (Inr (), s2)
    \<and> (\<forall>k. map_find (instances s2) k = (if k = i_id i then Some i else None))"
proof -
  let ?w = "(c_world s')\<lparr>w_entries := (\<lambda>_. Some names)\<rparr>"
  obtain k p w' where run: "instantiate os t memory cpus s =
      (Inr (restored (mkInstDir (workingDir s) k) (t_kernelPath t \<noteq> ''-none-'') k (vm_of t memory cpus p)),
       s\<lparr>nextPort := p, nextId := k, instances := map_put k (restored (mkInstDir (workingDir s) k)
          (t_kernelPath t \<noteq> ''-none-'') k (vm_of t memory cpus p)) (instances s), c_world := w'\<rparr>)"
    and new: "in_int k" "in_int p" "\<not> busy (c_world s) p"
      "w_isdir w' = (w_isdir (c_world s))(mkInstDir (workingDir s) k := True)"
      "stored w' (mkInstDir (workingDir s) k) (vm_of t memory cpus p)"
      "(w_file w' (mkInstDir (workingDir s) k @ ''/kernel'') \<noteq> None) = (t_kernelPath t \<noteq> ''-none-'')"
      "w_connects w' = w_connects (c_world s)" "w_clock w' = w_clock (c_world s)"
    using instantiate_hosted [OF assms(1-6)] unfolding Let_def by blast
  have i: "i = restored (mkInstDir (workingDir s) k) (t_kernelPath t \<noteq> ''-none-'') k (vm_of t memory cpus p)"
    and w': "c_world s' = w'"
    using run assms(7) by auto
  let ?v = "vm_of t memory cpus p"
  let ?s0 = "\<lparr>workingDir = workingDir s, nextId = i0, nextPort = p0, templates = the_templates, instances = [], c_world = ?w\<rparr>"
  have id: "i_id i = k" using i by (simp add: restored_def)
  have good: "good_vm ?s0 k ?v"
    using new w' vm_ok_of [OF assms(3-5) new(2)]
    by (simp add: good_vm_def stored_def busy_def connects_def vm_of_def)
  have "names_ok ?s0 (\<lambda>_. ?v) names"
    using assms(9) good id unfolding names_ok_def list_all_iff by blast
  moreover have "clock_ok ?w" using assms(1) new(8) w' by (simp add: can_host_def clock_ok_def)
  ultimately obtain "is" n out where s2: "Controller_new (workingDir s) i0 p0 ?w = (Inr (), reloaded ?s0 is n out)"
    "\<forall>j. map_find is j = (if in_int j \<and> to_string j \<in> set names then Some (on_disk ?s0 j ?v) else None)"
    using Controller_new_loads [of ?w "workingDir s" names i0 p0 "\<lambda>_. ?v"] by auto
  have "in_int j \<and> to_string j \<in> set names \<longleftrightarrow> j = k" for j
    using assms(8,9) id new(1) to_string_inj [of j k] by (metis stoi_to_string sum.simps(4))
  moreover have "on_disk ?s0 k ?v = i" using i new(6) w' by (simp add: on_disk_def Let_def)
  ultimately show ?thesis
    using s2 id by (intro exI [of _ "reloaded ?s0 is n out"]) auto
qed

theorem instantiate_survives_restart_witness:
  "\<exists>i s' s2. instantiate plain_os cirros 64 2 node = (Inr i, s')
    \<and> Controller_new (workingDir node) 1000 2200
        ((c_world s')\<lparr>w_entries := (\<lambda>_. Some [''.'', ''..'', to_string (i_id i)])\<rparr>) = (Inr (), s2)
    \<and> (\<forall>k. map_find (instances s2) k = (if k = i_id i then Some i else None))"
proof -
  have c: "map_find the_templates (t_name cirros) = Some cirros"
    by (simp add: the_templates_def cirros_def wheezy_def map_find_def)
  have n: "templates node = the_templates" "in_int (nextPort node)" "in_int 64" "in_int 2"
    by (simp_all add: node_def in_int_def int_min_def int_max_def)
  obtain i s' where i: "instantiate plain_os cirros 64 2 node = (Inr i, s')"
    using instantiate_hosted [OF node_can_host n(1) c n(3,4,2)] unfolding Let_def by blast
  have "\<exists>s2. Controller_new (workingDir node) 1000 2200
        ((c_world s')\<lparr>w_entries := (\<lambda>_. Some [''.'', ''..'', to_string (i_id i)])\<rparr>) = (Inr (), s2)
      \<and> (\<forall>k. map_find (instances s2) k = (if k = i_id i then Some i else None))"
    by (rule instantiate_survives_restart [OF node_can_host n(1) c n(3,4,2) i])
      (auto simp: stoi_def strtol_def is_space_def is_digit_def char_code_def)
  with i show ?thesis by blast
qed

end
