(* ===== verification/Vm_Controller_Ops.thy ===== *)
theory Vm_Controller_Ops
  imports Vm_Controller_Props
begin

text \<open>
  The properties of \<open>restore\<close>, \<open>run\<close> and \<open>kill\<close> on their branches, of the constructor's error path,
  and of every state a controller reaches.
\<close>

section \<open>restore\<close>

text \<open>\<open>offline k\<close>: the instance with id \<open>k\<close>, if there is one, was never started.\<close>

definition offline :: "int \<Rightarrow> controller \<Rightarrow> bool" where
  "offline k s \<longleftrightarrow> (\<forall>i. map_find (instances s) k = Some i \<longrightarrow> p_pid (i_process i) = 0)"

lemma keeps_onw_offline: "keeps (offline k) (onw m)"
  unfolding onw_def by (rule yields_zoom) (auto simp: offline_def)

lemma keeps_advancePort_offline: "keeps (offline k) advancePort"
  unfolding advancePort_def
  by (intro yields_bnd_gets keeps_bnd keeps_onw_offline yields_seq yields_modify yields_ret)
    (auto simp: offline_def)

lemma keeps_set_inst_offline: "p_pid (i_process i) = 0 \<Longrightarrow> keeps (offline k) (set_inst k i)"
  unfolding set_inst_def by (rule yields_modify) (auto simp: offline_def map_find_put_eq)

lemma yields_restore_offline: "yields (offline k) (restore k) (\<lambda>i. p_pid (i_process i) = 0)"
  unfolding restore_def Let_def
  by (intro yields_bnd_gets yields_if yields_case_option yields_case_prod yields_throw yields_seq yields_ret
      keeps_bnd keeps_onw_offline keeps_advancePort_offline keeps_set_inst_offline)
    (simp_all add: offline_def Process_new_def)

text \<open>
  A cookie is missing, and the number cookies that are there are not blank (a blank one is
  undefined behaviour, see \<open>cookie_read_int\<close>).
\<close>

definition cookie_absent :: "world \<Rightarrow> string \<Rightarrow> bool" where
  "cookie_absent w d \<longleftrightarrow>
    (w_file w (d @ ''/.template'') = None \<or> w_file w (d @ ''/.memory'') = None
     \<or> w_file w (d @ ''/.cpus'') = None \<or> w_file w (d @ ''/.ssh'') = None \<or> w_file w (d @ ''/.pid'') = None)
    \<and> (\<forall>c \<in> {''/.memory'', ''/.cpus'', ''/.ssh'', ''/.pid''}. \<forall>text.
         w_file w (d @ c) = Some text \<longrightarrow> extract_int text \<noteq> None)"

lemma read_metadata_absent:
  assumes "cookie_absent w d"
  shows "read_metadata d w = (Inl (Throws (restore_error ''vm metadata is corrupted'')), w)"
proof -
  have ints: "extract_int body \<noteq> None"
    if "c \<in> {''/.memory'', ''/.cpus'', ''/.ssh'', ''/.pid''}" "w_file w (d @ c) = Some body" for c body
    using conjunct2 [OF assms [unfolded cookie_absent_def]] that by blast
  note m = ints [of "''/.memory''", simplified] and c = ints [of "''/.cpus''", simplified]
    and s = ints [of "''/.ssh''", simplified] and p = ints [of "''/.pid''", simplified]
  have "w_file w (d @ ''/.template'') = None \<or> w_file w (d @ ''/.memory'') = None
    \<or> w_file w (d @ ''/.cpus'') = None \<or> w_file w (d @ ''/.ssh'') = None \<or> w_file w (d @ ''/.pid'') = None"
    by (rule conjunct1 [OF assms [unfolded cookie_absent_def]])
  then show ?thesis
    unfolding read_metadata_def try_catch_def
    by (cases "w_file w (d @ ''/.template'')"; cases "w_file w (d @ ''/.memory'')"; cases "w_file w (d @ ''/.cpus'')";
        cases "w_file w (d @ ''/.ssh'')"; cases "w_file w (d @ ''/.pid'')")
      (use m c s p in \<open>simp_all add: bnd_def cookie_read_string_run cookie_read_int_run throw_def fail_def
         split: option.split\<close>, auto)
qed

text \<open>
  The checks of \<open>restore\<close>, in their order: no directory is an error, an instance already in
  memory is returned as it is, and a cookie that is missing makes the metadata corrupted. In none
  of these cases does anything change.
\<close>

theorem restore_checks:
  assumes "d = mkInstDir (workingDir s) vmid"
    and "w_isdir (c_world s) d \<Longrightarrow> map_find (instances s) vmid = None \<Longrightarrow> cookie_absent (c_world s) d"
  shows "restore vmid s =
    (if \<not> w_isdir (c_world s) d
     then (Inl (Throws (Util_Exception ''in Controller::restore(int): instnace with given id does not exist'')), s)
     else case map_find (instances s) vmid of
       Some i \<Rightarrow> (Inr i, s)
     | None \<Rightarrow> (Inl (Throws (Util_Exception ''in Controller::restore(int): vm metadata is corrupted'')), s))"
proof (cases "w_isdir (c_world s) d \<and> map_find (instances s) vmid = None")
  case True
  then have "onw (read_metadata d) s = (Inl (Throws (restore_error ''vm metadata is corrupted'')), s)"
    using read_metadata_absent [of "c_world s" d] assms(2) by (simp add: onw_run)
  with True assms(1) show ?thesis
    by (simp add: restore_def bnd_gets dirExists_def bnd_Inl restore_error_def util_exception_def)
next
  case False
  with assms(1) show ?thesis
    by (auto simp: restore_def bnd_gets throw_def fail_def restore_error_def util_exception_def
        dirExists_def ret_def)
qed

definition bare_dir :: controller where
  "bare_dir = node\<lparr>c_world := taken_world\<lparr>w_isdir := (\<lambda>d. d = ''/tmp/s1/1000'')\<rparr>\<rparr>"

theorem restore_checks_witness:
  "restore 1000 bare_dir =
    (if \<not> w_isdir (c_world bare_dir) ''/tmp/s1/1000''
     then (Inl (Throws (Util_Exception ''in Controller::restore(int): instnace with given id does not exist'')), bare_dir)
     else case map_find (instances bare_dir) 1000 of
       Some i \<Rightarrow> (Inr i, bare_dir)
     | None \<Rightarrow> (Inl (Throws (Util_Exception ''in Controller::restore(int): vm metadata is corrupted'')), bare_dir))
   \<and> w_isdir (c_world bare_dir) ''/tmp/s1/1000'' \<and> map_find (instances bare_dir) 1000 = None"
proof (rule conjI [OF restore_checks])
  show "''/tmp/s1/1000'' = mkInstDir (workingDir bare_dir) 1000" by (simp add: bare_dir_def node_def dir_1000)
  show "cookie_absent (c_world bare_dir) ''/tmp/s1/1000''"
    by (simp add: cookie_absent_def bare_dir_def taken_world_def idle_world_def)
qed (simp add: bare_dir_def node_def)

lemma kill_run:
  "kill vmid s =
    (case map_find (instances s) vmid of
       None \<Rightarrow> seq (onw (log_error (''vm with id '' @ to_string vmid @ '' not found''))) (ret False) s
     | Some i \<Rightarrow>
         if isRunning (i_process i) (c_world s)
         then (Inr True, s\<lparr>c_world := (c_world s)\<lparr>w_signals := w_signals (c_world s) @ [(getPid (i_process i), 2)]\<rparr>\<rparr>)
         else (Inr True, s))"
  by (cases "map_find (instances s) vmid")
    (simp_all add: kill_def gets_def seq_def bnd_def onw_run Process_kill_def modify_def ret_def getPid_def
      del: append.simps append_assoc)

lemma log_signals: "snd (onw (log_output lo l m) s) = s' \<Longrightarrow> w_signals (c_world s') = w_signals (c_world s)"
  by (auto simp: onw_run log_output_eq)

text \<open>
  C39. A machine that is reloaded is never seen to run. The process id cookie is read and thrown
  away: whatever it says and whatever runs on the host, the restored instance counts as offline,
  and \<open>kill\<close> on it reports success without sending any signal.
\<close>

theorem restored_is_offline:
  assumes "restore vmid s = (Inr i, s')" and "map_find (instances s) vmid = None"
  shows "\<not> isRunning (i_process i) w
    \<and> w_signals (c_world (snd (kill vmid (s'\<lparr>c_world := w\<rparr>)))) = w_signals w"
proof -
  have "offline vmid s" using assms(2) by (simp add: offline_def)
  then have s': "offline vmid s'" "p_pid (i_process i) = 0"
    using yieldsD [OF yields_restore_offline assms(1)] by auto
  have "w_signals (c_world (snd (kill vmid (s'\<lparr>c_world := w\<rparr>)))) = w_signals w"
  proof (cases "map_find (instances s') vmid")
    case None
    then show ?thesis
      by (simp add: kill_run seq_def bnd_def onw_run log_error_def log_output_eq ret_def split: sum.split)
  next
    case (Some j)
    then show ?thesis using s'(1) by (simp add: kill_run isRunning_def offline_def)
  qed
  then show ?thesis using s'(2) by (simp add: isRunning_def)
qed

definition old_node :: controller where
  "old_node = \<lparr>workingDir = ''/tmp/s1'', nextId = 1000, nextPort = 2200, templates = the_templates,
     instances = [], c_world = old_world\<rparr>"

lemma old_restore:
  "\<exists>n out. restore 1000 old_node =
    (Inr (restored ''/tmp/s1/1000'' (w_file old_world (''/tmp/s1/1000'' @ ''/kernel'') \<noteq> None) 1000 old_vm),
     old_node\<lparr>instances := map_put 1000 (restored ''/tmp/s1/1000'' (w_file old_world (''/tmp/s1/1000'' @ ''/kernel'') \<noteq> None)
       1000 old_vm) (instances old_node), c_world := old_world\<lparr>w_fds := n, w_out := out\<rparr>\<rparr>)"
proof (rule restore_stored)
  show "''/tmp/s1/1000'' = mkInstDir (workingDir old_node) 1000" by (simp add: old_node_def dir_1000)
  show "clock_ok old_world" "w_isdir old_world ''/tmp/s1/1000''" "\<not> busy old_world (v_port old_vm)"
    by (simp_all add: old_world_def idle_world_def clock_ok_def busy_def connects_def)
  show "stored old_world ''/tmp/s1/1000'' old_vm" by (rule old_stored)
  show "vm_ok (templates old_node) old_vm" using old_vm_ok by (simp add: old_node_def)
qed (simp_all add: old_node_def in_int_def int_min_def int_max_def)

theorem restored_is_offline_witness:
  "\<exists>i s'. restore 1000 old_node = (Inr i, s') \<and> \<not> isRunning (i_process i) (idle_world\<lparr>w_probe := (\<lambda>_. True)\<rparr>)
    \<and> w_signals (c_world (snd (kill 1000 (s'\<lparr>c_world := idle_world\<lparr>w_probe := (\<lambda>_. True)\<rparr>\<rparr>))))
      = w_signals (idle_world\<lparr>w_probe := (\<lambda>_. True)\<rparr>)"
proof -
  have none: "map_find (instances old_node) 1000 = None" by (simp add: old_node_def)
  obtain i s' where r: "restore 1000 old_node = (Inr i, s')" using old_restore by blast
  from r restored_is_offline [OF r none] show ?thesis by blast
qed

section \<open>kill\<close>

text \<open>
  \<open>kill\<close> on every branch: an unknown id gives false, and apart from the log nothing changes; an
  instance that does not run gives true and changes nothing; a running one gets exactly one
  SIGINT, and the answer is true at once, whether or not it ends.
\<close>

theorem kill_branches:
  assumes "clock_ok (c_world s)" and "in_int vmid"
  shows "case map_find (instances s) vmid of
      None \<Rightarrow> \<exists>out. kill vmid s = (Inr False, s\<lparr>c_world := (c_world s)\<lparr>w_out := out\<rparr>\<rparr>)
    | Some i \<Rightarrow>
        kill vmid s = (Inr True,
          if getPid (i_process i) \<noteq> 0 \<and> w_probe (c_world s) (getPid (i_process i))
          then s\<lparr>c_world := (c_world s)\<lparr>w_signals := w_signals (c_world s) @ [(getPid (i_process i), 2)]\<rparr>\<rparr>
          else s)"
proof (cases "map_find (instances s) vmid")
  case None
  have "length (''vm with id '' @ to_string vmid @ '' not found'') \<le> 900"
    using length_to_string [OF assms(2)] by simp
  from onw_log [OF assms(1) this, of INFO ERROR] None show ?thesis
    by (auto simp: kill_run seq_def bnd_def ret_def log_error_def simp del: append.simps append_assoc)
next
  case (Some i)
  then show ?thesis by (simp add: kill_run isRunning_def getPid_def)
qed

theorem kill_branches_witness:
  "case map_find (instances node) 7 of
      None \<Rightarrow> \<exists>out. kill 7 node = (Inr False, node\<lparr>c_world := (c_world node)\<lparr>w_out := out\<rparr>\<rparr>)
    | Some i \<Rightarrow>
        kill 7 node = (Inr True,
          if getPid (i_process i) \<noteq> 0 \<and> w_probe (c_world node) (getPid (i_process i))
          then node\<lparr>c_world := (c_world node)\<lparr>w_signals := w_signals (c_world node) @ [(getPid (i_process i), 2)]\<rparr>\<rparr>
          else node)"
  by (rule kill_branches)
    (simp_all add: node_def taken_world_def idle_world_def clock_ok_def in_int_def int_min_def int_max_def)

section \<open>run\<close>

lemma run_found:
  assumes "map_find (instances s) vmid = Some i" "\<not> isRunning (i_process i) (c_world s)"
  shows "run os vmid s =
    bnd (onw (isPortFree (i_sshPort i))) (\<lambda>free.
    bnd (if free then ret i else
         seq (onw (log_warn (''port '' @ to_string (i_sshPort i)
                 @ '' is already in use. searching for other port'')))
         (bnd advancePort (\<lambda>port.
          seq (onw (cookie_write_int (mkInstDir (workingDir s) vmid @ ''/.ssh'') port))
          (seq (set_inst vmid (setSshPort port i))
          (seq (onw (log_info (''assigned new port '' @ to_string port)))
           (ret (setSshPort port i))))))) (\<lambda>i.
    bnd (onw (Process_run os True (i_process i))) (\<lambda>(pid, process).
    seq (set_inst vmid (i\<lparr>i_process := process\<rparr>))
    (seq (onw (cookie_write_int (mkInstDir (workingDir s) vmid @ ''/.pid'') (getPid process)))
     (ret True))))) s"
  using assms by (simp add: run_def bnd_gets)

lemma start_process:
  assumes "\<not> isRunning p (c_world s)"
    and "os_spawn os True (c_str (p_path p)) (exec_args (p_opts p)) (c_world s) = (pid, w)"
  shows "bnd (onw (Process_run os True p)) (\<lambda>(pid, process).
      seq (set_inst vmid (i\<lparr>i_process := process\<rparr>))
      (seq (onw (cookie_write_int cookie (getPid process))) (ret True))) s
    = (Inr True, s\<lparr>instances := map_put vmid (i\<lparr>i_process := p\<lparr>p_pid := pid\<rparr>\<rparr>) (instances s),
         c_world := file_write cookie (to_string pid) w\<rparr>)"
  using assms
  by (simp add: bnd_def seq_def onw_run Process_run_eq set_inst_def modify_def cookie_write_run getPid_def ret_def)

lemma run_refused:
  assumes "clock_ok (c_world s)" and "in_int vmid"
    and "case map_find (instances s) vmid of None \<Rightarrow> True | Some i \<Rightarrow> isRunning (i_process i) (c_world s)"
  shows "\<exists>out. run os vmid s = (Inr False, s\<lparr>c_world := (c_world s)\<lparr>w_out := out\<rparr>\<rparr>)"
proof -
  let ?m = "\<lambda>tail. ''vm with id '' @ to_string vmid @ tail"
  have "length (?m '' not found'') \<le> 900" "length (?m '' is already running'') \<le> 900"
    using length_to_string [OF assms(2)] by simp_all
  note logs = onw_log [OF assms(1) this(1), of INFO ERROR] onw_log [OF assms(1) this(2), of INFO ERROR]
  show ?thesis
  proof (cases "map_find (instances s) vmid")
    case None
    then show ?thesis
      using logs(1) by (auto simp: run_def bnd_gets seq_def bnd_def [of "onw _"] ret_def log_error_def
          simp del: append.simps append_assoc)
  next
    case (Some i)
    then show ?thesis
      using logs(2) assms(3) by (auto simp: run_def bnd_gets seq_def bnd_def [of "onw _"] ret_def log_error_def
          simp del: append.simps append_assoc)
  qed
qed

text \<open>
  \<open>run\<close> refuses without a trace: for an unknown id and for a machine that runs already it
  answers false, starts nothing, sends nothing and changes nothing but the log.
\<close>

theorem run_refuses:
  assumes "clock_ok (c_world s)" and "in_int vmid"
    and "case map_find (instances s) vmid of None \<Rightarrow> True | Some i \<Rightarrow> isRunning (i_process i) (c_world s)"
  shows "\<exists>out. run os vmid s = (Inr False, s\<lparr>c_world := (c_world s)\<lparr>w_out := out\<rparr>\<rparr>)"
  using assms by (rule run_refused)

lemma run_started:
  assumes "map_find (instances s) vmid = Some i" and "\<not> isRunning (i_process i) (c_world s)"
    and "isPortFree (i_sshPort i) (c_world s) = (Inr True, w1)"
    and "os_spawn os True (c_str (p_path (i_process i))) (exec_args (p_opts (i_process i))) w1 = (pid, w2)"
  shows "run os vmid s =
    (Inr True, s\<lparr>instances := map_put vmid (i\<lparr>i_process := (i_process i)\<lparr>p_pid := pid\<rparr>\<rparr>) (instances s),
       c_world := file_write (mkInstDir (workingDir s) vmid @ ''/.pid'') (to_string pid) w2\<rparr>)"
proof -
  have "\<not> isRunning (i_process i) w1"
    using assms(2,3) isPortFree_fds [of "i_sshPort i" "c_world s"] by (auto simp: isRunning_def)
  then show ?thesis
    using start_process [of "i_process i" "s\<lparr>c_world := w1\<rparr>" os pid w2 vmid i] assms
    by (simp add: run_found [OF assms(1,2)] bnd_def [of "onw (isPortFree _)"] onw_run)
qed

text \<open>
  C32. \<open>run\<close> starts an offline machine whose port is free: one program is started, the machine's
  command line on its shell; its process id goes into the instance and into the cookie, and no
  other instance changes.
\<close>

theorem run_starts:
  assumes "map_find (instances s) vmid = Some i" and "\<not> isRunning (i_process i) (c_world s)"
    and "isPortFree (i_sshPort i) (c_world s) = (Inr True, w1)"
    and "os_spawn os True (c_str (p_path (i_process i))) (exec_args (p_opts (i_process i))) w1 = (pid, w2)"
  shows "run os vmid s =
    (Inr True, s\<lparr>instances := map_put vmid (i\<lparr>i_process := (i_process i)\<lparr>p_pid := pid\<rparr>\<rparr>) (instances s),
       c_world := file_write (mkInstDir (workingDir s) vmid @ ''/.pid'') (to_string pid) w2\<rparr>)"
  using assms by (rule run_started)

text \<open>What \<open>run\<close> does about a taken port, given the next free one.\<close>

lemma choose_port:
  assumes "nextPort s < port" "port \<le> int_max" "\<not> busy (c_world s) port"
    and "\<And>q. nextPort s < q \<Longrightarrow> q < port \<Longrightarrow> busy (c_world s) q" "\<And>n. w_socket (c_world s) n \<noteq> - 1"
    and "clock_ok (c_world s)" "in_int (i_sshPort i)" "in_int port"
  shows "\<exists>n out. seq (onw (log_warn (''port '' @ to_string (i_sshPort i)
           @ '' is already in use. searching for other port'')))
      (bnd advancePort (\<lambda>port.
       seq (onw (cookie_write_int cookie port))
       (seq (set_inst vmid (setSshPort port i))
       (seq (onw (log_info (''assigned new port '' @ to_string port))) (ret (setSshPort port i))))))
      (s\<lparr>c_world := (c_world s)\<lparr>w_fds := m\<rparr>\<rparr>)
    = (Inr (setSshPort port i), s\<lparr>nextPort := port, instances := map_put vmid (setSshPort port i) (instances s),
        c_world := (file_write cookie (to_string port) ((c_world s)\<lparr>w_fds := n\<rparr>))\<lparr>w_out := out\<rparr>\<rparr>)"
proof -
  let ?w = "(c_world s)\<lparr>w_fds := m\<rparr>"
  let ?m1 = "''port '' @ to_string (i_sshPort i) @ '' is already in use. searching for other port''"
  let ?m2 = "''assigned new port '' @ to_string port"
  have len: "length ?m1 \<le> 900" "length ?m2 \<le> 900"
    using length_to_string [OF assms(7)] length_to_string [OF assms(8)] by simp_all
  obtain out1 where log1: "log_warn ?m1 ?w = (Inr (), ?w\<lparr>w_out := out1\<rparr>)"
    using log_output_short [of ?w ?m1 INFO WARN] len(1) assms(6)
    by (auto simp: log_warn_def clock_ok_def simp del: append.simps append_assoc)
  have "busy (?w\<lparr>w_out := out1\<rparr>) q = busy (c_world s) q" for q by (simp add: busy_def connects_def)
  then have find: "findNextPort (nextPort s) (?w\<lparr>w_out := out1\<rparr>)
      = (Inr port, ?w\<lparr>w_out := out1, w_fds := m + nat (port - nextPort s)\<rparr>)"
    using findNextPort_finds [of "nextPort s" port "?w\<lparr>w_out := out1\<rparr>"] assms(1-5) by (simp add: sockets_def)
  let ?w3 = "file_write cookie (to_string port) ((c_world s)\<lparr>w_out := out1, w_fds := m + nat (port - nextPort s)\<rparr>)"
  obtain out2 where log2: "log_info ?m2 ?w3 = (Inr (), ?w3\<lparr>w_out := out2\<rparr>)"
    using log_output_short [of ?w3 ?m2 INFO INFO] len(2) assms(6)
    by (auto simp: log_info_def clock_ok_def simp del: append.simps append_assoc)
  have "?w3\<lparr>w_out := out2\<rparr> = (file_write cookie (to_string port)
      ((c_world s)\<lparr>w_fds := m + nat (port - nextPort s)\<rparr>))\<lparr>w_out := out2\<rparr>"
    by (simp add: file_write_def)
  then show ?thesis
    by (intro exI [of _ "m + nat (port - nextPort s)"] exI [of _ out2])
      (simp add: seq_def bnd_def onw_run log1 advancePort_run find cookie_write_run set_inst_def
        modify_def log2 ret_def del: append.simps append_assoc)
qed

text \<open>
  C33. \<open>run\<close> on a taken port announces a port that the machine does not listen on. The new port
  goes into the instance and the cookie, but the command line was built by \<open>restore\<close> and is
  started as it is, still redirecting the old port.
\<close>

theorem run_on_taken_port:
  assumes "map_find (instances s) vmid = Some i" and "\<not> isRunning (i_process i) (c_world s)"
    and "p_opts (i_process i) = vmArgs memory cpus (i_sshPort i) withKernel kernelPath rootfsPath appendStr"
    and "busy (c_world s) (i_sshPort i)" and "\<And>n. w_socket (c_world s) n \<noteq> - 1"
    and "nextPort s < port" and "port \<le> int_max" and "\<not> busy (c_world s) port"
    and "\<And>q. nextPort s < q \<Longrightarrow> q < port \<Longrightarrow> busy (c_world s) q"
    and "clock_ok (c_world s)" and "in_int (i_sshPort i)" and "in_int port"
    and "d = mkInstDir (workingDir s) vmid"
  shows "\<exists>n out w pid w'. port \<noteq> i_sshPort i
    \<and> w = (file_write (d @ ''/.ssh'') (to_string port) ((c_world s)\<lparr>w_fds := n\<rparr>))\<lparr>w_out := out\<rparr>
    \<and> os_spawn os True (c_str (p_path (i_process i)))
        (exec_args (vmArgs memory cpus (i_sshPort i) withKernel kernelPath rootfsPath appendStr)) w = (pid, w')
    \<and> run os vmid s =
      (Inr True, s\<lparr>nextPort := port,
         instances := map_put vmid (i\<lparr>i_sshPort := port, i_process := (i_process i)\<lparr>p_pid := pid\<rparr>\<rparr>) (instances s),
         c_world := file_write (d @ ''/.pid'') (to_string pid) w'\<rparr>)"
proof -
  let ?probed = "(c_world s)\<lparr>w_fds := Suc (w_fds (c_world s))\<rparr>" and ?i = "setSshPort port i"
  let ?start = "\<lambda>i. bnd (onw (Process_run os True (i_process i))) (\<lambda>(pid, process).
      seq (set_inst vmid (i\<lparr>i_process := process\<rparr>))
      (seq (onw (cookie_write_int (d @ ''/.pid'') (getPid process))) (ret True)))"
  let ?choose = "seq (onw (log_warn (''port '' @ to_string (i_sshPort i)
         @ '' is already in use. searching for other port'')))
      (bnd advancePort (\<lambda>port. seq (onw (cookie_write_int (d @ ''/.ssh'') port))
      (seq (set_inst vmid (setSshPort port i))
      (seq (onw (log_info (''assigned new port '' @ to_string port))) (ret (setSshPort port i))))))"
  obtain n out where choose: "?choose (s\<lparr>c_world := ?probed\<rparr>)
      = (Inr ?i, s\<lparr>nextPort := port, instances := map_put vmid ?i (instances s),
          c_world := (file_write (d @ ''/.ssh'') (to_string port) ((c_world s)\<lparr>w_fds := n\<rparr>))\<lparr>w_out := out\<rparr>\<rparr>)"
    using choose_port [OF assms(6-9,5,10-12), of "d @ ''/.ssh''" vmid] by blast
  let ?w = "(file_write (d @ ''/.ssh'') (to_string port) ((c_world s)\<lparr>w_fds := n\<rparr>))\<lparr>w_out := out\<rparr>"
  let ?s = "s\<lparr>nextPort := port, instances := map_put vmid ?i (instances s), c_world := ?w\<rparr>"
  obtain pid w' where spawn: "os_spawn os True (c_str (p_path (i_process i))) (exec_args (p_opts (i_process i))) ?w = (pid, w')"
    by fastforce
  have nr: "\<not> isRunning (i_process ?i) (c_world ?s)"
    and sp: "os_spawn os True (c_str (p_path (i_process ?i))) (exec_args (p_opts (i_process ?i))) (c_world ?s) = (pid, w')"
    using spawn assms(2) by (simp_all add: isRunning_def setSshPort_def split: if_splits)
  have "onw (isPortFree (i_sshPort i)) s = (Inr False, s\<lparr>c_world := ?probed\<rparr>)"
    using assms(4,5) by (simp add: onw_run isPortFree_run socket_left_def)
  then have "run os vmid s = bnd ?choose ?start (s\<lparr>c_world := ?probed\<rparr>)"
    unfolding run_found [OF assms(1,2)] assms(13) by (simp only: bnd_Inr if_False)
  also have "\<dots> = ?start ?i ?s"
    unfolding bnd_def [of ?choose] choose by (simp only: prod.case sum.case)
  also have "\<dots> = (Inr True, ?s\<lparr>instances := map_put vmid (?i\<lparr>i_process := (i_process i)\<lparr>p_pid := pid\<rparr>\<rparr>) (instances ?s),
      c_world := file_write (d @ ''/.pid'') (to_string pid) w'\<rparr>)"
    using start_process [OF nr sp, of vmid ?i "d @ ''/.pid''"] by (simp add: setSshPort_def)
  finally show ?thesis
    using spawn assms(3,4,8)
    by (intro exI [of _ n] exI [of _ out] exI [of _ ?w] exI [of _ pid] exI [of _ w']) (auto simp: setSshPort_def)
qed

text \<open>A node with one offline machine.\<close>

definition one_vm :: "int \<Rightarrow> inst" where
  "one_vm port =
    \<lparr>i_id = 1000, i_memory = 64, i_cpus = 2, i_sshPort = port, i_template = cirros,
     i_process = Process_new ''/bin/bash''
       (vmArgs 64 2 port True ''/tmp/s1/1000/kernel'' ''/tmp/s1/1000/rootfs.img'' [])\<rparr>"

definition vm_node :: "int \<Rightarrow> controller" where
  "vm_node port = node\<lparr>instances := [(1000, one_vm port)]\<rparr>"

lemma vm_node_find [simp]: "map_find (instances (vm_node port)) 1000 = Some (one_vm port)"
  by (simp add: vm_node_def map_find_def)

lemma one_vm_simps [simp]:
  "i_sshPort (one_vm port) = port" "p_path (i_process (one_vm port)) = ''/bin/bash''"
  "p_opts (i_process (one_vm port)) = vmArgs 64 2 port True ''/tmp/s1/1000/kernel'' ''/tmp/s1/1000/rootfs.img'' []"
  "\<not> isRunning (i_process (one_vm port)) w"
  by (simp_all add: one_vm_def Process_new_def isRunning_def)

lemma vm_node_world [simp]: "c_world (vm_node port) = taken_world" "nextPort (vm_node port) = 2200"
  by (simp_all add: vm_node_def node_def)

lemma taken_world_simps [simp]:
  "socket_left (taken_world\<lparr>w_fds := n\<rparr>)" "socket_left taken_world" "clock_ok taken_world"
  "busy taken_world 2200" "busy taken_world 2201" "\<not> busy taken_world 2202"
  by (simp_all add: taken_world_def idle_world_def socket_left_def clock_ok_def busy_def connects_def
      c_str_def htons_port_def)

theorem run_refuses_witness:
  "\<exists>out. run plain_os 1000 (vm_node 2300\<lparr>instances := [(1000, one_vm 2300\<lparr>i_process := \<lparr>p_path = ''/bin/bash'',
        p_opts = [], p_pid = 4242\<rparr>\<rparr>)]\<rparr>)
    = (Inr False, (vm_node 2300\<lparr>instances := [(1000, one_vm 2300\<lparr>i_process := \<lparr>p_path = ''/bin/bash'',
        p_opts = [], p_pid = 4242\<rparr>\<rparr>)]\<rparr>)\<lparr>c_world := taken_world\<lparr>w_out := out\<rparr>\<rparr>)"
  using run_refuses [of "vm_node 2300\<lparr>instances := [(1000, one_vm 2300\<lparr>i_process := \<lparr>p_path = ''/bin/bash'',
        p_opts = [], p_pid = 4242\<rparr>\<rparr>)]\<rparr>" 1000 plain_os]
  by (simp add: map_find_def isRunning_def in_int_def int_min_def int_max_def)
    (simp add: taken_world_def idle_world_def)

theorem run_starts_witness:
  "run plain_os 1000 (vm_node 2202) =
    (Inr True, (vm_node 2202)\<lparr>instances := map_put 1000 (one_vm 2202\<lparr>i_process :=
        (i_process (one_vm 2202))\<lparr>p_pid := 4242\<rparr>\<rparr>) (instances (vm_node 2202)),
       c_world := file_write (mkInstDir (workingDir (vm_node 2202)) 1000 @ ''/.pid'') (to_string 4242)
         (taken_world\<lparr>w_fds := Suc (w_fds taken_world)\<rparr>)\<rparr>)"
  by (rule run_starts [where i = "one_vm 2202"]) (simp_all add: isPortFree_run plain_os_def c_str_def)

theorem run_on_taken_port_witness:
  "\<exists>n out w pid w'. 2202 \<noteq> i_sshPort (one_vm 2200)
    \<and> w = (file_write (''/tmp/s1/1000'' @ ''/.ssh'') (to_string 2202) ((c_world (vm_node 2200))\<lparr>w_fds := n\<rparr>))\<lparr>w_out := out\<rparr>
    \<and> os_spawn plain_os True (c_str (p_path (i_process (one_vm 2200))))
        (exec_args (vmArgs 64 2 (i_sshPort (one_vm 2200)) True ''/tmp/s1/1000/kernel'' ''/tmp/s1/1000/rootfs.img'' [])) w
      = (pid, w')
    \<and> run plain_os 1000 (vm_node 2200) =
      (Inr True, (vm_node 2200)\<lparr>nextPort := 2202,
         instances := map_put 1000 (one_vm 2200\<lparr>i_sshPort := 2202, i_process := (i_process (one_vm 2200))\<lparr>p_pid := pid\<rparr>\<rparr>)
           (instances (vm_node 2200)),
         c_world := file_write (''/tmp/s1/1000'' @ ''/.pid'') (to_string pid) w'\<rparr>)"
proof (rule run_on_taken_port)
  show "''/tmp/s1/1000'' = mkInstDir (workingDir (vm_node 2200)) 1000"
    by (simp add: vm_node_def node_def dir_1000)
  fix q :: int
  assume "nextPort (vm_node 2200) < q" "q < 2202"
  then have "q = 2201" by simp
  then show "busy (c_world (vm_node 2200)) q" by simp
qed (simp_all add: in_int_def int_min_def int_max_def, simp add: taken_world_def idle_world_def)

section \<open>Every reachable state\<close>

text \<open>
  C14. In every state a controller reaches, whatever operations were called with whatever results
  and whatever happened on the host in between: the map is ordered and each instance is filed
  under its own id, its numbers are of type \<open>int\<close>, its template is one of the two built in, and its
  process is the shell with the command line for its memory and processors.
\<close>

theorem reachable_invariant:
  assumes "reachable os wdir s" and "map_find (instances s) k = Some i"
  shows "map_ok (instances s) \<and> templates s = the_templates \<and> workingDir s = wdir
    \<and> i_id i = k \<and> in_int k \<and> in_int (i_memory i) \<and> in_int (i_cpus i) \<and> in_int (i_sshPort i)
    \<and> (i_template i = cirros \<or> i_template i = wheezy) \<and> p_path (i_process i) = ''/bin/bash''
    \<and> (\<exists>port withKernel appendStr. p_opts (i_process i) = vmArgs (i_memory i) (i_cpus i) port withKernel
         (mkInstDir wdir k @ ''/kernel'') (mkInstDir wdir k @ ''/rootfs.img'') appendStr)"
  using reachable_ctl_inv [OF assms(1)] assms(2) the_templates_cases
  unfolding ctl_inv_def inst_inv_def by blast

lemma node_reachable: "reachable os ''/tmp/s1'' node"
proof -
  let ?w = "taken_world\<lparr>w_entries := (\<lambda>_. Some [])\<rparr>"
  have "Controller_new ''/tmp/s1'' 1000 2200 ?w = (Inr (), node\<lparr>c_world := ?w\<rparr>)"
    by (simp add: Controller_new_def Controller_load_def bnd_gets ret_def node_def)
  then have "reachable os ''/tmp/s1'' (node\<lparr>c_world := ?w\<rparr>)"
    by (intro started [of 1000 2200 _ ?w]) (simp_all add: in_int_def int_min_def int_max_def)
  from moved [OF this step_world [of os _ taken_world]] show ?thesis by (simp add: node_def)
qed

theorem reachable_invariant_witness:
  "\<exists>s k i. map_find (instances s) k = Some i \<and> reachable plain_os ''/tmp/s1'' s
    \<and> map_ok (instances s) \<and> templates s = the_templates \<and> workingDir s = ''/tmp/s1''
    \<and> i_id i = k \<and> in_int k \<and> in_int (i_memory i) \<and> in_int (i_cpus i) \<and> in_int (i_sshPort i)
    \<and> (i_template i = cirros \<or> i_template i = wheezy) \<and> p_path (i_process i) = ''/bin/bash''
    \<and> (\<exists>port withKernel appendStr. p_opts (i_process i) = vmArgs (i_memory i) (i_cpus i) port withKernel
         (mkInstDir ''/tmp/s1'' k @ ''/kernel'') (mkInstDir ''/tmp/s1'' k @ ''/rootfs.img'') appendStr)"
proof -
  have c: "map_find the_templates (t_name cirros) = Some cirros"
    by (simp add: the_templates_def cirros_def wheezy_def map_find_def)
  have n: "templates node = the_templates" "in_int (nextPort node)" "in_int 64" "in_int 2"
    by (simp_all add: node_def in_int_def int_min_def int_max_def)
  obtain k p w' where hosted: "instantiate plain_os cirros 64 2 node =
      (Inr (restored (mkInstDir (workingDir node) k) (t_kernelPath cirros \<noteq> ''-none-'') k (vm_of cirros 64 2 p)),
       node\<lparr>nextPort := p, nextId := k, instances := map_put k (restored (mkInstDir (workingDir node) k)
          (t_kernelPath cirros \<noteq> ''-none-'') k (vm_of cirros 64 2 p)) (instances node), c_world := w'\<rparr>)"
    using instantiate_hosted [OF node_can_host n(1) c n(3,4,2)] unfolding Let_def by blast
  then obtain i s' where run: "instantiate plain_os cirros 64 2 node = (Inr i, s')"
    and k: "map_find (instances s') k = Some i"
    by (simp add: map_find_put_eq)
  have "reachable plain_os ''/tmp/s1'' s'"
    using moved [OF node_reachable step_instantiate [of plain_os node cirros 64 2]] run by simp
  with reachable_invariant [OF this k] k show ?thesis by blast
qed

text \<open>
  The constructor does not survive a directory entry that is a number too large for \<open>int\<close>:
  \<open>std::stoi\<close> throws \<open>out_of_range\<close>, which neither handler catches, so the controller does not
  start.
\<close>

theorem Controller_new_out_of_range:
  assumes "w_entries w wdir = Some (before @ name # rest)"
    and "\<And>n. n \<in> set before \<Longrightarrow> stoi n = Inl (Throws Invalid_Argument)"
    and "stoi name = Inl (Throws Out_Of_Range)"
  shows "fst (Controller_new wdir initialId initialPort w) = Inl (Throws Out_Of_Range)"
proof -
  have "for_each before load_entry s = (Inr (), s)" for s
    using assms(2) by (induction before) (simp_all add: ret_def seq_Inr load_entry_other)
  moreover have "load_entry name s = (Inl (Throws Out_Of_Range), s)" for s
    using assms(3) by (simp add: load_entry_def try_catch_def)
  ultimately show ?thesis
    by (simp add: Controller_new_def Controller_load_def bnd_gets assms(1) for_each_append seq_Inr seq_Inl)
qed

theorem Controller_new_out_of_range_witness:
  "fst (Controller_new ''/tmp/s1'' 1000 2200 (idle_world\<lparr>w_entries := (\<lambda>_. Some [''.'', to_string 20150131120000])\<rparr>))
    = Inl (Throws Out_Of_Range)"
proof (rule Controller_new_out_of_range)
  show "w_entries (idle_world\<lparr>w_entries := (\<lambda>_. Some [''.'', to_string 20150131120000])\<rparr>) ''/tmp/s1''
      = Some ([''.''] @ to_string 20150131120000 # [])" by simp
  show "stoi (to_string 20150131120000) = Inl (Throws Out_Of_Range)"
    using strtol_to_string [of "[]" 20150131120000] by (simp add: stoi_def in_int_def int_max_def)
qed (simp add: stoi_def strtol_def is_space_def is_digit_def char_code_def)

end
