(* ===== verification/Server_Props.thy ===== *)
theory Server_Props
  imports Controller_Server Vm_Controller_Ops
begin

text \<open>
  The properties of a controller node as seen over a connection: what a remote call does is what
  the controller's own operation does, which requests end the program, and what the accept loop
  survives. They rest on the interpretation \<open>node\<close> of the interface \<open>service\<close>.
\<close>

section \<open>Remote calls\<close>

text \<open>
  \<open>connected n l\<close>: nothing is under way between the proxy and the node, and each end may count \<open>n\<close>
  more lines.
\<close>

definition connected :: "nat \<Rightarrow> server link \<Rightarrow> bool" where
  "connected n l \<longleftrightarrow> quiet n (l_socket l) \<and> sv_ready n (l_peer l)"

lemma connected_linked: "connected n l = node.linked n l"
  by (simp add: connected_def node.linked_def)

text \<open>The node's controller, and the same after it logged a request.\<close>

abbreviation far :: "server link \<Rightarrow> controller" where
  "far l \<equiv> sv_ctl (l_peer l)"

definition logged :: "string \<Rightarrow> controller \<Rightarrow> controller" where
  "logged cmd c = snd (processing cmd c)"

lemma processing_run:
  assumes "clock_ok (c_world c)" "length cmd \<le> 800"
  shows "\<exists>out. logged cmd c = c\<lparr>c_world := (c_world c)\<lparr>w_out := out\<rparr>\<rparr>
    \<and> processing cmd c = (Inr (), logged cmd c)"
  using onw_log [OF assms(1), of "''processing request: '' @ cmd" INFO INFO] assms(2)
  by (auto simp: logged_def processing_def log_info_def)

text \<open>How \<open>try { ... } catch (...) { }\<close> turns the outcome of \<open>run\<close> or \<open>kill\<close> into the reply.\<close>

fun caught :: "bool res \<Rightarrow> bool option" where
  "caught (Inr b) = Some b"
| "caught (Inl (Throws e)) = Some False"
| "caught (Inl f) = None"

lemma caught_Some: "caught r = Some b \<longleftrightarrow> r = Inr b \<or> (\<exists>e. r = Inl (Throws e)) \<and> \<not> b"
  by (cases r rule: caught.cases) auto

lemma by_number_caught:
  "in_int vmid \<Longrightarrow> f vmid c = (r, c') \<Longrightarrow> caught r = Some b \<Longrightarrow> by_number f (to_string vmid) c = (Inr b, c')"
  by (auto simp: by_number_def try_catch_def caught_Some ret_def)

text \<open>
  C19. Running and then killing a machine over a connection is running and then killing it at the
  node: the two replies are the results of the controller's own \<open>run\<close> and \<open>kill\<close>, an exception of
  theirs counting as false, the controller is left as they leave it (the two requests logged),
  and the connection is ready for the next request.
\<close>

theorem remote_run_then_kill:
  assumes "connected (n + 10) l" and "in_int vmid"
    and "clock_ok (c_world (far l))" and "run os vmid (logged ''run'' (far l)) = (r1, c1)" and "caught r1 = Some b1"
    and "clock_ok (c_world c1)" and "kill vmid (logged ''kill'' c1) = (r2, c2)" and "caught r2 = Some b2"
  shows "\<exists>l'. bnd (proxy_run (controller_react os) (to_string vmid)) (\<lambda>x.
      bnd (proxy_kill (controller_react os) (to_string vmid)) (\<lambda>y. ret (x, y))) l = (Inr (b1, b2), l')
    \<and> connected n l' \<and> far l' = c2"
proof -
  have "ctl_run os (to_string vmid) (far l) = (Inr b1, c1)"
    using processing_run [OF assms(3), of "''run''"] by_number_caught [where f = "run os", OF assms(2,4,5)]
    by (auto simp: ctl_run_def seq_Inr)
  moreover have "node.linked (n + 5 + 5) l" using assms(1) by (simp add: connected_linked add.commute)
  ultimately obtain l1 where l1: "proxy_run (controller_react os) (to_string vmid) l = (Inr b1, l1)"
    "node.linked (n + 5) l1" "far l1 = c1"
    using node.proxy_run_vm [of "n + 5" l os "to_string vmid" b1 c1] by auto
  have "ctl_kill (to_string vmid) (far l1) = (Inr b2, c2)"
    using processing_run [OF assms(6), of "''kill''"] by_number_caught [where f = kill, OF assms(2,7,8)] l1(3)
    by (auto simp: ctl_kill_def seq_Inr)
  with l1(2) obtain l2 where "proxy_kill (controller_react os) (to_string vmid) l1 = (Inr b2, l2)"
    "node.linked n l2" "far l2 = c2"
    using node.proxy_kill_vm [of n l1 "to_string vmid" b2 c2 os] by auto
  with l1(1) show ?thesis by (simp add: bnd_def ret_def connected_linked)
qed

text \<open>A node with one offline machine on a free port, and a proxy's fresh connection to it.\<close>

definition link_to :: "controller \<Rightarrow> server link" where
  "link_to c = \<lparr>l_socket = new_socket 5, l_peer = \<lparr>sv_ctl = c, sv_conn = new_socket 4, sv_fault = None\<rparr>\<rparr>"

lemma connected_fresh: "n < 2 ^ 31 \<Longrightarrow> connected n (link_to c)"
  by (simp add: connected_def link_to_def sv_ready_def quiet_def count_room_def new_socket_def)

lemma far_link_to [simp]: "far (link_to c) = c"
  by (simp add: link_to_def)

lemma vm_node_run:
  "run plain_os 1000 ((vm_node 2202)\<lparr>c_world := taken_world\<lparr>w_out := out\<rparr>\<rparr>) =
    (Inr True, (vm_node 2202)\<lparr>instances := map_put 1000 (one_vm 2202\<lparr>i_process :=
        (i_process (one_vm 2202))\<lparr>p_pid := 4242\<rparr>\<rparr>) (instances (vm_node 2202)),
       c_world := file_write (mkInstDir ''/tmp/s1'' 1000 @ ''/.pid'') (to_string 4242)
         (taken_world\<lparr>w_out := out, w_fds := Suc (w_fds taken_world)\<rparr>)\<rparr>)"
proof -
  let ?w = "taken_world\<lparr>w_out := out\<rparr>"
  have probe: "isPortFree 2202 ?w = (Inr True, ?w\<lparr>w_fds := Suc (w_fds ?w)\<rparr>)"
    by (simp add: isPortFree_run socket_left_def busy_def connects_def c_str_def htons_port_def taken_world_def
        idle_world_def)
  have dir: "workingDir (vm_node 2202) = ''/tmp/s1''" by (simp add: vm_node_def node_def)
  have "map_find (instances ((vm_node 2202)\<lparr>c_world := ?w\<rparr>)) 1000 = Some (one_vm 2202)" by simp
  from run_started [OF this, of "?w\<lparr>w_fds := Suc (w_fds ?w)\<rparr>" plain_os 4242 "?w\<lparr>w_fds := Suc (w_fds ?w)\<rparr>"]
  show ?thesis using probe dir by (simp add: plain_os_def c_str_def)
qed

theorem remote_run_then_kill_witness:
  "\<exists>c2 l'. bnd (proxy_run (controller_react plain_os) (to_string 1000)) (\<lambda>x.
      bnd (proxy_kill (controller_react plain_os) (to_string 1000)) (\<lambda>y. ret (x, y))) (link_to (vm_node 2202))
        = (Inr (True, True), l')
    \<and> connected 0 l' \<and> far l' = c2 \<and> w_signals (c_world c2) = [(4242, 2)]"
proof -
  have clock: "clock_ok (c_world (vm_node 2202))" by simp
  obtain out where log1: "logged ''run'' (vm_node 2202) = (vm_node 2202)\<lparr>c_world := taken_world\<lparr>w_out := out\<rparr>\<rparr>"
    using processing_run [OF clock, of "''run''"] by auto
  let ?c1 = "snd (run plain_os 1000 (logged ''run'' (vm_node 2202)))"
  have run1: "run plain_os 1000 (logged ''run'' (far (link_to (vm_node 2202)))) = (Inr True, ?c1)"
    by (simp add: log1 vm_node_run)
  have c1: "clock_ok (c_world ?c1)" "w_probe (c_world ?c1) 4242" "w_signals (c_world ?c1) = []"
    "\<exists>i. map_find (instances ?c1) 1000 = Some i \<and> p_pid (i_process i) = 4242"
    by (simp_all add: log1 vm_node_run clock_ok_def map_find_put_eq) (simp_all add: taken_world_def idle_world_def)
  obtain out2 where log2: "logged ''kill'' ?c1 = ?c1\<lparr>c_world := (c_world ?c1)\<lparr>w_out := out2\<rparr>\<rparr>"
    using processing_run [OF c1(1), of "''kill''"] by auto
  let ?c2 = "snd (kill 1000 (logged ''kill'' ?c1))"
  have kill2: "kill 1000 (logged ''kill'' ?c1) = (Inr True, ?c2)" and sig: "w_signals (c_world ?c2) = [(4242, 2)]"
    using c1 by (auto simp: log2 kill_run isRunning_def getPid_def)
  have "\<exists>l'. bnd (proxy_run (controller_react plain_os) (to_string 1000)) (\<lambda>x.
      bnd (proxy_kill (controller_react plain_os) (to_string 1000)) (\<lambda>y. ret (x, y))) (link_to (vm_node 2202))
        = (Inr (True, True), l')
    \<and> connected 0 l' \<and> far l' = ?c2"
  proof (rule remote_run_then_kill [OF _ _ _ run1 _ c1(1) kill2])
    show "connected (0 + 10) (link_to (vm_node 2202))" by (rule connected_fresh) simp
  qed (simp_all add: in_int_def int_min_def int_max_def)
  with sig show ?thesis by blast
qed

section \<open>Remote creation\<close>

lemma builtin_word_line: "map_find the_templates n = Some t \<Longrightarrow> word_line (t_name t)"
  using the_templates_cases [of n t]
  by (auto simp: cirros_def wheezy_def word_line_def plain_line_def)

lemma frame_ok_info: "word_line (ii_id i) \<Longrightarrow> word_line (ii_templ i) \<Longrightarrow> frame_ok (InstanceInfo_serialize i)"
  unfolding frame_ok_def by (rule disjI2, rule sendable_words) (simp_all add: InstanceInfo_serialize_def)

text \<open>What \<open>instantiate\<close> comes to at a node that can host the machine.\<close>

lemma ctl_new_hosted:
  assumes "clock_ok (c_world c)" and "s = logged ''instantiate'' c"
    and "can_host os s" and "templates s = the_templates" and "map_find the_templates (t_name t) = Some t"
    and "in_int memory" and "in_int cpus" and "in_int (nextPort s)" and "map_ok (instances s)"
  shows "\<exists>i c'. ctl_new os (t_name t) memory cpus c = (Inr (getInstanceInfo i (c_world c')), c')
    \<and> fresh_id s (i_id i) \<and> nextPort s < i_sshPort i \<and> in_int (i_sshPort i)
    \<and> i_memory i = memory \<and> i_cpus i = cpus \<and> i_template i = t \<and> p_pid (i_process i) = 0
    \<and> instances c' = map_put (i_id i) i (instances c)"
proof -
  obtain k p w' where new: "instantiate os t memory cpus s =
      (Inr (restored (mkInstDir (workingDir s) k) (t_kernelPath t \<noteq> ''-none-'') k (vm_of t memory cpus p)),
       s\<lparr>nextPort := p, nextId := k, instances := map_put k (restored (mkInstDir (workingDir s) k)
          (t_kernelPath t \<noteq> ''-none-'') k (vm_of t memory cpus p)) (instances s), c_world := w'\<rparr>)"
    and k: "fresh_id s k" and p: "in_int p" "nextPort s < p"
    using instantiate_hosted [OF assms(3-8)] unfolding Let_def by blast
  let ?i = "restored (mkInstDir (workingDir s) k) (t_kernelPath t \<noteq> ''-none-'') k (vm_of t memory cpus p)"
  let ?s = "s\<lparr>nextPort := p, nextId := k, instances := map_put k ?i (instances s), c_world := w'\<rparr>"
  have log: "processing ''instantiate'' c = (Inr (), s)" and same: "instances s = instances c"
    using processing_run [OF assms(1), of "''instantiate''"] assms(2) by auto
  have "ctl_new os (t_name t) memory cpus c = (Inr (getInstanceInfo ?i w'), ?s)"
    using log new assms(4,5)
    by (simp add: ctl_new_def seq_Inr new_or_echo_def bnd_gets echo_info_def getTemplates_def try_catch_def
        bnd_Inr gets_def del: append.simps append_assoc)
  then show ?thesis
    using k p same
    by (intro exI [of _ ?i] exI [of _ ?s]) (simp add: restored_def vm_of_def Process_new_def)
qed

lemma new_info_ok:
  assumes "map_find the_templates (t_name (i_template i)) = Some (i_template i)"
    and "in_int (i_memory i)" "in_int (i_cpus i)" "in_int (i_sshPort i)"
  shows "frame_ok (InstanceInfo_serialize (getInstanceInfo i w))" "info_ok (getInstanceInfo i w)"
  using assms builtin_word_line [OF assms(1)] frame_ok_info [of "getInstanceInfo i w"]
  by (simp_all add: getInstanceInfo_def info_ok_def)

text \<open>
  C11. Creating a machine over a connection. Where the node can host it, the proxy's \<open>instantiate\<close>
  returns the description of exactly the machine the node now has: a fresh numeric id, the template,
  memory and processors asked for, a port above the last one given out, not running. It is the
  one instance added to the node's map, and the connection is ready for the next request.
\<close>

theorem remote_instantiate:
  assumes "connected (n + 15) l" and "clock_ok (c_world (far l))" and "s = logged ''instantiate'' (far l)"
    and "can_host os s" and "templates s = the_templates" and "map_find the_templates (t_name t) = Some t"
    and "in_int memory" and "in_int cpus" and "in_int (nextPort s)" and "map_ok (instances s)"
  shows "\<exists>info l' i. proxy_instantiate (controller_react os) t memory cpus l = (Inr info, l') \<and> connected n l'
    \<and> info = getInstanceInfo i (c_world (far l')) \<and> fresh_id s (i_id i) \<and> nextPort s < ii_sshPort info
    \<and> ii_id info = to_string (i_id i) \<and> ii_templ info = t_name t \<and> ii_memory info = memory \<and> ii_cpus info = cpus
    \<and> \<not> ii_running info
    \<and> (\<forall>k. map_find (instances (far l')) k = (if k = i_id i then Some i else map_find (instances (far l)) k))"
proof -
  obtain i c' where op: "ctl_new os (t_name t) memory cpus (far l) = (Inr (getInstanceInfo i (c_world c')), c')"
    and i: "fresh_id s (i_id i)" "nextPort s < i_sshPort i" "in_int (i_sshPort i)" "i_memory i = memory" "i_cpus i = cpus"
      "i_template i = t" "p_pid (i_process i) = 0" "instances c' = map_put (i_id i) i (instances (far l))"
    using ctl_new_hosted [OF assms(2-10)] by blast
  have ok: "frame_ok (InstanceInfo_serialize (getInstanceInfo i (c_world c')))" "info_ok (getInstanceInfo i (c_world c'))"
    using i assms(6-8) by (intro new_info_ok; simp)+
  have "node.linked (n + 15) l" using assms(1) by (simp add: connected_linked)
  from node.proxy_new_vm [OF this op builtin_word_line [OF assms(6)] assms(7,8) ok] obtain l' where
    "proxy_instantiate (controller_react os) t memory cpus l = (Inr (getInstanceInfo i (c_world c')), l')"
    "node.linked n l'" "far l' = c'" by blast
  moreover have "map_ok (instances (far l))"
    using processing_run [OF assms(2), of "''instantiate''"] assms(3,10) by auto
  ultimately show ?thesis
    using i by (intro exI [of _ "getInstanceInfo i (c_world c')"] exI [of _ l'] exI [of _ i])
      (simp add: connected_linked getInstanceInfo_def isRunning_def)
qed

lemma logged_node_can_host: "can_host plain_os (node\<lparr>c_world := taken_world\<lparr>w_out := out\<rparr>\<rparr>)"
proof -
  let ?w = "taken_world\<lparr>w_out := out\<rparr>"
  have "\<not> w_connects ?w ''127.0.0.1'' 22" by (simp add: taken_world_def)
  moreover have "fresh_id (node\<lparr>c_world := ?w\<rparr>) 1000"
    by (simp add: fresh_id_def node_def taken_world_def idle_world_def mkInstDir_def)
  moreover have "fs_ok ?w" using idle_fs_ok by (simp add: taken_world_def fs_ok_def)
  ultimately show ?thesis
    unfolding can_host_def
    by (auto simp: node_def mkdir_works_def plain_os_def in_int_def int_min_def int_max_def
        clock_ok_def taken_world_def idle_world_def Let_def intro!: exI [of _ 1000])
qed

lemma node_simps [simp]:
  "c_world node = taken_world" "templates node = the_templates" "instances node = []" "nextPort node = 2200"
  "nextId node = 1000" "workingDir node = ''/tmp/s1''"
  by (simp_all add: node_def)

lemma cirros_builtin: "map_find the_templates (t_name cirros) = Some cirros"
  by (simp add: the_templates_def cirros_def wheezy_def map_find_def)

theorem remote_instantiate_witness:
  "\<exists>s info l' i. s = logged ''instantiate'' node
    \<and> proxy_instantiate (controller_react plain_os) cirros 64 2 (link_to node) = (Inr info, l') \<and> connected 0 l'
    \<and> info = getInstanceInfo i (c_world (far l')) \<and> fresh_id s (i_id i) \<and> nextPort s < ii_sshPort info
    \<and> ii_id info = to_string (i_id i) \<and> ii_templ info = t_name cirros \<and> ii_memory info = 64 \<and> ii_cpus info = 2
    \<and> \<not> ii_running info
    \<and> (\<forall>k. map_find (instances (far l')) k = (if k = i_id i then Some i else map_find (instances (far (link_to node))) k))"
proof -
  have clock: "clock_ok (c_world (far (link_to node)))" by simp
  obtain out where s: "logged ''instantiate'' node = node\<lparr>c_world := taken_world\<lparr>w_out := out\<rparr>\<rparr>"
    using processing_run [of node "''instantiate''"] by auto
  have fresh: "connected (0 + 15) (link_to node)" by (rule connected_fresh) simp
  have s': "node\<lparr>c_world := taken_world\<lparr>w_out := out\<rparr>\<rparr> = logged ''instantiate'' (far (link_to node))"
    using s by simp
  have "templates (node\<lparr>c_world := taken_world\<lparr>w_out := out\<rparr>\<rparr>) = the_templates"
    "in_int 64" "in_int 2" "in_int (nextPort (node\<lparr>c_world := taken_world\<lparr>w_out := out\<rparr>\<rparr>))"
    "map_ok (instances (node\<lparr>c_world := taken_world\<lparr>w_out := out\<rparr>\<rparr>))"
    by (simp_all add: in_int_def int_min_def int_max_def)
  from remote_instantiate [OF fresh clock s' logged_node_can_host this(1) cirros_builtin this(2-5)]
  show ?thesis unfolding s by blast
qed

section \<open>Remote listing\<close>

lemma map_find_map: "inj f \<Longrightarrow> map_find (map (\<lambda>(k, v). (f k, g v)) m) (f k) = map_option g (map_find m k)"
  by (induction m) (auto simp: map_find_def inj_eq)

lemma map_find_map_other: "k' \<notin> range f \<Longrightarrow> map_find (map (\<lambda>(k, v). (f k, g v)) m) k' = None"
  by (induction m) (auto simp: map_find_def)

lemma getInstanceInfo_out [simp]: "getInstanceInfo i (w\<lparr>w_out := out\<rparr>) = getInstanceInfo i w"
  by (simp add: getInstanceInfo_def isRunning_def)

lemma ctl_inv_entry: "ctl_inv wdir c \<Longrightarrow> (k, i) \<in> set (instances c) \<Longrightarrow> inst_inv wdir k i"
  using cxx_map.find_iff [of "instances c" k i] by (simp add: ctl_inv_def)

lemma keyed_infos:
  assumes "ctl_inv wdir c"
  shows "map (\<lambda>x. (ii_id x, x)) (infos c)
    = map (\<lambda>(k, i). (to_string k, getInstanceInfo i (c_world c))) (instances c)"
  using ctl_inv_entry [OF assms]
  by (auto simp: infos_def map_values_def getInstances_def getInstanceInfo_def inst_inv_def)

lemma infos_ok:
  assumes "ctl_inv wdir c"
  shows "list_all info_ok (infos c)" "frame_ok (concat (map InstanceInfo_serialize (infos c)))"
    "distinct (map ii_id (infos c))"
proof -
  have entry: "info_ok x \<and> word_line (ii_id x) \<and> word_line (ii_templ x)" if x: "x \<in> set (infos c)" for x
  proof -
    obtain k i where i: "(k, i) \<in> set (instances c)" "x = getInstanceInfo i (c_world c)"
      using x by (auto simp: infos_def map_values_def getInstances_def)
    with ctl_inv_entry [OF assms i(1)] builtin_word_line show ?thesis
      by (auto simp: inst_inv_def info_ok_def getInstanceInfo_def)
  qed
  then show "list_all info_ok (infos c)" by (simp add: list_all_iff)
  have "list_all word_line (concat (map InstanceInfo_serialize (infos c)))"
    using entry by (auto simp: list_all_iff InstanceInfo_serialize_def)
  then show "frame_ok (concat (map InstanceInfo_serialize (infos c)))"
    unfolding frame_ok_def using sendable_words by blast
  have "map ii_id (infos c) = map to_string (map fst (instances c))"
    using arg_cong [OF keyed_infos [OF assms], of "map fst"] by (simp add: comp_def case_prod_beta)
  moreover have "distinct (map fst (instances c))"
    using assms cxx_map.entries_distinct [of "instances c"] by (simp add: ctl_inv_def)
  ultimately show "distinct (map ii_id (infos c))"
    by (simp only: distinct_map [of to_string]) (auto intro: inj_onI to_string_inj)
qed

text \<open>The map a proxy makes of the descriptions it receives, and the call that gives it.\<close>

definition info_map :: "instanceInfo list \<Rightarrow> (string, instanceInfo) cmap" where
  "info_map is = fold (\<lambda>i. map_put (ii_id i) i) is []"

lemma infos_world [simp]: "infos (c\<lparr>c_world := (c_world c)\<lparr>w_out := out\<rparr>\<rparr>) = infos c"
  by (simp add: infos_def getInstances_def)

lemma cost_infos: "cost (concat (map InstanceInfo_serialize xs)) = 12 * length xs + 3"
  by (induction xs) (simp_all add: cost_def InstanceInfo_serialize_def)

lemma node_listing_call:
  assumes "connected (n + 12 * length (instances (far l)) + 3) l" "clock_ok (c_world (far l))" "ctl_inv wdir (far l)"
  shows "\<exists>l'. proxy_getInstances (controller_react os) l = (Inr (info_map (infos (far l))), l')
    \<and> connected n l' \<and> far l' = logged ''getInstances'' (far l)"
proof -
  obtain out where log: "logged ''getInstances'' (far l) = (far l)\<lparr>c_world := (c_world (far l))\<lparr>w_out := out\<rparr>\<rparr>"
    "processing ''getInstances'' (far l) = (Inr (), logged ''getInstances'' (far l))"
    using processing_run [OF assms(2), of "''getInstances''"] by auto
  have op: "ctl_instances (far l) = (Inr (infos (far l)), logged ''getInstances'' (far l))"
    using log(2) by (simp add: ctl_instances_def seq_def bnd_def gets_def) (simp add: log(1))
  have "length (infos (far l)) = length (instances (far l))"
    by (simp add: infos_def map_values_def getInstances_def)
  with assms(1) have "node.linked (n + cost (concat (map InstanceInfo_serialize (infos (far l))))) l"
    by (simp add: connected_linked cost_infos add.assoc)
  from node.proxy_instances [OF this op infos_ok(1,2) [OF assms(3)], of os] show ?thesis
    by (auto simp: connected_linked info_map_def)
qed

text \<open>
  C16. The remote listing is the controller's map. For a controller in any state it can reach, the map
  the proxy's \<open>getInstances\<close> returns has exactly one entry for each instance, under its id printed
  as a decimal number, with its current description; and asking changes nothing but the log.
\<close>

theorem remote_listing:
  assumes "connected (n + 12 * length (instances (far l)) + 3) l" and "clock_ok (c_world (far l))"
    and "reachable os wdir (far l)"
  shows "\<exists>m l' out. proxy_getInstances (controller_react os) l = (Inr m, l') \<and> connected n l'
    \<and> far l' = (far l)\<lparr>c_world := (c_world (far l))\<lparr>w_out := out\<rparr>\<rparr>
    \<and> (\<forall>k. map_find m (to_string k) =
         map_option (\<lambda>i. getInstanceInfo i (c_world (far l))) (map_find (instances (far l)) k))
    \<and> (\<forall>key. key \<notin> range to_string \<longrightarrow> map_find m key = None)"
proof -
  note inv = reachable_ctl_inv [OF assms(3)]
  obtain l' where l': "proxy_getInstances (controller_react os) l = (Inr (info_map (infos (far l))), l')"
    "connected n l'" "far l' = logged ''getInstances'' (far l)"
    using node_listing_call [OF assms(1,2) inv, of os] by blast
  obtain out where out: "logged ''getInstances'' (far l) = (far l)\<lparr>c_world := (c_world (far l))\<lparr>w_out := out\<rparr>\<rparr>"
    using processing_run [OF assms(2), of "''getInstances''"] by auto
  have find: "map_find (info_map (infos (far l))) key
      = map_find (map (\<lambda>(k, i). (to_string k, getInstanceInfo i (c_world (far l)))) (instances (far l))) key" for key
    using cxx_map.find_fold_from_empty [OF infos_ok(3) [OF inv], of "\<lambda>i. i" key] keyed_infos [OF inv]
    by (simp add: map_find_def info_map_def)
  have inj: "inj to_string" by (intro injI to_string_inj)
  then show ?thesis
    using l' out by (intro exI [of _ "info_map (infos (far l))"] exI [of _ l'] exI [of _ out])
      (simp add: find map_find_map [OF inj] map_find_map_other)
qed

lemma vm_node_reachable: "\<exists>s. reachable plain_os ''/tmp/s1'' s \<and> clock_ok (c_world s) \<and> length (instances s) = 1"
proof -
  have n: "in_int 64" "in_int 2" "in_int (nextPort node)"
    by (simp_all add: in_int_def int_min_def int_max_def)
  obtain k p w' where hosted: "instantiate plain_os cirros 64 2 node =
      (Inr (restored (mkInstDir (workingDir node) k) (t_kernelPath cirros \<noteq> ''-none-'') k (vm_of cirros 64 2 p)),
       node\<lparr>nextPort := p, nextId := k, instances := map_put k (restored (mkInstDir (workingDir node) k)
          (t_kernelPath cirros \<noteq> ''-none-'') k (vm_of cirros 64 2 p)) (instances node), c_world := w'\<rparr>)"
    and clock: "w_clock w' = w_clock (c_world node)"
    using instantiate_hosted [OF node_can_host node_simps(2) cirros_builtin n] unfolding Let_def by blast
  let ?s = "snd (instantiate plain_os cirros 64 2 node)"
  have "reachable plain_os ''/tmp/s1'' ?s"
    using moved [OF node_reachable step_instantiate [of plain_os node cirros 64 2]] .
  moreover have "clock_ok (c_world ?s)" "length (instances ?s) = 1"
    using hosted clock by (simp_all add: clock_ok_def) (simp add: taken_world_def idle_world_def)
  ultimately show ?thesis by blast
qed

theorem remote_listing_witness:
  "\<exists>c m l' out. instances c \<noteq> [] \<and> reachable plain_os ''/tmp/s1'' c
    \<and> proxy_getInstances (controller_react plain_os) (link_to c) = (Inr m, l')
    \<and> far l' = c\<lparr>c_world := (c_world c)\<lparr>w_out := out\<rparr>\<rparr>
    \<and> (\<forall>k. map_find m (to_string k) =
         map_option (\<lambda>i. getInstanceInfo i (c_world c)) (map_find (instances c) k))"
proof -
  obtain c where c: "reachable plain_os ''/tmp/s1'' c" "clock_ok (c_world c)" "length (instances c) = 1"
    using vm_node_reachable by blast
  then have "connected (0 + 12 * length (instances (far (link_to c))) + 3) (link_to c)" "instances c \<noteq> []"
    by (auto intro!: connected_fresh)
  from this(2) remote_listing [OF this(1), of plain_os "''/tmp/s1''"] c show ?thesis
    unfolding far_link_to by blast
qed

section \<open>Requests that end the program\<close>

lemma react_throws:
  assumes "sv_ready n sv" "frame_ok ds" "request os ds sv = (Inl (Throws e), sv')" "s_out (sv_conn sv') = []"
  shows "controller_react os (frame ds) sv = (([], True), sv'\<lparr>sv_fault := Some (Throws e)\<rparr>)"
proof -
  let ?conn = "sv_conn sv"
  have q: "quiet n ?conn" "sv_fault sv = None" using assms(1) by (simp_all add: sv_ready_def)
  have "Socket_read (?conn\<lparr>s_in := frame ds\<rparr>) = (Inr ds, ?conn\<lparr>s_in := []\<rparr>)"
    using Socket_read_frame [OF assms(2), of "?conn\<lparr>s_in := frame ds\<rparr>" "[]"] by simp
  moreover have "?conn\<lparr>s_in := []\<rparr> = ?conn" using q(1) by (simp add: quiet_def)
  ultimately have "serve os (sv\<lparr>sv_conn := ?conn\<lparr>s_in := frame ds\<rparr>\<rparr>) = (Throws e, sv'\<lparr>sv_fault := Some (Throws e)\<rparr>)"
    using assms(3) by (simp add: serve.simps [of os "sv\<lparr>sv_conn := ?conn\<lparr>s_in := frame ds\<rparr>\<rparr>"])
  moreover have "(sv_conn sv')\<lparr>s_out := []\<rparr> = sv_conn sv'" using assms(4) by simp
  ultimately show ?thesis using q by (simp add: controller_react_def quiet_def assms(4))
qed

text \<open>
  C22. One malformed request ends the whole node. The empty message (\<open>commands.at(0)\<close>) and an
  \<open>instantiate\<close> with a number that \<open>stoi\<close> rejects (\<open>deserialize\<close> stands before the \<open>try\<close>) throw out of
  the handler thread: the client gets no reply but a closed connection, and no later request on
  the connection is answered.
\<close>

theorem malformed_request_ends_node:
  assumes "sv_ready n sv" and "clock_ok (c_world (sv_ctl sv))"
    and "ds = [] \<and> e = Out_Of_Range
      \<or> (\<exists>args. ds = ''instantiate'' # args \<and> list_all word_line args
           \<and> InstanceInfo_deserialize args = Inl (Throws e))"
  shows "\<exists>sv'. controller_react os (frame ds) sv = (([], True), sv') \<and> sv_fault sv' = Some (Throws e)
    \<and> instances (sv_ctl sv') = instances (sv_ctl sv)
    \<and> (\<forall>bytes. controller_react os bytes sv' = (([], True), sv'))"
proof -
  have out: "s_out (sv_conn sv) = []" using assms(1) by (simp add: sv_ready_def quiet_def)
  have dead: "controller_react os bytes (sv'\<lparr>sv_fault := Some (Throws e)\<rparr>) = (([], True), sv'\<lparr>sv_fault := Some (Throws e)\<rparr>)"
    for bytes sv' by (simp add: controller_react_def)
  from assms(3) show ?thesis
  proof (elim disjE conjE exE)
    assume ds: "ds = []" and e: "e = Out_Of_Range"
    have "request os [] sv = (Inl (Throws Out_Of_Range), sv)"
      by (simp add: request_def vec_at_checked_def)
    from react_throws [OF assms(1) _ this out] show ?thesis
      unfolding ds e by (intro exI [of _ "sv\<lparr>sv_fault := Some (Throws Out_Of_Range)\<rparr>"])
        (simp add: frame_ok_def dead [unfolded e])
  next
    fix args
    assume ds: "ds = ''instantiate'' # args" and args: "list_all word_line args"
      and bad: "InstanceInfo_deserialize args = Inl (Throws e)"
    obtain w where log: "processing ''instantiate'' (sv_ctl sv) = (Inr (), (sv_ctl sv)\<lparr>c_world := w\<rparr>)"
      using processing_run [OF assms(2), of "''instantiate''"] by auto
    let ?sv = "sv\<lparr>sv_ctl := (sv_ctl sv)\<lparr>c_world := w\<rparr>\<rparr>"
    have "request os ds sv = (Inl (Throws e), ?sv)"
      using log bad unfolding ds
      by (simp add: request_def vec_at_checked_def processing_def seq_def bnd_def of_res_def sv_run
          dispatch_def cmd_instantiate_def)
    moreover have "frame_ok ds" unfolding ds frame_ok_def using args by (simp add: sendable_words)
    moreover have "s_out (sv_conn ?sv) = []" using out by simp
    ultimately have "controller_react os (frame ds) sv = (([], True), ?sv\<lparr>sv_fault := Some (Throws e)\<rparr>)"
      by (intro react_throws [OF assms(1)])
    then show ?thesis
      by (intro exI [of _ "?sv\<lparr>sv_fault := Some (Throws e)\<rparr>"]) (simp add: dead)
  qed
qed

theorem malformed_request_ends_node_witness:
  "\<exists>sv'. controller_react plain_os (frame [''instantiate'', ''0'', ''cirros'', ''lots'', ''2'', ''0'', ''0''])
      (l_peer (link_to node)) = (([], True), sv') \<and> sv_fault sv' = Some (Throws Invalid_Argument)
    \<and> instances (sv_ctl sv') = instances (sv_ctl (l_peer (link_to node)))
    \<and> (\<forall>bytes. controller_react plain_os bytes sv' = (([], True), sv'))"
proof (rule malformed_request_ends_node [of 0])
  show "sv_ready 0 (l_peer (link_to node))"
    using connected_fresh [of 0 node] by (simp add: connected_def)
  have "stoi ''lots'' = Inl (Throws Invalid_Argument)"
    by (simp add: stoi_def strtol_def is_space_def is_digit_def char_code_def)
  then have "InstanceInfo_deserialize [''0'', ''cirros'', ''lots'', ''2'', ''0'', ''0''] = Inl (Throws Invalid_Argument)"
    by (simp add: InstanceInfo_deserialize_def InstanceInfo_SERIAL_SIZE_def)
  then show "[''instantiate'', ''0'', ''cirros'', ''lots'', ''2'', ''0'', ''0''] = [] \<and> Invalid_Argument = Out_Of_Range
      \<or> (\<exists>args. [''instantiate'', ''0'', ''cirros'', ''lots'', ''2'', ''0'', ''0''] = ''instantiate'' # args
           \<and> list_all word_line args \<and> InstanceInfo_deserialize args = Inl (Throws Invalid_Argument))"
    by (simp add: word_line_def)
qed simp

section \<open>The accept loop\<close>

definition accept_failed :: "world \<Rightarrow> string" where
  "accept_failed w = log_line ERROR (c_str (w_clock w)) ''in ServerSocket::accept(): accept() failed''"

lemma accept_turn_run:
  assumes "clock_ok w"
  shows "accept_turn fd w =
    (if 0 \<le> fd then (Inr (Some (new_socket fd)), w)
     else (Inr None, w\<lparr>w_out := w_out w @ [accept_failed w]\<rparr>))"
proof -
  let ?msg = "''in ServerSocket::accept(): accept() failed''"
  have "log_error ?msg w = (Inr (), w\<lparr>w_out := w_out w @ [accept_failed w]\<rparr>)"
    using log_output_line [OF assms, of ?msg INFO ERROR] by (simp add: log_error_def accept_failed_def)
  then show ?thesis
    by (simp add: accept_turn_def try_catch_def ServerSocket_accept_def seq_def bnd_def of_res_def ret_def
        net_exception_def)
qed

lemma accept_loop_run:
  assumes "clock_ok w"
  shows "accept_loop fds w = (Inr (map new_socket (filter (\<lambda>fd. 0 \<le> fd) fds)),
    w\<lparr>w_out := w_out w @ replicate (length (filter (\<lambda>fd. fd < 0) fds)) (accept_failed w)\<rparr>)"
  using assms
proof (induction fds arbitrary: w)
  case (Cons fd fds)
  have same: "accept_failed (w\<lparr>w_out := out\<rparr>) = accept_failed w" for out by (simp add: accept_failed_def)
  have "clock_ok (w\<lparr>w_out := out\<rparr>)" for out using Cons.prems by (simp add: clock_ok_def)
  from Cons.IH [OF this] Cons.IH [OF Cons.prems] show ?case
    by (simp add: bnd_def ret_def accept_turn_run [OF Cons.prems] same replicate_app_Cons_same)
qed (simp add: ret_def)

text \<open>
  C38. The accept loop never ends: whatever \<open>::accept\<close> returns, and however often it fails, every
  turn completes. Each connection that was accepted gets its handler, in order; each failure is
  exactly one logged line, and nothing else changes.
\<close>

theorem accept_loop_survives:
  assumes "clock_ok w"
  shows "accept_loop fds w = (Inr (map new_socket (filter (\<lambda>fd. 0 \<le> fd) fds)),
    w\<lparr>w_out := w_out w @ replicate (length (filter (\<lambda>fd. fd < 0) fds)) (accept_failed w)\<rparr>)"
  using assms by (rule accept_loop_run)

theorem accept_loop_survives_witness:
  "accept_loop [4, - 1, 5] idle_world
    = (Inr (map new_socket (filter (\<lambda>fd. 0 \<le> fd) [4, - 1, 5])),
       idle_world\<lparr>w_out := w_out idle_world @ replicate (length (filter (\<lambda>fd. fd < 0) [4 :: int, - 1, 5]))
         (accept_failed idle_world)\<rparr>)"
  by (rule accept_loop_survives) (simp add: clock_ok_def idle_world_def)

end
