(* ===== verification/Manager_Props.thy ===== *)
theory Manager_Props
  imports Manager_Service Server_Props
begin

text \<open>
  The properties of a manager whose controllers are the nodes of \<open>Controller_Server\<close>: which node an
  \<open>instantiate\<close> request goes to and what comes back, where \<open>run\<close> and \<open>kill\<close> are routed, and which
  controllers the manager starts with. They instantiate the lemmas of \<open>Manager_Laws\<close> with the
  interpretation \<open>node\<close>.
\<close>

section \<open>What a node offers\<close>

abbreviation at_node :: "server mserver \<Rightarrow> nat \<Rightarrow> controller" where
  "at_node ms k \<equiv> far (proxy ms k)"

lemma ctl_templates_run:
  assumes "clock_ok (c_world c)" "templates c = the_templates"
  shows "ctl_templates c = (Inr [cirros, wheezy], logged ''getTemplates'' c)"
proof -
  have "map_values the_templates = [cirros, wheezy]"
    by (simp add: the_templates_def map_values_def)
  with processing_run [OF assms(1), of "''getTemplates''"] assms(2) show ?thesis
    by (auto simp: ctl_templates_def seq_def bnd_def gets_def getTemplates_def)
qed

interpretation nodes: cluster "controller_react os" sv_ready sv_ctl
  ctl_templates ctl_instances "ctl_new os" "ctl_run os" ctl_kill
  by (rule cluster.intro) (rule node.service_axioms)

lemma frame_ok_templates:
  assumes "set ts \<subseteq> {cirros, wheezy}"
  shows "frame_ok (concat (map Template_serialize ts))"
proof -
  have "list_all word_line (Template_serialize cirros)" "list_all word_line (Template_serialize wheezy)"
    by (simp_all add: Template_serialize_def cirros_def wheezy_def word_line_def plain_line_def)
  then have "list_all word_line (concat (map Template_serialize ts))"
    using assms by (fastforce simp: list_all_iff)
  then show ?thesis unfolding frame_ok_def using sendable_words by blast
qed

lemma node_lists:
  assumes "clock_ok (c_world c)" "templates c = the_templates"
  shows "nodes.lists 19 c" "nodes.offered c = {''cirros'', ''wheezy''}" "nodes.listed c = logged ''getTemplates'' c"
proof -
  show "nodes.lists 19 c"
    using ctl_templates_run [OF assms] frame_ok_templates [of "[cirros, wheezy]"]
    by (simp add: nodes.lists_def cost_def Template_serialize_def)
qed (use ctl_templates_run [OF assms] in \<open>simp_all add: nodes.offered_def nodes.listed_def cirros_def wheezy_def\<close>)

section \<open>instantiate\<close>

text \<open>
  \<open>cloud_ok b ms\<close>: the manager has controllers (fewer than \<open>2 ^ 31\<close>), its round robin stands on one of
  them, and each is a node with the built-in templates behind a quiet connection on which \<open>b\<close>
  more lines may be counted.
\<close>

definition cloud_ok :: "nat \<Rightarrow> server mserver \<Rightarrow> bool" where
  "cloud_ok b ms \<longleftrightarrow>
    length (ctrls ms) < 2 ^ 31 \<and> 0 \<le> nextController (ms_mgr ms)
    \<and> nextController (ms_mgr ms) < int (length (ctrls ms))
    \<and> (\<forall>k < length (ctrls ms). connected b (proxy ms k) \<and> clock_ok (c_world (at_node ms k))
         \<and> templates (at_node ms k) = the_templates)"

lemma cloud_lists:
  "cloud_ok (b + 19) ms \<Longrightarrow> k < length (ctrls ms) \<Longrightarrow> nodes.lists 19 (at_node ms k) \<and> node.linked (b + 19) (proxy ms k)"
  using node_lists(1) by (simp add: cloud_ok_def connected_linked)

lemma cloud_offered:
  "cloud_ok b ms \<Longrightarrow> k < length (ctrls ms) \<Longrightarrow> nodes.offered (at_node ms k) = {''cirros'', ''wheezy''}"
  "cloud_ok b ms \<Longrightarrow> k < length (ctrls ms) \<Longrightarrow> nodes.listed (at_node ms k) = logged ''getTemplates'' (at_node ms k)"
  using node_lists(2,3) by (simp_all add: cloud_ok_def)

lemma builtin_name:
  assumes "map_find the_templates n = Some t"
  shows "t_name t \<in> {''cirros'', ''wheezy''}"
  using the_templates_cases [OF assms] by (elim disjE) (simp_all only:, simp_all add: cirros_def wheezy_def)

text \<open>Creating a machine at a node that was just asked for its templates.\<close>

lemma node_creates:
  assumes c: "clock_ok (c_world c)" "templates c = the_templates" and t: "map_find the_templates (t_name t) = Some t"
    and ints: "in_int memory" "in_int cpus" and s: "s = logged ''instantiate'' (logged ''getTemplates'' c)"
    and host: "can_host os s" "in_int (nextPort s)" "map_ok (instances s)"
  shows "\<exists>i c'. ctl_new os (t_name t) memory cpus (logged ''getTemplates'' c) = (Inr (getInstanceInfo i (c_world c')), c')
    \<and> frame_ok (InstanceInfo_serialize (getInstanceInfo i (c_world c'))) \<and> info_ok (getInstanceInfo i (c_world c'))
    \<and> fresh_id s (i_id i) \<and> in_int (i_sshPort i) \<and> i_memory i = memory \<and> i_cpus i = cpus \<and> i_template i = t
    \<and> instances c' = map_put (i_id i) i (instances c)"
proof -
  let ?c = "logged ''getTemplates'' c"
  obtain out where out: "?c = c\<lparr>c_world := (c_world c)\<lparr>w_out := out\<rparr>\<rparr>"
    using processing_run [OF c(1), of "''getTemplates''"] by auto
  then have clock: "clock_ok (c_world ?c)" using c(1) by (simp add: clock_ok_def)
  have tmpl: "templates s = the_templates"
    using processing_run [OF clock, of "''instantiate''"] c(2) out s by auto
  obtain i c' where new: "ctl_new os (t_name t) memory cpus ?c = (Inr (getInstanceInfo i (c_world c')), c')"
    and i: "fresh_id s (i_id i)" "in_int (i_sshPort i)" "i_memory i = memory" "i_cpus i = cpus"
      "i_template i = t" "instances c' = map_put (i_id i) i (instances ?c)"
    using ctl_new_hosted [OF clock s host(1) tmpl t ints host(2,3)] by blast
  moreover have "frame_ok (InstanceInfo_serialize (getInstanceInfo i (c_world c')))" "info_ok (getInstanceInfo i (c_world c'))"
    using i t ints by (intro new_info_ok; simp)+
  ultimately show ?thesis using out by auto
qed

text \<open>
  C3. Round robin. A request for a template the nodes have goes to the controller after the one that
  served last, modulo their number: that node creates the machine, with the memory and
  processors asked for; the reply is its description under the full id, the node's name and its
  own numeric id; the round robin now stands there; and no other node's state changes.
\<close>

theorem manager_round_robin:
  fixes ms :: "server mserver"
  assumes cloud: "cloud_ok (b + 34) ms"
    and k: "k = nat ((nextController (ms_mgr ms) + 1) mod int (length (ctrls ms)))"
    and t: "map_find the_templates (t_name t) = Some t" and ints: "in_int memory" "in_int cpus"
    and s: "s = logged ''instantiate'' (logged ''getTemplates'' (at_node ms k))"
    and host: "can_host os s" "in_int (nextPort s)" "map_ok (instances s)"
  shows "\<exists>ms' i. mgr_instantiate (controller_react os) (new_request (t_name t) memory cpus) ms = (Inr (), ms')
    \<and> fresh_id s (i_id i) \<and> i_memory i = memory \<and> i_cpus i = cpus \<and> i_template i = t
    \<and> instances (at_node ms' k) = map_put (i_id i) i (instances (at_node ms k))
    \<and> ms_conn ms' = write_lines (InstanceInfo_serialize
         ((getInstanceInfo i (c_world (at_node ms' k)))\<lparr>ii_id := cr_id (ctrls ms ! k) @ ''/'' @ to_string (i_id i)\<rparr>)) (ms_conn ms)
    \<and> nextController (ms_mgr ms') = int k \<and> map cr_id (ctrls ms') = map cr_id (ctrls ms)
    \<and> (\<forall>j < length (ctrls ms). j \<noteq> k \<longrightarrow> at_node ms' j = at_node ms j)
    \<and> (\<forall>j < length (ctrls ms). connected b (proxy ms' j))"
proof -
  let ?n = "length (ctrls ms)" and ?b0 = "nextController (ms_mgr ms)"
  have n: "?n < 2 ^ 31" "0 \<le> ?b0" "?b0 < int ?n" using cloud by (simp_all add: cloud_ok_def)
  have turn: "k = turn ?n ?b0 1" using k by (simp add: turn_def)
  have kn: "k < ?n" unfolding turn using n by (intro turn_less) linarith
  have node_k: "clock_ok (c_world (at_node ms k))" "templates (at_node ms k) = the_templates"
    using cloud kn by (simp_all add: cloud_ok_def)
  obtain i c' where new: "ctl_new os (t_name t) memory cpus (logged ''getTemplates'' (at_node ms k))
      = (Inr (getInstanceInfo i (c_world c')), c')"
    and ok: "frame_ok (InstanceInfo_serialize (getInstanceInfo i (c_world c')))" "info_ok (getInstanceInfo i (c_world c'))"
    and i: "fresh_id s (i_id i)" "i_memory i = memory" "i_cpus i = cpus" "i_template i = t"
      "instances c' = map_put (i_id i) i (instances (at_node ms k))"
    using node_creates [OF node_k t ints s host] by blast
  let ?req = "\<lparr>ii_id = ''0'', ii_templ = t_name t, ii_memory = memory, ii_cpus = cpus, ii_sshPort = 0, ii_running = False\<rparr>"
  have req: "InstanceInfo_deserialize (new_request (t_name t) memory cpus) = Inr ?req"
    unfolding new_request_def using ints by (intro InstanceInfo_roundtrip_ok) (simp add: info_ok_def)
  have all: "nodes.lists 19 (at_node ms j) \<and> node.linked (b + 15 + 19) (proxy ms j)" if "j < ?n" for j
    using cloud_lists [of "b + 15" ms j] cloud that by (simp add: add.assoc)
  have offers: "t_name t \<in> nodes.offered (at_node ms k)"
    unfolding cloud_offered(1) [OF cloud kn] by (rule builtin_name [OF t])
  have "\<exists>ms'. mgr_instantiate (controller_react os) (new_request (t_name t) memory cpus) ms = (Inr (), ms')
    \<and> ms_conn ms' = write_lines (InstanceInfo_serialize (setId (makeFullId (cr_id (ctrls ms ! k))
        (ii_id (getInstanceInfo i (c_world c')))) (getInstanceInfo i (c_world c')))) (ms_conn ms)
    \<and> nextController (ms_mgr ms') = int k \<and> map cr_id (ctrls ms') = map cr_id (ctrls ms)
    \<and> m_world (ms_mgr ms') = m_world (ms_mgr ms) \<and> ms_fault ms' = ms_fault ms
    \<and> (\<forall>k' < ?n. node.linked b (proxy ms' k') \<and> at_node ms' k' =
         (if k' = k then c' else if k' \<in> turn ?n ?b0 ` {1..<1} then nodes.listed (at_node ms k') else at_node ms k'))"
  proof (rule nodes.instantiate_goes_to [where B = 19 and j = 1 and req = ?req, OF refl n(1) refl n(2,3) all req])
    show "word_line (ii_templ ?req)" using builtin_word_line [OF t] by simp
    show "ii_templ ?req \<in> nodes.offered (at_node ms k)" using offers by simp
    show "ctl_new os (ii_templ ?req) (ii_memory ?req) (ii_cpus ?req) (nodes.listed (at_node ms k))
        = (Inr (getInstanceInfo i (c_world c')), c')"
      using new by (simp add: cloud_offered(2) [OF cloud kn])
  qed (use kn ok turn in linarith | simp)+
  then obtain ms' where ms': "mgr_instantiate (controller_react os) (new_request (t_name t) memory cpus) ms = (Inr (), ms')"
    "ms_conn ms' = write_lines (InstanceInfo_serialize (setId (makeFullId (cr_id (ctrls ms ! k))
        (ii_id (getInstanceInfo i (c_world c')))) (getInstanceInfo i (c_world c')))) (ms_conn ms)"
    "nextController (ms_mgr ms') = int k" "map cr_id (ctrls ms') = map cr_id (ctrls ms)"
    "\<forall>j < ?n. node.linked b (proxy ms' j) \<and> at_node ms' j = (if j = k then c' else at_node ms j)"
    by auto
  with i kn show ?thesis
    by (intro exI [of _ ms'] exI [of _ i]) (simp add: connected_linked setId_def makeFullId_def getInstanceInfo_def)
qed

text \<open>A manager with two fresh nodes that last used the first one.\<close>

definition two_nodes :: "server mserver" where
  "two_nodes = \<lparr>ms_mgr = \<lparr>controllers =
       [\<lparr>cr_id = ''srv1'', cr_address = ''127.0.0.1'', cr_port = 2300, cr_proxy = link_to node\<rparr>,
        \<lparr>cr_id = ''srv2'', cr_address = ''127.0.0.1'', cr_port = 2400, cr_proxy = link_to node\<rparr>],
       nextController = 0, m_world = idle_world\<rparr>,
     ms_conn = new_socket 6, ms_fault = None\<rparr>"

lemma two_nodes_simps [simp]:
  "length (ctrls two_nodes) = 2" "nextController (ms_mgr two_nodes) = 0" "m_world (ms_mgr two_nodes) = idle_world"
  "proxy two_nodes 0 = link_to node" "proxy two_nodes (Suc 0) = link_to node" "proxy two_nodes 1 = link_to node"
  by (simp_all add: two_nodes_def)

lemma two_nodes_ok: "n < 2 ^ 31 \<Longrightarrow> cloud_ok n two_nodes"
  by (auto simp: cloud_ok_def less_2_cases_iff connected_fresh)

lemma logged_node: "\<exists>out. logged cmd (node\<lparr>c_world := taken_world\<lparr>w_out := out0\<rparr>\<rparr>) = node\<lparr>c_world := taken_world\<lparr>w_out := out\<rparr>\<rparr>"
  if "length cmd \<le> 800"
  using processing_run [OF _ that, of "node\<lparr>c_world := taken_world\<lparr>w_out := out0\<rparr>\<rparr>"] by (auto simp: clock_ok_def)
    (simp add: taken_world_def idle_world_def)

theorem manager_round_robin_witness:
  "\<exists>s ms' i. mgr_instantiate (controller_react plain_os) (new_request (t_name cirros) 64 2) two_nodes = (Inr (), ms')
    \<and> fresh_id s (i_id i) \<and> i_memory i = 64 \<and> i_cpus i = 2 \<and> i_template i = cirros
    \<and> instances (at_node ms' 1) = map_put (i_id i) i (instances (at_node two_nodes 1))
    \<and> ms_conn ms' = write_lines (InstanceInfo_serialize
         ((getInstanceInfo i (c_world (at_node ms' 1)))\<lparr>ii_id := cr_id (ctrls two_nodes ! 1) @ ''/'' @ to_string (i_id i)\<rparr>))
         (ms_conn two_nodes)
    \<and> nextController (ms_mgr ms') = int 1 \<and> map cr_id (ctrls ms') = map cr_id (ctrls two_nodes)
    \<and> (\<forall>j < length (ctrls two_nodes). j \<noteq> 1 \<longrightarrow> at_node ms' j = at_node two_nodes j)
    \<and> (\<forall>j < length (ctrls two_nodes). connected 0 (proxy ms' j))"
proof -
  have node0: "node\<lparr>c_world := taken_world\<lparr>w_out := w_out taken_world\<rparr>\<rparr> = node" by (simp add: node_def)
  obtain out1 where 1: "logged ''getTemplates'' node = node\<lparr>c_world := taken_world\<lparr>w_out := out1\<rparr>\<rparr>"
    using logged_node [of "''getTemplates''" "w_out taken_world"] unfolding node0 by auto
  obtain out2 where s: "logged ''instantiate'' (logged ''getTemplates'' (at_node two_nodes 1))
      = node\<lparr>c_world := taken_world\<lparr>w_out := out2\<rparr>\<rparr>"
    using logged_node [of "''instantiate''" out1] 1 by auto
  let ?s = "node\<lparr>c_world := taken_world\<lparr>w_out := out2\<rparr>\<rparr>"
  have "in_int 64" "in_int 2" "in_int (nextPort ?s)" "map_ok (instances ?s)"
    by (simp_all add: in_int_def int_min_def int_max_def)
  from manager_round_robin [OF two_nodes_ok _ cirros_builtin this(1,2) s [symmetric] logged_node_can_host this(3,4),
      of 0]
  show ?thesis by auto
qed

text \<open>
  C21. A template no node has. Every controller is asked for its templates exactly once and creates
  nothing, the round robin is back where it was, and the reply is the request itself, with the
  id it came with: to the client a failed creation looks like a machine.
\<close>

theorem manager_unknown_template:
  fixes ms :: "server mserver"
  assumes "cloud_ok (b + 19) ms" and "InstanceInfo_deserialize args = Inr req"
    and "ii_templ req \<noteq> ''cirros''" and "ii_templ req \<noteq> ''wheezy''" and "length (ii_templ req) \<le> 800"
    and "clock_ok (m_world (ms_mgr ms))"
  shows "\<exists>ms'. mgr_instantiate (controller_react os) args ms = (Inr (), ms')
    \<and> ms_conn ms' = write_lines (InstanceInfo_serialize req) (ms_conn ms)
    \<and> nextController (ms_mgr ms') = nextController (ms_mgr ms) \<and> map cr_id (ctrls ms') = map cr_id (ctrls ms)
    \<and> (\<forall>k < length (ctrls ms). connected b (proxy ms' k) \<and> at_node ms' k = logged ''getTemplates'' (at_node ms k))"
proof -
  have n: "length (ctrls ms) < 2 ^ 31" "0 \<le> nextController (ms_mgr ms)"
    "nextController (ms_mgr ms) < int (length (ctrls ms))" using assms(1) by (simp_all add: cloud_ok_def)
  have skip: "ii_templ req \<notin> nodes.offered (at_node ms k)" if "k < length (ctrls ms)" for k
    unfolding cloud_offered(1) [OF assms(1) that] using assms(3,4) by simp
  show ?thesis
    using nodes.instantiate_nowhere [OF refl n(1) refl n(2,3) cloud_lists [OF assms(1)] assms(2,5,6) skip]
      cloud_offered(2) [OF assms(1)]
    by (auto simp: connected_linked)
qed

theorem manager_unknown_template_witness:
  "\<exists>ms'. mgr_instantiate (controller_react plain_os) (new_request ''plan9'' 64 2) two_nodes = (Inr (), ms')
    \<and> ms_conn ms' = write_lines (InstanceInfo_serialize (echo_info ''plan9'' 64 2)) (ms_conn two_nodes)
    \<and> nextController (ms_mgr ms') = nextController (ms_mgr two_nodes) \<and> map cr_id (ctrls ms') = map cr_id (ctrls two_nodes)
    \<and> (\<forall>k < length (ctrls two_nodes). connected 0 (proxy ms' k)
         \<and> at_node ms' k = logged ''getTemplates'' (at_node two_nodes k))"
proof (rule manager_unknown_template)
  show "cloud_ok (0 + 19) two_nodes" by (rule two_nodes_ok) simp
  show "InstanceInfo_deserialize (new_request ''plan9'' 64 2) = Inr (echo_info ''plan9'' 64 2)"
    unfolding new_request_def echo_info_def
    by (rule InstanceInfo_roundtrip_ok) (simp add: info_ok_def in_int_def int_min_def int_max_def)
qed (simp_all add: echo_info_def clock_ok_def idle_world_def)

section \<open>run and kill\<close>

lemma find_controller_Some:
  assumes "find_controller name cs = Some k"
  shows "k < length cs" "cr_id (cs ! k) = name" "\<forall>j < k. cr_id (cs ! j) \<noteq> name"
  using assms by (auto simp: find_controller_def find_Some_iff)

lemma find_controller_None: "find_controller name cs = None \<longleftrightarrow> name \<notin> cr_id ` set cs"
  by (fastforce simp: find_controller_def find_None_iff in_set_conv_nth)

lemma digit_strings: "to_string 0 = ''0''" "to_string 1 = ''1''"
  by code_simp+

text \<open>
  C20. Routing. \<open>run\<close> with a full id goes to the first controller with that name and to no other: that
  node's own \<open>run\<close> decides the reply and the node is left as it leaves it, the others are not
  even asked. If there is no controller of that name the reply is 0 and nothing but the log
  changes.
\<close>

theorem manager_routes_run:
  fixes ms :: "server mserver"
  assumes "CHR ''/'' \<notin> set name" and "str_fits (makeFullId name (to_string vmid))" and "in_int vmid" and "length name \<le> 800"
    and "clock_ok (m_world (ms_mgr ms))"
    and "\<And>k. find_controller name (ctrls ms) = Some k \<Longrightarrow> connected (b + 5) (proxy ms k)
      \<and> clock_ok (c_world (at_node ms k)) \<and> run os vmid (logged ''run'' (at_node ms k)) = (r, c) \<and> caught r = Some x"
  shows "\<exists>ms'. mgr_route (proxy_run (controller_react os)) [''run'', makeFullId name (to_string vmid)] ms = (Inr (), ms')
    \<and> map cr_id (ctrls ms') = map cr_id (ctrls ms)
    \<and> (case find_controller name (ctrls ms) of
         None \<Rightarrow> name \<notin> cr_id ` set (ctrls ms) \<and> ctrls ms' = ctrls ms \<and> ms_conn ms' = write_line ''0'' (ms_conn ms)
       | Some k \<Rightarrow> k < length (ctrls ms) \<and> cr_id (ctrls ms ! k) = name \<and> (\<forall>j < k. cr_id (ctrls ms ! j) \<noteq> name)
           \<and> ms_conn ms' = write_line (if x then ''1'' else ''0'') (ms_conn ms)
           \<and> at_node ms' k = c \<and> connected b (proxy ms' k)
           \<and> (\<forall>j. j \<noteq> k \<longrightarrow> proxy ms' j = proxy ms j))"
proof -
  have parts: "rbind (vec_at [''run'', makeFullId name (to_string vmid)] 1) extractIdParts = Inr (name, to_string vmid)"
    using extract_full_id [OF assms(1,2)] by (simp add: vec_at_def)
  have digit: "to_string (bool_int y) = (if y then ''1'' else ''0'')" for y
    by (cases y) (simp_all add: bool_int_def digit_strings)
  show ?thesis
  proof (cases "find_controller name (ctrls ms)")
    case None
    let ?msg = "''controller with id '' @ name @ '' not found''"
    have "length ?msg \<le> 900" using assms(4) by simp
    then obtain w where "mlog (log_warn ?msg) (ms_mgr ms) = (Inr (), (ms_mgr ms)\<lparr>m_world := w\<rparr>)"
      using log_output_short [OF assms(5), of ?msg INFO WARN] by (auto simp: mlog_def zoom_def log_warn_def
          simp del: append.simps append_assoc)
    with None digit [of False] find_controller_None [of name "ctrls ms"] show ?thesis
      by (simp add: mgr_route_def parts [simplified] bnd_def of_res_def gets_def seq_def mg_do_run mg_run ret_def
          del: append.simps append_assoc)
  next
    case (Some k)
    note k = find_controller_Some [OF Some] and far = assms(6) [OF Some]
    obtain out where "processing ''run'' (at_node ms k) = (Inr (), logged ''run'' (at_node ms k))"
      using processing_run [of "at_node ms k" "''run''"] far by auto
    then have "ctl_run os (to_string vmid) (at_node ms k) = (Inr x, c)"
      using by_number_caught [where f = "run os", OF assms(3)] far by (simp add: ctl_run_def seq_Inr)
    with far obtain l where l: "proxy_run (controller_react os) (to_string vmid) (proxy ms k) = (Inr x, l)"
      "node.linked b l" "far l = c"
      using node.proxy_run_vm [of b "proxy ms k" os "to_string vmid" x c] by (auto simp: connected_linked)
    let ?ms = "set_link k l ms"
    have "mgr_route (proxy_run (controller_react os)) [''run'', makeFullId name (to_string vmid)] ms
        = (Inr (), ?ms\<lparr>ms_conn := write_line (if x then ''1'' else ''0'') (ms_conn ms)\<rparr>)"
      using Some l(1) digit
      by (simp add: mgr_route_def parts [simplified] bnd_def of_res_def gets_def on_ctrl_run mg_run)
    then show ?thesis
      using k l(2,3) Some set_link_simps(2) [of k l ms]
      by (simp add: connected_linked)
  qed
qed

theorem manager_routes_run_witness:
  "\<exists>ms ms' c. at_node ms 1 = vm_node 2202 \<and> run plain_os 1000 (logged ''run'' (vm_node 2202)) = (Inr True, c)
    \<and> mgr_route (proxy_run (controller_react plain_os)) [''run'', makeFullId ''srv2'' (to_string 1000)] ms = (Inr (), ms')
    \<and> ms_conn ms' = write_line ''1'' (ms_conn ms) \<and> at_node ms' 1 = c \<and> proxy ms' 0 = proxy ms 0"
proof -
  let ?ms = "set_link 1 (link_to (vm_node 2202)) two_nodes"
  have found: "find_controller ''srv2'' (ctrls ?ms) = Some 1"
    by (simp add: find_controller_def upt_rec two_nodes_def set_link_def)
  have len: "length (ctrls ?ms) = 2" by simp
  have far: "proxy ?ms 1 = link_to (vm_node 2202)" by simp
  obtain out where "logged ''run'' (vm_node 2202) = (vm_node 2202)\<lparr>c_world := taken_world\<lparr>w_out := out\<rparr>\<rparr>"
    using processing_run [of "vm_node 2202" "''run''"] by auto
  then have run: "run plain_os 1000 (logged ''run'' (vm_node 2202))
      = (Inr True, snd (run plain_os 1000 (logged ''run'' (vm_node 2202))))"
    by (simp add: vm_node_run)
  let ?c = "snd (run plain_os 1000 (logged ''run'' (vm_node 2202)))"
  have "\<exists>ms'. mgr_route (proxy_run (controller_react plain_os)) [''run'', makeFullId ''srv2'' (to_string 1000)] ?ms = (Inr (), ms')
    \<and> map cr_id (ctrls ms') = map cr_id (ctrls ?ms)
    \<and> (case find_controller ''srv2'' (ctrls ?ms) of
         None \<Rightarrow> ''srv2'' \<notin> cr_id ` set (ctrls ?ms) \<and> ctrls ms' = ctrls ?ms \<and> ms_conn ms' = write_line ''0'' (ms_conn ?ms)
       | Some k \<Rightarrow> k < length (ctrls ?ms) \<and> cr_id (ctrls ?ms ! k) = ''srv2'' \<and> (\<forall>j < k. cr_id (ctrls ?ms ! j) \<noteq> ''srv2'')
           \<and> ms_conn ms' = write_line (if True then ''1'' else ''0'') (ms_conn ?ms)
           \<and> at_node ms' k = ?c \<and> connected 0 (proxy ms' k)
           \<and> (\<forall>j. j \<noteq> k \<longrightarrow> proxy ms' j = proxy ?ms j))"
  proof (rule manager_routes_run)
    fix k
    assume "find_controller ''srv2'' (ctrls ?ms) = Some k"
    then have "k = 1" using found by simp
    then show "connected (0 + 5) (proxy ?ms k) \<and> clock_ok (c_world (at_node ?ms k))
        \<and> run plain_os 1000 (logged ''run'' (at_node ?ms k)) = (Inr True, ?c) \<and> caught (Inr True) = Some True"
      using run far by (simp add: connected_fresh)
  qed (simp_all add: makeFullId_def str_fits_def in_int_def int_min_def int_max_def clock_ok_def idle_world_def
      to_string_1000)
  then obtain ms' where "mgr_route (proxy_run (controller_react plain_os))
      [''run'', makeFullId ''srv2'' (to_string 1000)] ?ms = (Inr (), ms')"
    "ms_conn ms' = write_line ''1'' (ms_conn ?ms)" "at_node ms' 1 = ?c" "\<forall>j. j \<noteq> 1 \<longrightarrow> proxy ms' j = proxy ?ms j"
    unfolding found option.case if_True by blast
  with run far show ?thesis
    by (intro exI [of _ ?ms] exI [of _ ms'] exI [of _ ?c]) simp
qed

section \<open>The controllers file\<close>

type_synonym entry = "string \<times> string \<times> int"

definition entry_words :: "entry \<Rightarrow> string list" where
  "entry_words = (\<lambda>(name, address, port). [name, address @ '':'' @ to_string port])"

definition entry_ok :: "entry \<Rightarrow> bool" where
  "entry_ok = (\<lambda>(name, address, port). CHR '':'' \<notin> set address \<and> str_fits (address @ '':'' @ to_string port)
     \<and> in_int port \<and> length name \<le> 800)"

definition entry_of :: "'r ctrlRef \<Rightarrow> entry" where
  "entry_of c = (cr_id c, cr_address c, cr_port c)"

definition fresh_ref :: "(string \<Rightarrow> int \<Rightarrow> 'r) \<Rightarrow> 'r ctrlRef \<Rightarrow> bool" where
  "fresh_ref dial c \<longleftrightarrow>
    (\<exists>fd. cr_proxy c = \<lparr>l_socket = new_socket fd, l_peer = dial (cr_address c) (cr_port c)\<rparr>)"

lemma explode_entry:
  assumes "CHR '':'' \<notin> set address" "str_fits (address @ '':'' @ to_string port)" "in_int port"
  shows "explodeAddress (address @ '':'' @ to_string port) = Inr (address, port)"
proof -
  let ?addr = "address @ CHR '':'' # to_string port"
  have "takeWhile (\<lambda>c. c \<noteq> CHR '':'') ?addr = address"
    using assms(1) by (intro takeWhile_stop) auto
  then show ?thesis
    using assms substr_to_find [of ?addr "CHR '':''"] substr_after_find_in [of address "CHR '':''" "to_string port"]
    by (simp add: explodeAddress_def)
qed

lemma load_entry_words:
  fixes s :: "'r manager"
  assumes "clock_ok (m_world s)" "\<And>n. w_socket (m_world s) n \<noteq> - 1" "entry_ok (name, address, port)"
  shows "\<exists>new out. (\<forall>rest. load_controllers dial (entry_words (name, address, port) @ rest) s
      = load_controllers dial rest (s\<lparr>controllers := controllers s @ new,
          m_world := (m_world s)\<lparr>w_fds := Suc (w_fds (m_world s)), w_out := out\<rparr>\<rparr>))
    \<and> map entry_of new = filter (\<lambda>(n, a, p). connects (m_world s) a p) [(name, address, port)]
    \<and> list_all (fresh_ref dial) new"
proof -
  let ?w = "m_world s" and ?msg = "''failed to connect to '' @ name @ '' controller instance''"
  let ?dial = "try_catch (\<lambda>_. True)
      (bnd (zoom m_world (\<lambda>w s. s\<lparr>m_world := w\<rparr>) (proxy_new (dial address port) address port)) (\<lambda>l.
         modify (\<lambda>s. s\<lparr>controllers := controllers s
           @ [\<lparr>cr_id = name, cr_address = address, cr_port = port, cr_proxy = l\<rparr>]\<rparr>)))
      (\<lambda>_. mlog (log_error ?msg)) :: ('r manager, unit) M"
  have addr: "explodeAddress (address @ CHR '':'' # to_string port) = Inr (address, port)"
    using assms(3) explode_entry [of address port] by (simp add: entry_ok_def)
  have step: "load_controllers dial (entry_words (name, address, port) @ rest) = seq ?dial (load_controllers dial rest)"
    for rest
    unfolding entry_words_def
    by (simp only: prod.case append_Cons append_Nil load_controllers.simps addr bnd_of_res)
  have left: "socket_left ?w" using assms(2) by (simp add: socket_left_def)
  have len: "length ?msg \<le> 900" using assms(3) by (simp add: entry_ok_def)
  show ?thesis
  proof (cases "connects ?w address port")
    case True
    let ?l = "\<lparr>l_socket = new_socket (w_socket ?w (w_fds ?w)), l_peer = dial address port\<rparr>"
    let ?c = "\<lparr>cr_id = name, cr_address = address, cr_port = port, cr_proxy = ?l\<rparr>"
    have "proxy_new (dial address port) address port ?w = (Inr ?l, ?w\<lparr>w_fds := Suc (w_fds ?w)\<rparr>)"
      using left True by (simp add: proxy_new_def bnd_def Socket_connect_run ret_def)
    then have "?dial s = (Inr (), s\<lparr>controllers := controllers s @ [?c], m_world := ?w\<lparr>w_fds := Suc (w_fds ?w)\<rparr>\<rparr>)"
      unfolding try_catch_def bnd_def zoom_def by (simp add: modify_def del: append.simps append_assoc)
    then have "load_controllers dial (entry_words (name, address, port) @ rest) s = load_controllers dial rest
        (s\<lparr>controllers := controllers s @ [?c], m_world := ?w\<lparr>w_fds := Suc (w_fds ?w)\<rparr>\<rparr>)" for rest
      unfolding step by (rule seq_Inr)
    then show ?thesis
      using True by (intro exI [of _ "[?c]"] exI [of _ "w_out ?w"]) (auto simp: entry_of_def fresh_ref_def)
  next
    case False
    let ?w1 = "?w\<lparr>w_fds := Suc (w_fds ?w)\<rparr>"
    obtain e where new: "proxy_new (dial address port) address port ?w = (Inl (Throws e), ?w1)"
      using left False by (auto simp: proxy_new_def bnd_def Socket_connect_run)
    have "clock_ok ?w1" using assms(1) by (simp add: clock_ok_def)
    then obtain out where "log_error ?msg ?w1 = (Inr (), ?w1\<lparr>w_out := out\<rparr>)"
      using log_output_short [OF _ len, of ?w1 INFO ERROR] by (auto simp: log_error_def)
    then have "?dial s = (Inr (), s\<lparr>m_world := ?w1\<lparr>w_out := out\<rparr>\<rparr>)"
      using new unfolding try_catch_def bnd_def zoom_def mlog_def by (simp del: append.simps append_assoc)
    then have "load_controllers dial (entry_words (name, address, port) @ rest) s
        = load_controllers dial rest (s\<lparr>m_world := ?w1\<lparr>w_out := out\<rparr>\<rparr>)" for rest
      unfolding step by (rule seq_Inr)
    then show ?thesis
      using False by (intro exI [of _ "[]"] exI [of _ out]) simp
  qed
qed

lemma load_entries:
  fixes s :: "'r manager"
  assumes "clock_ok (m_world s)" "\<And>n. w_socket (m_world s) n \<noteq> - 1" "list_all entry_ok es"
  shows "\<exists>new n out. (\<forall>rest. load_controllers dial (concat (map entry_words es) @ rest) s
      = load_controllers dial rest (s\<lparr>controllers := controllers s @ new,
          m_world := (m_world s)\<lparr>w_fds := n, w_out := out\<rparr>\<rparr>))
    \<and> map entry_of new = filter (\<lambda>(n, a, p). connects (m_world s) a p) es \<and> list_all (fresh_ref dial) new"
  using assms
proof (induction es arbitrary: s)
  case Nil
  then show ?case by (intro exI [of _ "[]"] exI [of _ "w_fds (m_world s)"] exI [of _ "w_out (m_world s)"]) simp
next
  case (Cons e es)
  obtain name address port where e: "e = (name, address, port)" by (cases e)
  obtain new out where one: "\<And>rest. load_controllers dial (entry_words e @ rest) s
      = load_controllers dial rest (s\<lparr>controllers := controllers s @ new,
          m_world := (m_world s)\<lparr>w_fds := Suc (w_fds (m_world s)), w_out := out\<rparr>\<rparr>)"
    "map entry_of new = filter (\<lambda>(n, a, p). connects (m_world s) a p) [e]" "list_all (fresh_ref dial) new"
    using load_entry_words [of s name address port dial] Cons.prems unfolding e by auto
  let ?s = "s\<lparr>controllers := controllers s @ new,
      m_world := (m_world s)\<lparr>w_fds := Suc (w_fds (m_world s)), w_out := out\<rparr>\<rparr>"
  obtain new' n' out' where rest: "\<And>rest. load_controllers dial (concat (map entry_words es) @ rest) ?s
      = load_controllers dial rest (?s\<lparr>controllers := controllers ?s @ new',
          m_world := (m_world ?s)\<lparr>w_fds := n', w_out := out'\<rparr>\<rparr>)"
    "map entry_of new' = filter (\<lambda>(n, a, p). connects (m_world ?s) a p) es" "list_all (fresh_ref dial) new'"
    using Cons.IH [of ?s] Cons.prems by (auto simp: clock_ok_def)
  show ?case
    using one rest
    by (intro exI [of _ "new @ new'"] exI [of _ n'] exI [of _ out']) (simp add: connects_def)
qed

text \<open>
  C37. The controllers the manager starts with. Given a file of names and addresses, the manager
  supervises exactly the controllers it could connect to, in the order of the file, each with a
  fresh connection to the peer at its address; the others are logged and left out, and a last
  name without an address is ignored. An address that is not a number after its colon, however,
  ends the program: it is taken apart outside the \<open>try\<close>.
\<close>

theorem load_controllers_reachable:
  fixes s :: "'r manager"
  assumes "clock_ok (m_world s)" and "\<And>n. w_socket (m_world s) n \<noteq> - 1" and "list_all entry_ok es"
  shows "\<exists>new s'. load_controllers dial (concat (map entry_words es)) s = (Inr (), s')
    \<and> load_controllers dial (concat (map entry_words es) @ [extra]) s = (Inr (), s')
    \<and> controllers s' = controllers s @ new \<and> nextController s' = nextController s
    \<and> map entry_of new = filter (\<lambda>(name, address, port). connects (m_world s) address port) es
    \<and> list_all (fresh_ref dial) new
    \<and> (\<forall>name address rest f. explodeAddress address = Inl f \<longrightarrow>
         fst (load_controllers dial (concat (map entry_words es) @ name # address # rest) s) = Inl f)"
proof -
  obtain new n out where load: "\<And>rest. load_controllers dial (concat (map entry_words es) @ rest) s
      = load_controllers dial rest (s\<lparr>controllers := controllers s @ new,
          m_world := (m_world s)\<lparr>w_fds := n, w_out := out\<rparr>\<rparr>)"
    "map entry_of new = filter (\<lambda>(n, a, p). connects (m_world s) a p) es" "list_all (fresh_ref dial) new"
    using load_entries [OF assms, of dial] by blast
  from load(1) [of "[]"] load(1) [of "[extra]"] load(1) load(2,3) show ?thesis
    by (intro exI [of _ new] exI [of _ "s\<lparr>controllers := controllers s @ new,
          m_world := (m_world s)\<lparr>w_fds := n, w_out := out\<rparr>\<rparr>"]) (simp add: ret_def)
qed

theorem load_controllers_reachable_witness:
  "\<exists>new s'. load_controllers (\<lambda>a p. ()) (concat (map entry_words [(''srv1'', ''127.0.0.1'', 2200), (''srv2'', ''127.0.0.1'', 2300)]))
      \<lparr>controllers = [], nextController = 0, m_world = taken_world\<rparr> = (Inr (), s')
    \<and> load_controllers (\<lambda>a p. ()) (concat (map entry_words [(''srv1'', ''127.0.0.1'', 2200), (''srv2'', ''127.0.0.1'', 2300)]) @ [''srv3''])
      \<lparr>controllers = [], nextController = 0, m_world = taken_world\<rparr> = (Inr (), s')
    \<and> controllers s' = new \<and> map entry_of new = [(''srv1'', ''127.0.0.1'', 2200)]"
proof -
  let ?s = "\<lparr>controllers = [], nextController = 0, m_world = taken_world\<rparr> :: unit manager"
  let ?es = "[(''srv1'', ''127.0.0.1'', 2200), (''srv2'', ''127.0.0.1'', 2300)] :: entry list"
  have ints: "in_int 2200" "in_int 2300" by (simp_all add: in_int_def int_min_def int_max_def)
  have "list_all entry_ok ?es"
    using ints length_to_string [of 2200] length_to_string [of 2300] by (simp add: entry_ok_def str_fits_def)
  moreover have "clock_ok (m_world ?s)" "w_socket (m_world ?s) n \<noteq> - 1" for n
    by simp (simp add: taken_world_def idle_world_def)
  ultimately obtain new s' where "load_controllers (\<lambda>a p. ()) (concat (map entry_words ?es)) ?s = (Inr (), s')"
    "load_controllers (\<lambda>a p. ()) (concat (map entry_words ?es) @ [''srv3'']) ?s = (Inr (), s')"
    "controllers s' = controllers ?s @ new"
    "map entry_of new = filter (\<lambda>(name, address, port). connects (m_world ?s) address port) ?es"
    using load_controllers_reachable [of ?s ?es "\<lambda>a p. ()" "''srv3''"] by blast
  moreover have "connects taken_world ''127.0.0.1'' 2200" "\<not> connects taken_world ''127.0.0.1'' 2300"
    by (simp_all add: connects_def taken_world_def htons_port_def)
  ultimately show ?thesis by (intro exI [of _ new] exI [of _ s']) simp
qed

section \<open>The accept loop\<close>

text \<open>The manager's accept loop is the controller's, with the manager's log.\<close>

lemma mgr_accept_turn_zoom: "mgr_accept_turn fd = mlog (accept_turn fd)"
  by (rule ext) (simp add: mgr_accept_turn_def accept_turn_def mlog_def zoom_def try_catch_def bnd_def of_res_def
      ret_def seq_def split: sum.split prod.split fault.split)

lemma mlog_bnd: "mlog (bnd m k) = bnd (mlog m) (\<lambda>a. mlog (k a))"
  by (rule ext) (simp add: mlog_def zoom_def bnd_def split: prod.split sum.split)

lemma mlog_ret: "mlog (ret a) = ret a"
  by (rule ext) (simp add: mlog_def zoom_def ret_def)

lemma mgr_accept_loop_zoom: "mgr_accept_loop fds = mlog (accept_loop fds)"
  by (induction fds) (simp_all add: mlog_bnd mlog_ret mgr_accept_turn_zoom)

lemma mgr_accept_loop_survives:
  "clock_ok (m_world s) \<Longrightarrow> \<exists>out. mgr_accept_loop fds s =
    (Inr (map new_socket (filter (\<lambda>fd. 0 \<le> fd) fds)), s\<lparr>m_world := (m_world s)\<lparr>w_out := out\<rparr>\<rparr>)"
  by (auto simp: mgr_accept_loop_zoom mlog_def zoom_def accept_loop_run)

end
