(* ===== verification/Cloud_Nodes.thy ===== *)
theory Cloud_Nodes
  imports Manager_Props
begin

text \<open>
  What the manager's commands come to when its controllers are nodes, as operations on the manager
  alone (the operations of \<open>Manager_Service\<close>): listing the templates and creating a machine.
\<close>

section \<open>Calls of the manager on its nodes\<close>

lemma mprocessing_run:
  assumes "clock_ok (m_world m)" "length cmd \<le> 800"
  shows "\<exists>out. mprocessing cmd m = (Inr (), m\<lparr>m_world := (m_world m)\<lparr>w_out := out\<rparr>\<rparr>)"
proof -
  have "length (''processing request: '' @ cmd) \<le> 900" using assms(2) by simp
  from log_output_short [OF assms(1) this, of INFO INFO] show ?thesis
    by (auto simp: mprocessing_def mlog_def zoom_def log_info_def)
qed

lemma on_ctrl_manager:
  "on_ctrl k m mgr = (case m (cr_proxy (controllers mgr ! k)) of (r, l) \<Rightarrow>
     (r, mgr\<lparr>controllers := (controllers mgr)[k := (controllers mgr ! k)\<lparr>cr_proxy := l\<rparr>]\<rparr>))"
  by (simp add: on_ctrl_def zoom_def)

lemma node_templates_call:
  assumes "connected (b + 19) l" "clock_ok (c_world (far l))" "templates (far l) = the_templates"
  shows "\<exists>l'. proxy_getTemplates (controller_react os) l = (Inr the_templates, l')
    \<and> connected b l' \<and> far l' = logged ''getTemplates'' (far l)"
proof -
  let ?ts = "[cirros, wheezy]"
  have cost: "cost (concat (map Template_serialize ?ts)) = 19"
    by (simp add: cost_def Template_serialize_def)
  have "node.linked (b + cost (concat (map Template_serialize ?ts))) l"
    unfolding cost using assms(1) by (simp add: connected_linked)
  moreover have "fold (\<lambda>t. map_put (t_name t) t) ?ts [] = the_templates"
    by (simp add: the_templates_def cirros_def wheezy_def)
  moreover have "frame_ok (concat (map Template_serialize ?ts))" by (rule frame_ok_templates) simp
  ultimately show ?thesis
    using node.proxy_templates [of b ?ts l "logged ''getTemplates'' (far l)" os] ctl_templates_run [OF assms(2,3)]
    by (auto simp: connected_linked simp del: concat.simps list.map)
qed

text \<open>\<open>hosts b K m\<close>: the manager's controllers in \<open>K\<close> are nodes with the built-in templates.\<close>

definition node_ok :: "nat \<Rightarrow> server link \<Rightarrow> bool" where
  "node_ok b l \<longleftrightarrow> connected b l \<and> clock_ok (c_world (far l)) \<and> templates (far l) = the_templates"

definition hosts :: "nat \<Rightarrow> nat set \<Rightarrow> server manager \<Rightarrow> bool" where
  "hosts b K m \<longleftrightarrow> (\<forall>k \<in> K. k < length (controllers m) \<and> node_ok b (cr_proxy (controllers m ! k)))"

definition set_proxy :: "nat \<Rightarrow> 'r link \<Rightarrow> 'r manager \<Rightarrow> 'r manager" where
  "set_proxy k l m = m\<lparr>controllers := (controllers m)[k := (controllers m ! k)\<lparr>cr_proxy := l\<rparr>]\<rparr>"

lemma set_proxy_simps [simp]:
  "length (controllers (set_proxy k l m)) = length (controllers m)"
  "nextController (set_proxy k l m) = nextController m" "m_world (set_proxy k l m) = m_world m"
  "k < length (controllers m) \<Longrightarrow> cr_proxy (controllers (set_proxy k l m) ! j)
    = (if j = k then l else cr_proxy (controllers m ! j))"
  "k < length (controllers m) \<Longrightarrow> cr_id (controllers (set_proxy k l m) ! j) = cr_id (controllers m ! j)"
  by (simp_all add: set_proxy_def nth_list_update)

lemma on_ctrl_set_proxy:
  "on_ctrl k f m = (case f (cr_proxy (controllers m ! k)) of (r, l) \<Rightarrow> (r, set_proxy k l m))"
  by (simp add: on_ctrl_manager set_proxy_def)

section \<open>getTemplates\<close>

text \<open>What one listing request to each of the controllers in \<open>K\<close> leaves.\<close>

definition asked_at :: "string \<Rightarrow> nat \<Rightarrow> nat set \<Rightarrow> server manager \<Rightarrow> server manager \<Rightarrow> bool" where
  "asked_at cmd b K m m' \<longleftrightarrow>
    length (controllers m') = length (controllers m) \<and> nextController m' = nextController m \<and> m_world m' = m_world m
    \<and> (\<forall>k < length (controllers m). cr_id (controllers m' ! k) = cr_id (controllers m ! k)
         \<and> (k \<in> K \<longrightarrow> connected b (cr_proxy (controllers m' ! k))
              \<and> far (cr_proxy (controllers m' ! k)) = logged cmd (far (cr_proxy (controllers m ! k))))
         \<and> (k \<notin> K \<longrightarrow> cr_proxy (controllers m' ! k) = cr_proxy (controllers m ! k)))"

abbreviation listed_at :: "nat \<Rightarrow> nat set \<Rightarrow> server manager \<Rightarrow> server manager \<Rightarrow> bool" where
  "listed_at \<equiv> asked_at ''getTemplates''"

lemma gather_templates:
  "hosts (b + 19) (set ks) m \<Longrightarrow> distinct ks \<Longrightarrow>
   \<exists>m'. gather ks (templates_of (controller_react os)) m
      = (Inr (concat (replicate (length ks) [cirros, wheezy])), m') \<and> listed_at b (set ks) m m'"
proof (induction ks arbitrary: m)
  case Nil
  then show ?case by (simp add: ret_def asked_at_def)
next
  case (Cons k ks)
  let ?l = "cr_proxy (controllers m ! k)"
  have k: "k < length (controllers m)" "node_ok (b + 19) ?l" using Cons.prems(1) by (simp_all add: hosts_def)
  then obtain l where l: "proxy_getTemplates (controller_react os) ?l = (Inr the_templates, l)" "connected b l"
    "far l = logged ''getTemplates'' (far ?l)"
    using node_templates_call [of b ?l os] by (auto simp: node_ok_def)
  let ?m = "set_proxy k l m"
  have one: "templates_of (controller_react os) k m = (Inr [cirros, wheezy], ?m)"
    using l(1) by (simp add: templates_of_def bnd_def on_ctrl_set_proxy ret_def the_templates_def map_values_def)
  have "hosts (b + 19) (set ks) ?m" using Cons.prems k(1) by (auto simp: hosts_def)
  then obtain m' where m': "gather ks (templates_of (controller_react os)) ?m
      = (Inr (concat (replicate (length ks) [cirros, wheezy])), m')" "listed_at b (set ks) ?m m'"
    using Cons by auto
  have "listed_at b (set (k # ks)) m m'"
    using m'(2) k(1) l(2,3) Cons.prems(2) by (auto simp: asked_at_def)
  with one m'(1) show ?case by (simp add: bnd_def ret_def)
qed

lemma man_templates_nodes:
  assumes "hosts (b + 19) {..<length (controllers m)} m" "clock_ok (m_world m)"
  shows "\<exists>out m'. man_templates (controller_react os) m
      = (Inr (concat (replicate (length (controllers m)) [cirros, wheezy])), m')
    \<and> listed_at b {..<length (controllers m)} (m\<lparr>m_world := (m_world m)\<lparr>w_out := out\<rparr>\<rparr>) m'"
proof -
  obtain out where log: "mprocessing ''getTemplates'' m = (Inr (), m\<lparr>m_world := (m_world m)\<lparr>w_out := out\<rparr>\<rparr>)"
    using mprocessing_run [OF assms(2), of "''getTemplates''"] by auto
  let ?m = "m\<lparr>m_world := (m_world m)\<lparr>w_out := out\<rparr>\<rparr>"
  have "hosts (b + 19) (set [0..<length (controllers m)]) ?m"
    using assms(1) by (auto simp: hosts_def)
  from gather_templates [OF this, of os] obtain m' where
    "gather [0..<length (controllers m)] (templates_of (controller_react os)) ?m
      = (Inr (concat (replicate (length (controllers m)) [cirros, wheezy])), m')"
    "listed_at b {..<length (controllers m)} ?m m'"
    by (auto simp: atLeast0LessThan)
  with log show ?thesis
    by (intro exI [of _ out] exI [of _ m']) (simp add: man_templates_def seq_Inr bnd_gets)
qed

text \<open>However many nodes list the two templates, a map of them has two entries.\<close>

lemma replicated_listing:
  "fold (\<lambda>t. map_put (t_name t) t) (concat (replicate (Suc n) [cirros, wheezy])) [] = the_templates"
proof -
  have put: "map_put (t_name cirros) cirros the_templates = the_templates"
    "map_put (t_name wheezy) wheezy the_templates = the_templates"
    by (simp_all add: the_templates_def cirros_def wheezy_def)
  have "fold (\<lambda>t. map_put (t_name t) t) (concat (replicate n [cirros, wheezy])) the_templates = the_templates"
    by (induction n) (simp_all add: put)
  moreover have "map_put (t_name wheezy) wheezy (map_put (t_name cirros) cirros []) = the_templates"
    by (simp add: the_templates_def cirros_def wheezy_def)
  ultimately show ?thesis by simp
qed

lemma replicated_cost:
  "cost (concat (map Template_serialize (concat (replicate n [cirros, wheezy])))) = 16 * n + 3"
  "frame_ok (concat (map Template_serialize (concat (replicate n [cirros, wheezy]))))"
proof -
  show "cost (concat (map Template_serialize (concat (replicate n [cirros, wheezy])))) = 16 * n + 3"
    by (induction n) (simp_all add: cost_def Template_serialize_def)
  show "frame_ok (concat (map Template_serialize (concat (replicate n [cirros, wheezy]))))"
    by (rule frame_ok_templates) auto
qed

section \<open>instantiate\<close>

text \<open>The two calls that create a machine at a node.\<close>

lemma node_create_call:
  assumes l: "node_ok (b + 34) l" and t: "map_find the_templates (t_name t) = Some t"
    and ints: "in_int memory" "in_int cpus"
    and s: "s = logged ''instantiate'' (logged ''getTemplates'' (far l))"
    and host: "can_host os s" "in_int (nextPort s)" "map_ok (instances s)"
  shows "\<exists>l1 l2 i. proxy_getTemplates (controller_react os) l = (Inr the_templates, l1)
    \<and> proxy_instantiate (controller_react os) t memory cpus l1 = (Inr (getInstanceInfo i (c_world (far l2))), l2)
    \<and> connected b l2 \<and> fresh_id s (i_id i) \<and> in_int (i_sshPort i) \<and> i_memory i = memory \<and> i_cpus i = cpus \<and> i_template i = t
    \<and> instances (far l2) = map_put (i_id i) i (instances (far l))"
proof -
  have ok: "connected (b + 15 + 19) l" "clock_ok (c_world (far l))" "templates (far l) = the_templates"
    using l by (simp_all add: node_ok_def add.commute)
  obtain l1 where l1: "proxy_getTemplates (controller_react os) l = (Inr the_templates, l1)" "connected (b + 15) l1"
    "far l1 = logged ''getTemplates'' (far l)"
    using node_templates_call [OF ok] by blast
  obtain i c' where new: "ctl_new os (t_name t) memory cpus (far l1) = (Inr (getInstanceInfo i (c_world c')), c')"
    and info: "frame_ok (InstanceInfo_serialize (getInstanceInfo i (c_world c')))" "info_ok (getInstanceInfo i (c_world c'))"
    and i: "fresh_id s (i_id i)" "in_int (i_sshPort i)" "i_memory i = memory" "i_cpus i = cpus" "i_template i = t"
      "instances c' = map_put (i_id i) i (instances (far l))"
    using node_creates [OF ok(2,3) t ints s host] unfolding l1(3) by blast
  have "node.linked (b + 15) l1" using l1(2) by (simp add: connected_linked)
  from node.proxy_new_vm [OF this new builtin_word_line [OF t] ints info] obtain l2 where
    "proxy_instantiate (controller_react os) t memory cpus l1 = (Inr (getInstanceInfo i (c_world c')), l2)"
    "node.linked b l2" "far l2 = c'" by blast
  with l1(1) i show ?thesis
    by (intro exI [of _ l1] exI [of _ l2] exI [of _ i]) (simp add: connected_linked)
qed

lemma man_new_node:
  assumes n: "n = length (controllers m)" "n < 2 ^ 31" "0 \<le> nextController m" "nextController m < int n"
    and k: "k = nat ((nextController m + 1) mod int n)" and clock: "clock_ok (m_world m)"
    and l: "node_ok (b + 34) (cr_proxy (controllers m ! k))" and t: "map_find the_templates (t_name t) = Some t"
    and ints: "in_int memory" "in_int cpus"
    and s: "s = logged ''instantiate'' (logged ''getTemplates'' (far (cr_proxy (controllers m ! k))))"
    and host: "can_host os s" "in_int (nextPort s)" "map_ok (instances s)"
  shows "\<exists>out l i. man_new (controller_react os) (t_name t) memory cpus m =
      (Inr ((getInstanceInfo i (c_world (far l)))\<lparr>ii_id := cr_id (controllers m ! k) @ ''/'' @ to_string (i_id i)\<rparr>),
       set_proxy k l (m\<lparr>m_world := (m_world m)\<lparr>w_out := out\<rparr>, nextController := int k\<rparr>))
    \<and> connected b l \<and> fresh_id s (i_id i) \<and> in_int (i_sshPort i) \<and> i_memory i = memory \<and> i_cpus i = cpus \<and> i_template i = t
    \<and> instances (far l) = map_put (i_id i) i (instances (far (cr_proxy (controllers m ! k))))"
proof -
  let ?req = "\<lparr>ii_id = ''0'', ii_templ = t_name t, ii_memory = memory, ii_cpus = cpus, ii_sshPort = 0, ii_running = False\<rparr>"
  obtain out where log: "mprocessing ''instantiate'' m = (Inr (), m\<lparr>m_world := (m_world m)\<lparr>w_out := out\<rparr>\<rparr>)"
    using mprocessing_run [OF clock, of "''instantiate''"] by auto
  let ?m = "m\<lparr>m_world := (m_world m)\<lparr>w_out := out\<rparr>\<rparr>"
  let ?m1 = "m\<lparr>m_world := (m_world m)\<lparr>w_out := out\<rparr>, nextController := int k\<rparr>"
  obtain l1 l2 i where calls: "proxy_getTemplates (controller_react os) (cr_proxy (controllers m ! k)) = (Inr the_templates, l1)"
    "proxy_instantiate (controller_react os) t memory cpus l1 = (Inr (getInstanceInfo i (c_world (far l2))), l2)"
    and i: "connected b l2" "fresh_id s (i_id i)" "in_int (i_sshPort i)" "i_memory i = memory" "i_cpus i = cpus" "i_template i = t"
      "instances (far l2) = map_put (i_id i) i (instances (far (cr_proxy (controllers m ! k))))"
    using node_create_call [OF l t ints s host] by blast
  have k0: "0 \<le> (nextController m + 1) mod int n" "(nextController m + 1) mod int n < int n"
    using n(3,4) by (simp_all add: pos_mod_bound)
  have kn: "k < length (controllers m)" and int_k: "int k = (nextController m + 1) mod int n"
    using k0 k n(1) by (simp_all add: nat_less_iff)
  have adv: "advanceModulo (length (controllers ?m)) (nextController ?m) = Inr (int k)"
    using advance_mod [OF n(3,4,2)] n(1) int_k by simp
  have some: "\<not> \<not> int n > 0" using n(3,4) by simp
  have vec: "vec_at (controllers ?m) (nat (int k)) = Inr (controllers m ! k)" using kn by (simp add: vec_at_def)
  have ts: "on_ctrl (nat (int k)) (proxy_getTemplates (controller_react os)) ?m1 = (Inr the_templates, set_proxy k l1 ?m1)"
    using calls(1) by (simp add: on_ctrl_set_proxy)
  have made: "on_ctrl (nat (int k)) (proxy_instantiate (controller_react os) t (ii_memory ?req) (ii_cpus ?req)) (set_proxy k l1 ?m1)
      = (Inr (getInstanceInfo i (c_world (far l2))), set_proxy k l2 ?m1)"
    using calls(2) kn by (simp add: on_ctrl_set_proxy) (simp add: set_proxy_def)
  have next_step: "seq (modify (\<lambda>s. s\<lparr>nextController := int k\<rparr>)) f ?m = f ?m1"
    for f :: "(server manager, instanceInfo option) M"
    by (simp add: seq_def bnd_def modify_def)
  have find: "map_find the_templates (ii_templ ?req) = Some t" using t by simp
  have "man_try (controller_react os) ?req (int n) ?m = bnd (on_ctrl (nat (int k)) (proxy_getTemplates (controller_react os)))
      (\<lambda>templates. case map_find templates (ii_templ ?req) of
           None \<Rightarrow> man_try (controller_react os) ?req (int n - 1)
         | Some templ \<Rightarrow>
             bnd (on_ctrl (nat (int k)) (proxy_instantiate (controller_react os) templ (ii_memory ?req) (ii_cpus ?req))) (\<lambda>inst.
               ret (Some (setId (makeFullId (cr_id (controllers m ! k)) (ii_id inst)) inst)))) ?m1"
    unfolding man_try.simps [of _ _ "int n"] if_not_P [OF some] bnd_gets adv bnd_of_res next_step vec ..
  also have "\<dots> = bnd (on_ctrl (nat (int k)) (proxy_instantiate (controller_react os) t (ii_memory ?req) (ii_cpus ?req))) (\<lambda>inst.
      ret (Some (setId (makeFullId (cr_id (controllers m ! k)) (ii_id inst)) inst))) (set_proxy k l1 ?m1)"
    unfolding bnd_def [of "on_ctrl _ (proxy_getTemplates _)"] ts prod.case sum.case find option.case ..
  also have "\<dots> = (Inr (Some (setId (makeFullId (cr_id (controllers m ! k)) (to_string (i_id i)))
      (getInstanceInfo i (c_world (far l2))))), set_proxy k l2 ?m1)"
    unfolding bnd_def [of "on_ctrl _ _"] made prod.case sum.case ret_def by (simp add: getInstanceInfo_def)
  finally have "man_try (controller_react os) ?req (int n) ?m = (Inr (Some (setId (makeFullId (cr_id (controllers m ! k))
      (to_string (i_id i))) (getInstanceInfo i (c_world (far l2))))), set_proxy k l2 ?m1)" .
  then have "man_new (controller_react os) (t_name t) memory cpus m =
      (Inr (setId (makeFullId (cr_id (controllers m ! k)) (to_string (i_id i))) (getInstanceInfo i (c_world (far l2)))),
       set_proxy k l2 ?m1)"
    using n(1,2) log by (simp add: man_new_def seq_Inr man_find_def bnd_def gets_def ret_def)
  then show ?thesis
    using i by (intro exI [of _ out] exI [of _ l2] exI [of _ i]) (simp add: setId_def makeFullId_def)
qed

end
