(* ===== verification/Cloud.thy ===== *)
theory Cloud
  imports Client Cloud_Nodes
begin

text \<open>
  The three programs together: a client that is connected to a manager whose controllers are
  nodes. What the manager's commands come to over nodes (from \<open>node\<close>), and the client's calls on
  the manager (from \<open>cloud\<close>), composed.
\<close>

section \<open>A client, its manager and the nodes\<close>

type_synonym cloud_client = "server mserver client"

abbreviation the_manager :: "cloud_client \<Rightarrow> server mserver" where
  "the_manager cl \<equiv> l_peer (cl_proxy cl)"

definition online :: "nat \<Rightarrow> cloud_client \<Rightarrow> bool" where
  "online n cl \<longleftrightarrow> quiet n (l_socket (cl_proxy cl)) \<and> mg_ready n (the_manager cl)"

lemma online_linked: "online n cl = cloud.linked n (cl_proxy cl)"
  by (simp add: online_def cloud.linked_def)

text \<open>One remote \<open>run\<close> or \<open>kill\<close> on a node, as the manager issues it.\<close>

definition node_call :: "os \<Rightarrow> string \<Rightarrow> (string \<Rightarrow> (server link, bool) M) \<Rightarrow> (int \<Rightarrow> (controller, bool) M) \<Rightarrow> bool" where
  "node_call os cmd call oper \<longleftrightarrow>
    cmd = ''run'' \<and> call = proxy_run (controller_react os) \<and> oper = run os
    \<or> cmd = ''kill'' \<and> call = proxy_kill (controller_react os) \<and> oper = kill"

lemma node_call_run:
  assumes "node_call os cmd call oper" "connected (n + 5) l" "in_int vmid" "clock_ok (c_world (far l))"
    and "oper vmid (logged cmd (far l)) = (r, c)" "caught r = Some x"
  shows "\<exists>l'. call (to_string vmid) l = (Inr x, l') \<and> connected n l' \<and> far l' = c"
proof -
  have "length cmd \<le> 800" using assms(1) by (auto simp: node_call_def)
  then have "seq (processing cmd) (by_number oper (to_string vmid)) (far l) = (Inr x, c)"
    using processing_run [OF assms(4), of cmd] by_number_caught [where f = oper, OF assms(3,5,6)] by (auto simp: seq_Inr)
  then show ?thesis
    using assms(1,2) node.proxy_run_vm [of n l os "to_string vmid" x c] node.proxy_kill_vm [of n l "to_string vmid" x c os]
    by (auto simp: node_call_def connected_linked ctl_run_def ctl_kill_def)
qed

lemma man_route_node:
  assumes "node_call os cmd call oper" "CHR ''/'' \<notin> set name" "str_fits (makeFullId name (to_string vmid))" "in_int vmid"
    and "find_controller name (controllers m) = Some k" "clock_ok (m_world m)"
    and "connected (n + 5) (cr_proxy (controllers m ! k))" "clock_ok (c_world (far (cr_proxy (controllers m ! k))))"
    and "oper vmid (logged cmd (far (cr_proxy (controllers m ! k)))) = (r, c)" "caught r = Some x"
  shows "\<exists>out l. seq (mprocessing cmd) (man_route call (makeFullId name (to_string vmid))) m =
      (Inr x, m\<lparr>m_world := (m_world m)\<lparr>w_out := out\<rparr>,
         controllers := (controllers m)[k := (controllers m ! k)\<lparr>cr_proxy := l\<rparr>]\<rparr>)
    \<and> connected n l \<and> far l = c"
proof -
  have "length cmd \<le> 800" using assms(1) by (auto simp: node_call_def)
  then obtain out where "mprocessing cmd m = (Inr (), m\<lparr>m_world := (m_world m)\<lparr>w_out := out\<rparr>\<rparr>)"
    using mprocessing_run [OF assms(6)] by blast
  moreover obtain l where "call (to_string vmid) (cr_proxy (controllers m ! k)) = (Inr x, l)" "connected n l" "far l = c"
    using node_call_run [OF assms(1,7,4,8-10)] by blast
  ultimately show ?thesis
    using extract_full_id [OF assms(2,3)] assms(5)
    by (intro exI [of _ out] exI [of _ l]) (simp add: seq_Inr man_route_def bnd_gets on_ctrl_manager)
qed

section \<open>run and kill, from the client to the node\<close>

lemma client_call:
  assumes "node_call os cmd call oper" "online (n + 5) cl" "CHR ''/'' \<notin> set name" "word_line name"
    and "str_fits (makeFullId name (to_string vmid))" "in_int vmid" "clock_ok (m_world (ms_mgr (the_manager cl)))"
    and "find_controller name (ctrls (the_manager cl)) = Some k"
    and "connected (b + 5) (proxy (the_manager cl) k)" "clock_ok (c_world (at_node (the_manager cl) k))"
    and "oper vmid (logged cmd (at_node (the_manager cl) k)) = (r, c)" "caught r = Some x"
    and "cmd = ''run'' \<and> ccall = proxy_run (manager_react (controller_react os))
      \<or> cmd = ''kill'' \<and> ccall = proxy_kill (manager_react (controller_react os))"
  shows "\<exists>l'. ccall (makeFullId name (to_string vmid)) (cl_proxy cl) = (Inr x, l') \<and> cloud.linked n l'
    \<and> at_node (l_peer l') k = c \<and> connected b (proxy (l_peer l') k)
    \<and> (\<forall>j. j \<noteq> k \<longrightarrow> proxy (l_peer l') j = proxy (the_manager cl) j)"
proof -
  let ?m = "ms_mgr (the_manager cl)" and ?d = "makeFullId name (to_string vmid)"
  obtain out l where man: "seq (mprocessing cmd) (man_route call ?d) ?m =
      (Inr x, ?m\<lparr>m_world := (m_world ?m)\<lparr>w_out := out\<rparr>,
         controllers := (controllers ?m)[k := (controllers ?m ! k)\<lparr>cr_proxy := l\<rparr>]\<rparr>)"
    and l: "connected b l" "far l = c"
    using man_route_node [OF assms(1,3,5,6,8,7,9-12)] by blast
  let ?m' = "?m\<lparr>m_world := (m_world ?m)\<lparr>w_out := out\<rparr>,
      controllers := (controllers ?m)[k := (controllers ?m ! k)\<lparr>cr_proxy := l\<rparr>]\<rparr>"
  have d: "word_line ?d" using assms(4) by (simp add: makeFullId_def word_line_def)
  have on: "cloud.linked (n + 5) (cl_proxy cl)" using assms(2) by (simp add: online_linked)
  have k: "k < length (controllers ?m)" by (rule find_controller_Some(1) [OF assms(8)])
  have ops: "cmd = ''run'' \<and> man_run (controller_react os) ?d ?m = (Inr x, ?m')
      \<or> cmd = ''kill'' \<and> man_kill (controller_react os) ?d ?m = (Inr x, ?m')"
    using assms(1) man by (auto simp: node_call_def man_run_def man_kill_def)
  then obtain l' where "ccall ?d (cl_proxy cl) = (Inr x, l')" "cloud.linked n l'" "ms_mgr (l_peer l') = ?m'"
    using cloud.proxy_run_vm [of n "cl_proxy cl" "controller_react os" ?d x ?m']
      cloud.proxy_kill_vm [of n "cl_proxy cl" "controller_react os" ?d x ?m'] on d assms(13) by auto
  then show ?thesis
    using l k by (intro exI [of _ l']) (simp add: nth_list_update)
qed

text \<open>
  C2. From the client's prompt to the node and back. \<open>run srv/7\<close> and \<open>kill srv/7\<close> typed at the client
  have the effect of the node's own \<open>run 7\<close> and \<open>kill 7\<close>: the first controller named \<open>srv\<close> performs the
  operation and is left as the operation leaves it, the client prints OK or ERROR for its result,
  no other node is touched, and the whole chain is ready for the next command.
\<close>

theorem client_to_node:
  assumes "cmd = ''run'' \<and> oper = run os \<or> cmd = ''kill'' \<and> oper = kill"
    and "online (n + 5) cl" and "CHR ''/'' \<notin> set name" and "word_line name"
    and "str_fits (makeFullId name (to_string vmid))" and "in_int vmid" and "clock_ok (m_world (ms_mgr (the_manager cl)))"
    and "find_controller name (ctrls (the_manager cl)) = Some k"
    and "connected (b + 5) (proxy (the_manager cl) k)" and "clock_ok (c_world (at_node (the_manager cl) k))"
    and "oper vmid (logged cmd (at_node (the_manager cl) k)) = (r, c)" and "caught r = Some x"
  shows "\<exists>cl'. cl_command (manager_react (controller_react os)) [cmd, makeFullId name (to_string vmid)] cl = (Inr (), cl')
    \<and> cl_screen cl' = cl_screen cl @ (if x then ''OK'' else ''ERROR'') @ NL
    \<and> online n cl' \<and> at_node (the_manager cl') k = c \<and> connected b (proxy (the_manager cl') k)
    \<and> (\<forall>j. j \<noteq> k \<longrightarrow> proxy (the_manager cl') j = proxy (the_manager cl) j)"
proof -
  let ?react = "manager_react (controller_react os)" and ?d = "makeFullId name (to_string vmid)"
  define call where "call = (if cmd = ''run'' then proxy_run (controller_react os) else proxy_kill (controller_react os))"
  define ccall where "ccall = (if cmd = ''run'' then proxy_run ?react else proxy_kill ?react)"
  have calls: "node_call os cmd call oper" "cmd = ''run'' \<and> ccall = proxy_run ?react \<or> cmd = ''kill'' \<and> ccall = proxy_kill ?react"
    using assms(1) by (auto simp: node_call_def call_def ccall_def)
  obtain l' where l': "ccall ?d (cl_proxy cl) = (Inr x, l')" "cloud.linked n l'" "at_node (l_peer l') k = c"
    "connected b (proxy (l_peer l') k)" "\<forall>j. j \<noteq> k \<longrightarrow> proxy (l_peer l') j = proxy (the_manager cl) j"
    using client_call [OF calls(1) assms(2-12) calls(2)] by blast
  have switch: "cl_command ?react [cmd, ?d] = cl_switch ccall [cmd, ?d]"
    using calls(2) by (auto simp: cl_command_def ccall_def)
  have "cl_command ?react [cmd, ?d] cl
      = (Inr (), cl\<lparr>cl_proxy := l', cl_screen := cl_screen cl @ (if x then ''OK'' else ''ERROR'') @ NL\<rparr>)"
    unfolding switch using l'(1)
    by (simp add: cl_switch_def vec_at_checked_def try_catch_def bnd_def of_res_def cl_call_def zoom_def cl_print_def modify_def)
  with l' show ?thesis by (simp add: online_linked)
qed

section \<open>Creating a machine, from the client to the node\<close>

lemma cloud_hosts: "cloud_ok b ms \<Longrightarrow> hosts b {..<length (ctrls ms)} (ms_mgr ms)"
  by (simp add: cloud_ok_def hosts_def node_ok_def)

lemma client_lists:
  assumes "online (n + 16 * length (ctrls (the_manager cl)) + 3) cl" and "cloud_ok (b + 19) (the_manager cl)"
    and "clock_ok (m_world (ms_mgr (the_manager cl)))"
  shows "\<exists>l' out. proxy_getTemplates (manager_react (controller_react os)) (cl_proxy cl) = (Inr the_templates, l')
    \<and> cloud.linked n l'
    \<and> listed_at b {..<length (ctrls (the_manager cl))} ((ms_mgr (the_manager cl))\<lparr>m_world :=
         (m_world (ms_mgr (the_manager cl)))\<lparr>w_out := out\<rparr>\<rparr>) (ms_mgr (l_peer l'))"
proof -
  let ?m = "ms_mgr (the_manager cl)" and ?N = "length (ctrls (the_manager cl))"
  obtain out m' where op: "man_templates (controller_react os) ?m = (Inr (concat (replicate ?N [cirros, wheezy])), m')"
    and m': "listed_at b {..<?N} (?m\<lparr>m_world := (m_world ?m)\<lparr>w_out := out\<rparr>\<rparr>) m'"
    using man_templates_nodes [OF cloud_hosts [OF assms(2)] assms(3), of os] by blast
  obtain N where N: "?N = Suc N" using assms(2) by (cases ?N) (auto simp: cloud_ok_def)
  then have some: "concat (replicate ?N [cirros, wheezy]) \<noteq> []" by simp
  have "cloud.linked (n + cost (concat (map Template_serialize (concat (replicate ?N [cirros, wheezy]))))) (cl_proxy cl)"
    unfolding replicated_cost(1) using assms(1) by (simp add: online_linked add.assoc)
  from cloud.proxy_templates [OF this op some replicated_cost(2)] obtain l' where
    "proxy_getTemplates (manager_react (controller_react os)) (cl_proxy cl)
      = (Inr (fold (\<lambda>t. map_put (t_name t) t) (concat (replicate ?N [cirros, wheezy])) []), l')"
    "cloud.linked n l'" "ms_mgr (l_peer l') = m'" by blast
  then show ?thesis
    using m' unfolding N replicated_listing by blast
qed

text \<open>
  C18. \<open>templates\<close> typed at the client. However many nodes there are, the client prints each of the two
  templates once, in the order of their names; every node was asked, and nothing but logs changed.
\<close>

theorem client_sees_templates:
  assumes "online (n + 16 * length (ctrls (the_manager cl)) + 3) cl" and "cloud_ok (b + 19) (the_manager cl)"
    and "clock_ok (m_world (ms_mgr (the_manager cl)))"
  shows "\<exists>cl'. cl_command (manager_react (controller_react os)) [''templates''] cl = (Inr (), cl')
    \<and> cl_screen cl' = cl_screen cl @ template_row cirros @ template_row wheezy \<and> online n cl'
    \<and> (\<forall>k < length (ctrls (the_manager cl)). connected b (proxy (the_manager cl') k)
         \<and> at_node (the_manager cl') k = logged ''getTemplates'' (at_node (the_manager cl) k))"
proof -
  obtain l' out where l': "proxy_getTemplates (manager_react (controller_react os)) (cl_proxy cl) = (Inr the_templates, l')"
    "cloud.linked n l'" "listed_at b {..<length (ctrls (the_manager cl))} ((ms_mgr (the_manager cl))\<lparr>m_world :=
       (m_world (ms_mgr (the_manager cl)))\<lparr>w_out := out\<rparr>\<rparr>) (ms_mgr (l_peer l'))"
    using client_lists [OF assms, of os] by blast
  have "map_values the_templates = [cirros, wheezy]" by (simp add: the_templates_def map_values_def)
  with l'(1) have "cl_command (manager_react (controller_react os)) [''templates''] cl
      = (Inr (), cl\<lparr>cl_proxy := l', cl_screen := cl_screen cl @ template_row cirros @ template_row wheezy\<rparr>)"
    by (simp add: cl_command_def cl_templates_def bnd_def cl_call_def zoom_def cl_print_def modify_def seq_def ret_def)
  with l'(2,3) show ?thesis by (auto simp: online_linked asked_at_def)
qed

lemma client_creates:
  assumes on: "online (n + 15 + 16 * length (ctrls (the_manager cl)) + 3) cl"
    and cloud: "cloud_ok (b + 34 + 19) (the_manager cl)" "clock_ok (m_world (ms_mgr (the_manager cl)))"
    and k: "k = nat ((nextController (ms_mgr (the_manager cl)) + 1) mod int (length (ctrls (the_manager cl))))"
    and t: "map_find the_templates (t_name t) = Some t" and ints: "in_int memory" "in_int cpus"
    and name: "word_line (cr_id (ctrls (the_manager cl) ! k))"
    and s: "s = logged ''instantiate'' (logged ''getTemplates'' (logged ''getTemplates'' (at_node (the_manager cl) k)))"
    and host: "can_host os s" "in_int (nextPort s)" "map_ok (instances s)" "templates s = the_templates"
  shows "\<exists>l1 l2 i. proxy_getTemplates (manager_react (controller_react os)) (cl_proxy cl) = (Inr the_templates, l1)
    \<and> proxy_instantiate (manager_react (controller_react os)) t memory cpus l1
        = (Inr ((getInstanceInfo i (c_world (at_node (l_peer l2) k)))\<lparr>ii_id :=
             cr_id (ctrls (the_manager cl) ! k) @ ''/'' @ to_string (i_id i)\<rparr>), l2)
    \<and> cloud.linked n l2 \<and> fresh_id s (i_id i) \<and> i_memory i = memory \<and> i_cpus i = cpus \<and> i_template i = t
    \<and> instances (at_node (l_peer l2) k) = map_put (i_id i) i (instances (at_node (the_manager cl) k))
    \<and> (\<forall>j < length (ctrls (the_manager cl)). j \<noteq> k \<longrightarrow>
         at_node (l_peer l2) j = logged ''getTemplates'' (at_node (the_manager cl) j))"
proof -
  let ?m = "ms_mgr (the_manager cl)" and ?N = "length (ctrls (the_manager cl))"
  obtain l1 out where l1: "proxy_getTemplates (manager_react (controller_react os)) (cl_proxy cl) = (Inr the_templates, l1)"
    "cloud.linked (n + 15) l1" "listed_at (b + 34) {..<?N} (?m\<lparr>m_world := (m_world ?m)\<lparr>w_out := out\<rparr>\<rparr>) (ms_mgr (l_peer l1))"
    using client_lists [OF on cloud, of os] by blast
  let ?m1 = "ms_mgr (l_peer l1)"
  have n: "?N < 2 ^ 31" "0 \<le> nextController ?m" "nextController ?m < int ?N"
    using cloud(1) by (simp_all add: cloud_ok_def)
  have "k = turn ?N (nextController ?m) 1" using k by (simp add: turn_def)
  then have kN: "k < ?N" using n by (auto intro: turn_less)
  have m1: "length (controllers ?m1) = ?N" "nextController ?m1 = nextController ?m" "clock_ok (m_world ?m1)"
    "cr_id (controllers ?m1 ! k) = cr_id (ctrls (the_manager cl) ! k)"
    "connected (b + 34) (cr_proxy (controllers ?m1 ! k))"
    "far (cr_proxy (controllers ?m1 ! k)) = logged ''getTemplates'' (at_node (the_manager cl) k)"
    using l1(3) kN cloud(2) by (simp_all add: asked_at_def clock_ok_def)
  have others: "at_node (l_peer l1) j = logged ''getTemplates'' (at_node (the_manager cl) j)" if "j < ?N" for j
    using l1(3) that by (simp add: asked_at_def)
  have far: "clock_ok (c_world (at_node (the_manager cl) k))" "templates (at_node (the_manager cl) k) = the_templates"
    using cloud(1) kN by (simp_all add: cloud_ok_def)
  obtain out' where lg: "logged ''getTemplates'' (at_node (the_manager cl) k)
      = (at_node (the_manager cl) k)\<lparr>c_world := (c_world (at_node (the_manager cl) k))\<lparr>w_out := out'\<rparr>\<rparr>"
    using processing_run [OF far(1), of "''getTemplates''"] by auto
  have ok: "node_ok (b + 34) (cr_proxy (controllers ?m1 ! k))"
    using m1(5,6) far lg by (simp add: node_ok_def clock_ok_def)
  have s1: "s = logged ''instantiate'' (logged ''getTemplates'' (far (cr_proxy (controllers ?m1 ! k))))"
    using s m1(6) by simp
  have k1: "k = nat ((nextController ?m1 + 1) mod int ?N)" using k m1(2) by simp
  obtain out2 l i where new: "man_new (controller_react os) (t_name t) memory cpus ?m1 =
      (Inr ((getInstanceInfo i (c_world (far l)))\<lparr>ii_id := cr_id (controllers ?m1 ! k) @ ''/'' @ to_string (i_id i)\<rparr>),
       set_proxy k l (?m1\<lparr>m_world := (m_world ?m1)\<lparr>w_out := out2\<rparr>, nextController := int k\<rparr>))"
    and i: "connected b l" "fresh_id s (i_id i)" "in_int (i_sshPort i)" "i_memory i = memory" "i_cpus i = cpus" "i_template i = t"
      "instances (far l) = map_put (i_id i) i (instances (far (cr_proxy (controllers ?m1 ! k))))"
    using man_new_node [OF m1(1) [symmetric] n(1) _ _ k1 m1(3) ok t ints s1 host(1-3)] n(2,3) m1(2) by auto
  let ?info = "(getInstanceInfo i (c_world (far l)))\<lparr>ii_id := cr_id (controllers ?m1 ! k) @ ''/'' @ to_string (i_id i)\<rparr>"
  have info: "frame_ok (InstanceInfo_serialize ?info)" "info_ok ?info"
    using i ints name m1(4) builtin_word_line [OF t]
    by (simp_all add: frame_ok_info getInstanceInfo_def info_ok_def word_line_def)
  obtain l2 where l2: "proxy_instantiate (manager_react (controller_react os)) t memory cpus l1 = (Inr ?info, l2)"
    "cloud.linked n l2"
    "ms_mgr (l_peer l2) = set_proxy k l (?m1\<lparr>m_world := (m_world ?m1)\<lparr>w_out := out2\<rparr>, nextController := int k\<rparr>)"
    using cloud.proxy_new_vm [OF l1(2) new builtin_word_line [OF t] ints info] by blast
  have k1N: "k < length (controllers (?m1\<lparr>m_world := (m_world ?m1)\<lparr>w_out := out2\<rparr>, nextController := int k\<rparr>))"
    using kN m1(1) by simp
  show ?thesis
    using l1(1) l2 i m1(4,6) lg others k1N
    by (intro exI [of _ l1] exI [of _ l2] exI [of _ i]) simp
qed

text \<open>
  C1. \<open>new\<close> typed at the client creates a machine on the node whose turn it is. The client prints the
  full id, made of the node's name and a number that was free there, and the port; the node's map
  gains exactly this machine, with the template, memory and processors that were typed; the other
  nodes only log that they were asked for their templates.
\<close>

theorem client_creates_machine:
  assumes "online (n + 15 + 16 * length (ctrls (the_manager cl)) + 3) cl"
    and "cloud_ok (b + 34 + 19) (the_manager cl)" and "clock_ok (m_world (ms_mgr (the_manager cl)))"
    and "k = nat ((nextController (ms_mgr (the_manager cl)) + 1) mod int (length (ctrls (the_manager cl))))"
    and "map_find the_templates (t_name t) = Some t" and "in_int memory" and "in_int cpus"
    and "word_line (cr_id (ctrls (the_manager cl) ! k))"
    and "s = logged ''instantiate'' (logged ''getTemplates'' (logged ''getTemplates'' (at_node (the_manager cl) k)))"
    and "can_host os s" and "in_int (nextPort s)" and "map_ok (instances s)" and "templates s = the_templates"
  shows "\<exists>cl' i. cl_command (manager_react (controller_react os)) [''new'', t_name t, to_string memory, to_string cpus] cl
        = (Inr (), cl')
    \<and> cl_screen cl' = cl_screen cl @ ''   result: ID: '' @ cr_id (ctrls (the_manager cl) ! k) @ ''/'' @ to_string (i_id i)
        @ '', SSH port: '' @ to_string (i_sshPort i) @ NL
    \<and> online n cl' \<and> fresh_id s (i_id i) \<and> i_memory i = memory \<and> i_cpus i = cpus \<and> i_template i = t
    \<and> instances (at_node (the_manager cl') k) = map_put (i_id i) i (instances (at_node (the_manager cl) k))
    \<and> (\<forall>j < length (ctrls (the_manager cl)). j \<noteq> k \<longrightarrow>
         at_node (the_manager cl') j = logged ''getTemplates'' (at_node (the_manager cl) j))"
proof -
  let ?react = "manager_react (controller_react os)"
  obtain l1 l2 i where calls: "proxy_getTemplates ?react (cl_proxy cl) = (Inr the_templates, l1)"
    "proxy_instantiate ?react t memory cpus l1 = (Inr ((getInstanceInfo i (c_world (at_node (l_peer l2) k)))\<lparr>ii_id :=
         cr_id (ctrls (the_manager cl) ! k) @ ''/'' @ to_string (i_id i)\<rparr>), l2)"
    and rest: "cloud.linked n l2" "fresh_id s (i_id i)" "i_memory i = memory" "i_cpus i = cpus" "i_template i = t"
    "instances (at_node (l_peer l2) k) = map_put (i_id i) i (instances (at_node (the_manager cl) k))"
    "\<forall>j < length (ctrls (the_manager cl)). j \<noteq> k \<longrightarrow>
       at_node (l_peer l2) j = logged ''getTemplates'' (at_node (the_manager cl) j)"
    using client_creates [OF assms] by blast
  let ?row = "''   result: ID: '' @ cr_id (ctrls (the_manager cl) ! k) @ ''/'' @ to_string (i_id i)
      @ '', SSH port: '' @ to_string (i_sshPort i) @ NL"
  have "new_row ((getInstanceInfo i (c_world (at_node (l_peer l2) k)))\<lparr>ii_id :=
      cr_id (ctrls (the_manager cl) ! k) @ ''/'' @ to_string (i_id i)\<rparr>) = ?row"
    by (simp add: new_row_def getInstanceInfo_def)
  then have "cl_new ?react [''new'', t_name t, to_string memory, to_string cpus] cl
      = (Inr (), cl\<lparr>cl_proxy := l2, cl_screen := cl_screen cl @ ?row\<rparr>)"
    using cl_new_run [OF calls(1) assms(5) stoi_to_string [OF assms(6)] stoi_to_string [OF assms(7)] calls(2)] by simp
  moreover have "cl_command ?react [''new'', t_name t, to_string memory, to_string cpus]
      = cl_new ?react [''new'', t_name t, to_string memory, to_string cpus]"
    by (simp add: cl_command_def)
  ultimately show ?thesis
    using rest by (intro exI [of _ "cl\<lparr>cl_proxy := l2, cl_screen := cl_screen cl @ ?row\<rparr>"] exI [of _ i])
      (simp add: online_linked)
qed

text \<open>A client connected to a manager with an empty node and one with a machine.\<close>

definition client_of :: "server mserver \<Rightarrow> cloud_client" where
  "client_of ms = \<lparr>cl_proxy = \<lparr>l_socket = new_socket 3, l_peer = ms\<rparr>, cl_screen = greeting\<rparr>"

definition demo :: cloud_client where
  "demo = client_of (set_link 1 (link_to (vm_node 2202)) two_nodes)"

lemma client_of_simps [simp]: "the_manager (client_of ms) = ms" "cl_screen (client_of ms) = greeting"
  by (simp_all add: client_of_def)

lemma client_online:
  "n < 2 ^ 31 \<Longrightarrow> online n (client_of two_nodes)" "n < 2 ^ 31 \<Longrightarrow> online n demo"
  by (simp_all add: online_def demo_def client_of_def quiet_def mg_ready_def count_room_def new_socket_def two_nodes_def)

theorem client_sees_templates_witness:
  "\<exists>cl'. cl_command (manager_react (controller_react plain_os)) [''templates''] (client_of two_nodes) = (Inr (), cl')
    \<and> cl_screen cl' = greeting @ template_row cirros @ template_row wheezy \<and> online 0 cl'
    \<and> connected 0 (proxy (the_manager cl') 1) \<and> at_node (the_manager cl') 1 = logged ''getTemplates'' node"
proof -
  have "online (0 + 16 * length (ctrls (the_manager (client_of two_nodes))) + 3) (client_of two_nodes)"
    "cloud_ok (0 + 19) (the_manager (client_of two_nodes))"
    "clock_ok (m_world (ms_mgr (the_manager (client_of two_nodes))))"
    by (simp_all add: client_online two_nodes_ok clock_ok_def idle_world_def)
  from client_sees_templates [OF this, of plain_os] obtain cl' where
    "cl_command (manager_react (controller_react plain_os)) [''templates''] (client_of two_nodes) = (Inr (), cl')"
    "cl_screen cl' = greeting @ template_row cirros @ template_row wheezy" "online 0 cl'"
    "\<forall>k < 2. connected 0 (proxy (the_manager cl') k)
       \<and> at_node (the_manager cl') k = logged ''getTemplates'' (at_node two_nodes k)" by auto
  then show ?thesis by (intro exI [of _ cl']) simp
qed

theorem client_creates_machine_witness:
  "\<exists>cl' i. cl_command (manager_react (controller_react plain_os)) [''new'', t_name cirros, to_string 64, to_string 2]
        (client_of two_nodes) = (Inr (), cl')
    \<and> cl_screen cl' = greeting @ ''   result: ID: '' @ ''srv2'' @ ''/'' @ to_string (i_id i)
        @ '', SSH port: '' @ to_string (i_sshPort i) @ NL
    \<and> i_memory i = 64 \<and> i_cpus i = 2 \<and> i_template i = cirros
    \<and> instances (at_node (the_manager cl') 1) = map_put (i_id i) i []
    \<and> at_node (the_manager cl') 0 = logged ''getTemplates'' node"
proof -
  let ?cl = "client_of two_nodes"
  have on: "online (0 + 15 + 16 * length (ctrls (the_manager ?cl)) + 3) ?cl" "cloud_ok (0 + 34 + 19) (the_manager ?cl)"
    "clock_ok (m_world (ms_mgr (the_manager ?cl)))" "in_int 64" "in_int 2"
    by (simp_all add: client_online two_nodes_ok clock_ok_def idle_world_def in_int_def int_min_def int_max_def)
  have k: "1 = nat ((nextController (ms_mgr (the_manager ?cl)) + 1) mod int (length (ctrls (the_manager ?cl))))" by simp
  have id: "cr_id (ctrls two_nodes ! 1) = ''srv2''" by (simp add: two_nodes_def)
  then have name: "word_line (cr_id (ctrls (the_manager ?cl) ! 1))" by (simp add: word_line_def)
  have node0: "node\<lparr>c_world := taken_world\<lparr>w_out := w_out taken_world\<rparr>\<rparr> = node" by (simp add: node_def)
  obtain out1 where 1: "logged ''getTemplates'' node = node\<lparr>c_world := taken_world\<lparr>w_out := out1\<rparr>\<rparr>"
    using logged_node [of "''getTemplates''" "w_out taken_world"] unfolding node0 by auto
  obtain out2 where 2: "logged ''getTemplates'' (node\<lparr>c_world := taken_world\<lparr>w_out := out1\<rparr>\<rparr>)
      = node\<lparr>c_world := taken_world\<lparr>w_out := out2\<rparr>\<rparr>"
    using logged_node [of "''getTemplates''" out1] by auto
  obtain out3 where "logged ''instantiate'' (node\<lparr>c_world := taken_world\<lparr>w_out := out2\<rparr>\<rparr>)
      = node\<lparr>c_world := taken_world\<lparr>w_out := out3\<rparr>\<rparr>"
    using logged_node [of "''instantiate''" out2] by auto
  with 1 2 have s: "node\<lparr>c_world := taken_world\<lparr>w_out := out3\<rparr>\<rparr>
      = logged ''instantiate'' (logged ''getTemplates'' (logged ''getTemplates'' (at_node (the_manager ?cl) 1)))" by simp
  have host: "in_int (nextPort (node\<lparr>c_world := taken_world\<lparr>w_out := out3\<rparr>\<rparr>))"
    "map_ok (instances (node\<lparr>c_world := taken_world\<lparr>w_out := out3\<rparr>\<rparr>))"
    "templates (node\<lparr>c_world := taken_world\<lparr>w_out := out3\<rparr>\<rparr>) = the_templates"
    by (simp_all add: in_int_def int_min_def int_max_def)
  from client_creates_machine [OF on(1-3) k cirros_builtin on(4,5) name s logged_node_can_host host] obtain cl' i where
    "cl_command (manager_react (controller_react plain_os)) [''new'', t_name cirros, to_string 64, to_string 2] ?cl = (Inr (), cl')"
    "cl_screen cl' = cl_screen ?cl @ ''   result: ID: '' @ cr_id (ctrls (the_manager ?cl) ! 1) @ ''/'' @ to_string (i_id i)
        @ '', SSH port: '' @ to_string (i_sshPort i) @ NL"
    "i_memory i = 64" "i_cpus i = 2" "i_template i = cirros"
    "instances (at_node (the_manager cl') 1) = map_put (i_id i) i (instances (at_node (the_manager ?cl) 1))"
    "\<forall>j < length (ctrls (the_manager ?cl)). j \<noteq> 1 \<longrightarrow>
       at_node (the_manager cl') j = logged ''getTemplates'' (at_node (the_manager ?cl) j)" by blast
  then show ?thesis
    using id by (intro exI [of _ cl'] exI [of _ i]) simp
qed

theorem client_to_node_witness:
  "\<exists>c cl'. run plain_os 1000 (logged ''run'' (vm_node 2202)) = (Inr True, c)
    \<and> cl_command (manager_react (controller_react plain_os)) [''run'', makeFullId ''srv2'' (to_string 1000)] demo = (Inr (), cl')
    \<and> cl_screen cl' = greeting @ ''OK'' @ NL \<and> at_node (the_manager cl') 1 = c
    \<and> proxy (the_manager cl') 0 = link_to node"
proof -
  let ?ms = "set_link 1 (link_to (vm_node 2202)) two_nodes"
  have peer: "the_manager demo = ?ms" "cl_screen demo = greeting" by (simp_all add: demo_def)
  have found: "find_controller ''srv2'' (ctrls (the_manager demo)) = Some 1"
    unfolding peer by (simp add: find_controller_def upt_rec two_nodes_def set_link_def)
  have far: "proxy (the_manager demo) 1 = link_to (vm_node 2202)" unfolding peer by simp
  obtain out where "logged ''run'' (vm_node 2202) = (vm_node 2202)\<lparr>c_world := taken_world\<lparr>w_out := out\<rparr>\<rparr>"
    using processing_run [of "vm_node 2202" "''run''"] by auto
  then have run: "run plain_os 1000 (logged ''run'' (at_node (the_manager demo) 1))
      = (Inr True, snd (run plain_os 1000 (logged ''run'' (vm_node 2202))))"
    using far by (simp add: vm_node_run)
  have cmd: "''run'' = ''run'' \<and> run plain_os = run plain_os \<or> ''run'' = ''kill'' \<and> run plain_os = kill" by simp
  have on: "online (0 + 5) demo" and up: "connected (0 + 5) (proxy (the_manager demo) 1)"
    using client_online(2) [of 5] connected_fresh [of 5 "vm_node 2202"] far by simp_all
  have id: "CHR ''/'' \<notin> set ''srv2''" "word_line ''srv2''" "str_fits (makeFullId ''srv2'' (to_string 1000))" "in_int 1000"
    "clock_ok (m_world (ms_mgr (the_manager demo)))"
    unfolding peer
    by (simp_all add: makeFullId_def str_fits_def in_int_def int_min_def int_max_def clock_ok_def idle_world_def
        to_string_1000 word_line_def)
  have clock: "clock_ok (c_world (at_node (the_manager demo) 1))" using far by simp
  from client_to_node [OF cmd on id(1-5) found up clock run, of True] run far show ?thesis
    unfolding peer by fastforce
qed

end
