(* ===== verification/Cloud_Listing.thy ===== *)
theory Cloud_Listing
  imports Cloud
begin

text \<open>
  The listing of all machines, from the client's prompt to the nodes and back: what the manager
  gathers from its nodes, under which ids, what the client prints, and what happens when there is
  nothing to list.
\<close>

section \<open>The machines of one node\<close>

text \<open>What the manager makes of the description \<open>i\<close> that the node \<open>name\<close> gave.\<close>

definition at_server :: "string \<Rightarrow> instanceInfo \<Rightarrow> instanceInfo" where
  "at_server name i = setId (makeFullId name (ii_id i)) i"

definition machines_of :: "string \<Rightarrow> controller \<Rightarrow> instanceInfo list" where
  "machines_of name c = map (at_server name) (map_values (info_map (infos c)))"

text \<open>A description of instance \<open>k\<close> of the controller \<open>c\<close>, as the cloud shows it.\<close>

definition shown :: "string \<Rightarrow> controller \<Rightarrow> int \<Rightarrow> instanceInfo \<Rightarrow> bool" where
  "shown name c k v \<longleftrightarrow> (\<exists>i. map_find (instances c) k = Some i
     \<and> v = (getInstanceInfo i (c_world c))\<lparr>ii_id := name @ ''/'' @ to_string k\<rparr>)"

lemma full_id_inj:
  assumes "CHR ''/'' \<notin> set n" "CHR ''/'' \<notin> set n'" "n @ ''/'' @ i = n' @ ''/'' @ i'"
  shows "n = n' \<and> i = i'"
proof -
  have "takeWhile (\<lambda>c. c \<noteq> CHR ''/'') (n @ CHR ''/'' # i) = n" "takeWhile (\<lambda>c. c \<noteq> CHR ''/'') (n' @ CHR ''/'' # i') = n'"
    using assms(1,2) by (auto intro: takeWhile_stop)
  with assms(3) show ?thesis by auto
qed

lemma info_map_ok: "map_ok (info_map is)"
  unfolding info_map_def using cxx_map.ok_fold [of "[]" ii_id "\<lambda>i. i" "is"] by simp

lemma info_map_find:
  assumes "distinct (map ii_id xs)"
  shows "map_find (info_map xs) key = Some v \<longleftrightarrow> v \<in> set xs \<and> ii_id v = key"
proof -
  have "map_find (info_map xs) key = map_of (map (\<lambda>x. (ii_id x, x)) xs) key"
    using cxx_map.find_fold_from_empty [OF assms, of "\<lambda>i. i" key] by (simp add: info_map_def)
  moreover have "distinct (map fst (map (\<lambda>x. (ii_id x, x)) xs))" using assms by (simp add: comp_def)
  ultimately show ?thesis by (auto simp: map_of_eq_Some_iff simp del: map_map)
qed

lemma info_map_values:
  assumes "distinct (map ii_id xs)"
  shows "set (map_values (info_map xs)) = set xs"
proof
  show "set (map_values (info_map xs)) \<subseteq> set xs"
    using map_values_find [OF info_map_ok] info_map_find [OF assms] by blast
  show "set xs \<subseteq> set (map_values (info_map xs))"
    using map_find_values [OF info_map_ok] info_map_find [OF assms] by blast
qed

lemma info_map_keys:
  assumes "distinct (map ii_id xs)"
  shows "map ii_id (map_values (info_map xs)) = map fst (info_map xs)"
proof -
  have "ii_id v = k" if "(k, v) \<in> set (info_map xs)" for k v
    using that cxx_map.find_iff [OF info_map_ok] info_map_find [OF assms] by blast
  then show ?thesis by (auto simp: map_values_def)
qed

lemma machines_shown:
  assumes "ctl_inv wdir c"
  shows "v \<in> set (machines_of name c) \<longleftrightarrow> (\<exists>k. shown name c k v)"
proof -
  have entry: "map_find (instances c) k = Some i \<longleftrightarrow> (k, i) \<in> set (instances c)" for k i
    using assms cxx_map.find_iff [of "instances c" k i] by (simp add: ctl_inv_def)
  have made: "at_server name (getInstanceInfo i w) = (getInstanceInfo i w)\<lparr>ii_id := name @ ''/'' @ to_string (i_id i)\<rparr>" for i w
    by (simp add: at_server_def setId_def makeFullId_def getInstanceInfo_def)
  have id: "i_id i = k" if "(k, i) \<in> set (instances c)" for k i
    using ctl_inv_entry [OF assms that] by (simp add: inst_inv_def)
  have "set (machines_of name c) = (\<lambda>(k, i). at_server name (getInstanceInfo i (c_world c))) ` set (instances c)"
    using info_map_values [OF infos_ok(3) [OF assms]]
    by (force simp: machines_of_def infos_def map_values_def getInstances_def)
  then have "v \<in> set (machines_of name c)
      \<longleftrightarrow> (\<exists>k i. (k, i) \<in> set (instances c) \<and> v = at_server name (getInstanceInfo i (c_world c)))" by auto
  also have "\<dots> \<longleftrightarrow> (\<exists>k. shown name c k v)"
    unfolding shown_def entry made using id by metis
  finally show ?thesis .
qed

lemma machines_distinct: "ctl_inv wdir c \<Longrightarrow> distinct (map ii_id (machines_of name c))"
proof -
  assume inv: "ctl_inv wdir c"
  have "map ii_id (machines_of name c) = map (makeFullId name) (map fst (info_map (infos c)))"
    unfolding info_map_keys [OF infos_ok(3) [OF inv], symmetric]
    by (simp add: machines_of_def at_server_def setId_def)
  moreover have "distinct (map fst (info_map (infos c)))"
    using cxx_map.entries_distinct [OF info_map_ok] by simp
  moreover have "inj (makeFullId name)" by (intro injI) (simp add: makeFullId_def)
  ultimately show ?thesis by (simp only: distinct_map) (meson inj_on_subset subset_UNIV)
qed

lemma machines_count: "ctl_inv wdir c \<Longrightarrow> length (machines_of name c) = length (instances c)"
proof -
  assume inv: "ctl_inv wdir c"
  have "set (map_values (info_map (infos c))) = set (infos c)" by (rule info_map_values [OF infos_ok(3) [OF inv]])
  moreover have "distinct (map_values (info_map (infos c)))"
    using cxx_map.entries_distinct [OF info_map_ok, of "infos c"] info_map_keys [OF infos_ok(3) [OF inv]]
    by (metis distinct_map)
  moreover have "distinct (infos c)" using infos_ok(3) [OF inv] by (simp add: distinct_map)
  ultimately have "length (map_values (info_map (infos c))) = length (infos c)"
    by (metis distinct_card)
  then show ?thesis by (simp add: machines_of_def infos_def map_values_def getInstances_def)
qed

section \<open>What the manager gathers\<close>

definition answering :: "nat \<Rightarrow> server link \<Rightarrow> bool" where
  "answering b l \<longleftrightarrow> connected (b + 12 * length (instances (far l)) + 3) l \<and> clock_ok (c_world (far l))
     \<and> (\<exists>wdir. ctl_inv wdir (far l))"

definition machines_at :: "server manager \<Rightarrow> nat \<Rightarrow> instanceInfo list" where
  "machines_at m k = machines_of (cr_id (controllers m ! k)) (far (cr_proxy (controllers m ! k)))"

definition all_machines :: "server manager \<Rightarrow> instanceInfo list" where
  "all_machines m = concat (map (machines_at m) [0..<length (controllers m)])"

lemma machines_at_world [simp]: "machines_at (m\<lparr>m_world := w\<rparr>) = machines_at m"
  by (rule ext) (simp add: machines_at_def)

lemma instances_of_node:
  assumes "answering b (cr_proxy (controllers m ! k))"
  shows "\<exists>l. instances_of (controller_react os) k m = (Inr (machines_at m k), set_proxy k l m)
    \<and> connected b l \<and> far l = logged ''getInstances'' (far (cr_proxy (controllers m ! k)))"
proof -
  let ?l = "cr_proxy (controllers m ! k)"
  obtain wdir where "ctl_inv wdir (far ?l)" using assms by (auto simp: answering_def)
  then obtain l where "proxy_getInstances (controller_react os) ?l = (Inr (info_map (infos (far ?l))), l)"
    "connected b l" "far l = logged ''getInstances'' (far ?l)"
    using node_listing_call [of b ?l wdir os] assms by (auto simp: answering_def)
  then show ?thesis
    by (intro exI [of _ l]) (simp add: instances_of_def bnd_def gets_def on_ctrl_set_proxy ret_def machines_at_def
        machines_of_def at_server_def [abs_def])
qed

lemma gather_instances:
  "\<forall>k \<in> set ks. k < length (controllers m) \<and> answering b (cr_proxy (controllers m ! k)) \<Longrightarrow> distinct ks \<Longrightarrow>
   \<exists>m'. gather ks (instances_of (controller_react os)) m = (Inr (concat (map (machines_at m) ks)), m')
     \<and> asked_at ''getInstances'' b (set ks) m m'"
proof (induction ks arbitrary: m)
  case Nil
  then show ?case by (simp add: ret_def asked_at_def)
next
  case (Cons k ks)
  have k: "k < length (controllers m)" using Cons.prems(1) by simp
  obtain l where one: "instances_of (controller_react os) k m = (Inr (machines_at m k), set_proxy k l m)"
    and l: "connected b l" "far l = logged ''getInstances'' (far (cr_proxy (controllers m ! k)))"
    using instances_of_node [of b m k os] Cons.prems(1) by auto
  let ?m = "set_proxy k l m"
  have "\<forall>j \<in> set ks. j < length (controllers ?m) \<and> answering b (cr_proxy (controllers ?m ! j))"
    using Cons.prems k by auto
  then obtain m' where m': "gather ks (instances_of (controller_react os)) ?m = (Inr (concat (map (machines_at ?m) ks)), m')"
    "asked_at ''getInstances'' b (set ks) ?m m'"
    using Cons.IH [of ?m] Cons.prems(2) by auto
  have "concat (map (machines_at ?m) ks) = concat (map (machines_at m) ks)"
    using Cons.prems(2) k by (intro arg_cong [where f = concat] map_cong) (auto simp: machines_at_def)
  moreover have "asked_at ''getInstances'' b (set (k # ks)) m m'"
    using m'(2) k l Cons.prems(2) by (auto simp: asked_at_def)
  ultimately show ?case using one m'(1) by (simp add: bnd_def ret_def)
qed

text \<open>The body of the command, with its log line.\<close>

lemma man_gathers:
  assumes "\<forall>k < length (controllers m). answering b (cr_proxy (controllers m ! k))" "clock_ok (m_world m)"
  shows "\<exists>out m'. seq (mprocessing ''getInstances'') (bnd (gets (\<lambda>s. length (controllers s))) (\<lambda>n.
      gather [0..<n] (instances_of (controller_react os)))) m = (Inr (all_machines m), m')
    \<and> asked_at ''getInstances'' b {..<length (controllers m)} (m\<lparr>m_world := (m_world m)\<lparr>w_out := out\<rparr>\<rparr>) m'"
proof -
  obtain out where log: "mprocessing ''getInstances'' m = (Inr (), m\<lparr>m_world := (m_world m)\<lparr>w_out := out\<rparr>\<rparr>)"
    using mprocessing_run [OF assms(2), of "''getInstances''"] by auto
  let ?m = "m\<lparr>m_world := (m_world m)\<lparr>w_out := out\<rparr>\<rparr>"
  have "\<forall>k \<in> set [0..<length (controllers m)]. k < length (controllers ?m) \<and> answering b (cr_proxy (controllers ?m ! k))"
    using assms(1) by auto
  from gather_instances [OF this, of os] obtain m' where
    "gather [0..<length (controllers m)] (instances_of (controller_react os)) ?m = (Inr (all_machines m), m')"
    "asked_at ''getInstances'' b {..<length (controllers m)} ?m m'"
    by (auto simp: atLeast0LessThan all_machines_def)
  with log show ?thesis
    by (intro exI [of _ out] exI [of _ m']) (simp add: seq_Inr bnd_gets)
qed

section \<open>All machines\<close>

definition named :: "'r ctrlRef list \<Rightarrow> bool" where
  "named cs \<longleftrightarrow> distinct (map cr_id cs) \<and> (\<forall>c \<in> set cs. CHR ''/'' \<notin> set (cr_id c) \<and> word_line (cr_id c))"

definition orderly :: "server manager \<Rightarrow> bool" where
  "orderly m \<longleftrightarrow> (\<forall>k < length (controllers m). \<exists>wdir. ctl_inv wdir (far (cr_proxy (controllers m ! k))))"

lemma all_machines_shown:
  assumes "orderly m"
  shows "v \<in> set (all_machines m) \<longleftrightarrow> (\<exists>j < length (controllers m). \<exists>k.
    shown (cr_id (controllers m ! j)) (far (cr_proxy (controllers m ! j))) k v)"
  using assms machines_shown unfolding orderly_def all_machines_def machines_at_def
  by (fastforce simp: atLeast0LessThan)

lemma shown_id: "shown name c k v \<Longrightarrow> ii_id v = name @ ''/'' @ to_string k"
  by (auto simp: shown_def)

lemma all_machines_distinct:
  assumes "orderly m" "named (controllers m)"
  shows "distinct (map ii_id (all_machines m))"
proof -
  let ?n = "length (controllers m)"
  have name: "CHR ''/'' \<notin> set (cr_id (controllers m ! j))" if "j < ?n" for j
    using assms(2) that by (auto simp: named_def)
  have inj: "cr_id (controllers m ! i) = cr_id (controllers m ! j) \<Longrightarrow> i = j" if "i < ?n" "j < ?n" for i j
    using assms(2) that nth_eq_iff_index_eq [of "map cr_id (controllers m)" i j] by (simp add: named_def)
  have "distinct (map ii_id (concat (map (machines_at m) [0..<n])))" if "n \<le> ?n" for n
    using that
  proof (induction n)
    case (Suc n)
    obtain wdir where inv: "ctl_inv wdir (far (cr_proxy (controllers m ! n)))"
      using assms(1) Suc.prems unfolding orderly_def by (metis Suc_le_eq)
    have False if vu: "v \<in> set (machines_at m n)" "u \<in> set (machines_at m j)" and j: "j < n" and eq: "ii_id v = ii_id u" for u v j
    proof -
      obtain wdir' where "ctl_inv wdir' (far (cr_proxy (controllers m ! j)))"
        using assms(1) Suc.prems j unfolding orderly_def by (metis Suc_le_eq less_trans)
      with inv vu obtain k k' where "shown (cr_id (controllers m ! n)) (far (cr_proxy (controllers m ! n))) k v"
        "shown (cr_id (controllers m ! j)) (far (cr_proxy (controllers m ! j))) k' u"
        unfolding machines_at_def using machines_shown by metis
      with eq have "cr_id (controllers m ! n) @ ''/'' @ to_string k = cr_id (controllers m ! j) @ ''/'' @ to_string k'"
        by (simp only: shown_id)
      moreover have nj: "n < ?n" "j < ?n" using Suc.prems j by auto
      ultimately have "cr_id (controllers m ! n) = cr_id (controllers m ! j)"
        using full_id_inj [OF name [OF nj(1)] name [OF nj(2)]] by blast
      from inj [OF nj this] j show False by simp
    qed
    then have "set (map ii_id (concat (map (machines_at m) [0..<n]))) \<inter> set (map ii_id (machines_at m n)) = {}"
      by (auto simp: image_iff) metis
    with Suc machines_distinct [OF inv] show ?case by (simp add: machines_at_def)
  qed simp
  then show ?thesis by (simp add: all_machines_def)
qed

lemma shown_ok:
  assumes "ctl_inv wdir c" "shown name c k v" "word_line name"
  shows "info_ok v" "list_all word_line (InstanceInfo_serialize v)"
proof -
  obtain i where i: "map_find (instances c) k = Some i"
    and v: "v = (getInstanceInfo i (c_world c))\<lparr>ii_id := name @ ''/'' @ to_string k\<rparr>"
    using assms(2) by (auto simp: shown_def)
  have inv: "inst_inv wdir k i" using assms(1) i by (simp add: ctl_inv_def)
  then show "info_ok v" unfolding v by (simp add: inst_inv_def info_ok_def getInstanceInfo_def)
  have "word_line (t_name (i_template i))" using inv builtin_word_line unfolding inst_inv_def by blast
  moreover have "word_line (name @ ''/'' @ to_string k)" using assms(3) by (simp add: word_line_def)
  ultimately show "list_all word_line (InstanceInfo_serialize v)"
    unfolding v by (simp add: InstanceInfo_serialize_def getInstanceInfo_def)
qed

lemma all_machines_ok:
  assumes "orderly m" "named (controllers m)"
  shows "list_all info_ok (all_machines m)" "frame_ok (concat (map InstanceInfo_serialize (all_machines m)))"
proof -
  have ok: "info_ok v \<and> list_all word_line (InstanceInfo_serialize v)" if v_in: "v \<in> set (all_machines m)" for v
  proof -
    obtain j k where j: "j < length (controllers m)"
      and v: "shown (cr_id (controllers m ! j)) (far (cr_proxy (controllers m ! j))) k v"
      using v_in unfolding all_machines_shown [OF assms(1)] by blast
    obtain wdir where "ctl_inv wdir (far (cr_proxy (controllers m ! j)))"
      using assms(1) j unfolding orderly_def by blast
    moreover have "word_line (cr_id (controllers m ! j))" using assms(2) j by (auto simp: named_def)
    ultimately show ?thesis using v shown_ok by blast
  qed
  then show "list_all info_ok (all_machines m)" by (simp add: list_all_iff)
  have "list_all word_line (concat (map InstanceInfo_serialize (all_machines m)))"
    using ok by (fastforce simp: list_all_iff)
  then show "frame_ok (concat (map InstanceInfo_serialize (all_machines m)))"
    unfolding frame_ok_def using sendable_words by blast
qed

lemma all_machines_count:
  assumes "orderly m"
  shows "length (all_machines m) = (\<Sum>j < length (controllers m). length (instances (far (cr_proxy (controllers m ! j)))))"
proof -
  have "length (machines_at m j) = length (instances (far (cr_proxy (controllers m ! j))))" if "j < length (controllers m)" for j
    using assms that machines_count unfolding orderly_def machines_at_def by blast
  then have "length (concat (map (machines_at m) [0..<n])) = (\<Sum>j < n. length (instances (far (cr_proxy (controllers m ! j)))))"
    if "n \<le> length (controllers m)" for n
    using that by (induction n) simp_all
  then show ?thesis by (simp add: all_machines_def)
qed

section \<open>The client's listing\<close>

lemma print_rows:
  "for_each xs (\<lambda>x. cl_print (row x)) cl = (Inr (), cl\<lparr>cl_screen := cl_screen cl @ concat (map row xs)\<rparr>)"
  by (induction xs arbitrary: cl) (simp_all add: ret_def seq_def bnd_def cl_print_def modify_def)

lemma cl_instances_run:
  assumes "proxy_getInstances react (cl_proxy cl) = (Inr m, l)"
  shows "cl_command react [''instances''] cl = (Inr (), cl\<lparr>cl_proxy := l,
    cl_screen := cl_screen cl @ instances_head @ concat (map instance_row (map_values m))\<rparr>)"
proof -
  have "cl_print instances_head cl = (Inr (), cl\<lparr>cl_screen := cl_screen cl @ instances_head\<rparr>)"
    by (simp add: cl_print_def modify_def)
  moreover have "cl_call (proxy_getInstances react) (cl\<lparr>cl_screen := cl_screen cl @ instances_head\<rparr>)
      = (Inr m, cl\<lparr>cl_proxy := l, cl_screen := cl_screen cl @ instances_head\<rparr>)"
    using assms by (simp add: cl_call_def zoom_def)
  ultimately show ?thesis
    by (simp add: cl_command_def cl_instances_def seq_Inr bnd_def print_rows)
qed

abbreviation machines_everywhere :: "server mserver \<Rightarrow> nat" where
  "machines_everywhere ms \<equiv> (\<Sum>j < length (ctrls ms). length (instances (at_node ms j)))"

text \<open>
  C4. \<open>instances\<close> typed at the client. The client prints the heading and then one row for each
  machine of each node and for nothing else, in the order of the full ids, each row with the
  machine's current data and the id that \<open>run\<close> and \<open>kill\<close> take; every node was asked once, and
  nothing but logs changed.
\<close>

theorem client_lists_machines:
  assumes "online (n + 12 * machines_everywhere (the_manager cl) + 3) cl"
    and "clock_ok (m_world (ms_mgr (the_manager cl)))" and "named (ctrls (the_manager cl))"
    and "\<And>j. j < length (ctrls (the_manager cl)) \<Longrightarrow>
      connected (b + 12 * length (instances (at_node (the_manager cl) j)) + 3) (proxy (the_manager cl) j)
      \<and> clock_ok (c_world (at_node (the_manager cl) j)) \<and> (\<exists>wdir. reachable os wdir (at_node (the_manager cl) j))"
    and "0 < machines_everywhere (the_manager cl)"
  shows "\<exists>cl' m. cl_command (manager_react (controller_react os)) [''instances''] cl = (Inr (), cl')
    \<and> cl_screen cl' = cl_screen cl @ instances_head @ concat (map instance_row (map_values m)) \<and> map_ok m
    \<and> (\<forall>key v. map_find m key = Some v \<longleftrightarrow> (\<exists>j < length (ctrls (the_manager cl)). \<exists>k.
         shown (cr_id (ctrls (the_manager cl) ! j)) (at_node (the_manager cl) j) k v \<and> ii_id v = key))
    \<and> online n cl' \<and> (\<forall>j < length (ctrls (the_manager cl)). connected b (proxy (the_manager cl') j)
         \<and> at_node (the_manager cl') j = logged ''getInstances'' (at_node (the_manager cl) j))"
proof -
  let ?m = "ms_mgr (the_manager cl)" and ?react = "controller_react os"
  have ord: "orderly ?m" using assms(4) reachable_ctl_inv unfolding orderly_def by blast
  have ans: "\<forall>k < length (controllers ?m). answering b (proxy (the_manager cl) k)"
    using assms(4) ord unfolding answering_def orderly_def by blast
  note count = all_machines_count [OF ord] and distinct = all_machines_distinct [OF ord assms(3)]
  obtain out m' where op: "man_instances ?react ?m = (Inr (all_machines ?m), m')"
    and m': "asked_at ''getInstances'' b {..<length (controllers ?m)} (?m\<lparr>m_world := (m_world ?m)\<lparr>w_out := out\<rparr>\<rparr>) m'"
  proof -
    have "all_machines ?m \<noteq> []" using assms(5) count by auto
    moreover obtain out m' where "seq (mprocessing ''getInstances'') (bnd (gets (\<lambda>s. length (controllers s))) (\<lambda>n.
        gather [0..<n] (instances_of ?react))) ?m = (Inr (all_machines ?m), m')"
      "asked_at ''getInstances'' b {..<length (controllers ?m)} (?m\<lparr>m_world := (m_world ?m)\<lparr>w_out := out\<rparr>\<rparr>) m'"
      using man_gathers [OF ans assms(2), of os] by blast
    ultimately show ?thesis
      using that by (auto simp: man_instances_def seq_Inr_iff bnd_Inr_iff ret_def gets_def fail_def)
  qed
  have "cloud.linked (n + cost (concat (map InstanceInfo_serialize (all_machines ?m)))) (cl_proxy cl)"
    using assms(1) unfolding cost_infos count by (simp add: online_linked add.assoc)
  from cloud.proxy_instances [OF this op all_machines_ok [OF ord assms(3)]] obtain l where
    l: "proxy_getInstances (manager_react ?react) (cl_proxy cl) = (Inr (info_map (all_machines ?m)), l)"
      "cloud.linked n l" "ms_mgr (l_peer l) = m'"
    unfolding info_map_def by blast
  let ?cl = "cl\<lparr>cl_proxy := l, cl_screen := cl_screen cl @ instances_head
    @ concat (map instance_row (map_values (info_map (all_machines ?m))))\<rparr>"
  have "map_find (info_map (all_machines ?m)) key = Some v \<longleftrightarrow> (\<exists>j < length (ctrls (the_manager cl)). \<exists>k.
      shown (cr_id (ctrls (the_manager cl) ! j)) (at_node (the_manager cl) j) k v \<and> ii_id v = key)" for key v
    unfolding info_map_find [OF distinct] all_machines_shown [OF ord] by blast
  then show ?thesis
    using l m' cl_instances_run [OF l(1)] info_map_ok
    by (intro exI [of _ ?cl] exI [of _ "info_map (all_machines ?m)"])
      (simp add: online_linked asked_at_def)
qed

section \<open>Nothing to list\<close>

lemma manager_lists_nothing:
  assumes "quiet (n + 2) (ms_conn ms)" "ms_fault ms = None"
    and "seq (mprocessing ''getInstances'') (bnd (gets (\<lambda>s. length (controllers s))) (\<lambda>n.
      gather [0..<n] (instances_of react))) (ms_mgr ms) = (Inr [], c)"
  shows "\<exists>conn. manager_react react (frame [''getInstances'']) ms
      = ((if writeCount (ms_conn ms) = 0 then frame [] else CRLF, False), ms\<lparr>ms_mgr := c, ms_conn := conn, ms_fault := None\<rparr>)
    \<and> quiet n conn"
proof -
  have "mgr_dispatch react ''getInstances'' [''getInstances''] = mgr_getInstances react" by (simp add: mgr_dispatch_def)
  then have run: "mgr_request react [''getInstances''] ms
      = (Inr (), ms\<lparr>ms_mgr := c, ms_conn := Socket_send (ms_conn ms)\<rparr>)"
    using mgr_request_run [where wr = "\<lambda>is. fold write_lines (map InstanceInfo_serialize is)" and react = react, OF _ assms(3), of "[]"]
      lifts_instances [of react]
    by simp
  have q: "s_in (Socket_send (ms_conn ms)) = []" "\<not> s_closed (Socket_send (ms_conn ms))"
    "s_out (Socket_send (ms_conn ms)) = (if writeCount (ms_conn ms) = 0 then frame [] else CRLF)"
    using assms(1) by (simp_all add: quiet_def frame_def Socket_send_def)
  have "frame_ok [''getInstances'']" by (simp add: frame_ok_def sendable_words)
  from manager_react_run [OF assms(1,2) this run q(1,2)] q(3)
  have "manager_react react (frame [''getInstances'']) ms
      = ((if writeCount (ms_conn ms) = 0 then frame [] else CRLF, False),
         ms\<lparr>ms_mgr := c, ms_conn := (Socket_send (ms_conn ms))\<lparr>s_out := []\<rparr>, ms_fault := None\<rparr>)" by simp
  moreover have "quiet n ((Socket_send (ms_conn ms))\<lparr>s_out := []\<rparr>)"
    using assms(1) q(1,2) count_room_send [of n "ms_conn ms"] by (simp add: quiet_def)
  ultimately show ?thesis by blast
qed

lemma proxy_lists_nothing:
  assumes "online (n + 3) cl"
    and "seq (mprocessing ''getInstances'') (bnd (gets (\<lambda>s. length (controllers s))) (\<lambda>n.
      gather [0..<n] (instances_of react))) (ms_mgr (the_manager cl)) = (Inr [], c)"
  shows "\<exists>l. proxy_getInstances (manager_react react) (cl_proxy cl)
      = (if writeCount (ms_conn (the_manager cl)) = 0 then Inr [] else Inl Blocks, l)
    \<and> ms_mgr (l_peer l) = c \<and> mg_ready n (l_peer l)
    \<and> (writeCount (ms_conn (the_manager cl)) = 0 \<longrightarrow> quiet n (l_socket l))"
proof -
  let ?ms = "the_manager cl"
  have ms: "quiet (n + 1 + 2) (ms_conn ?ms)" "ms_fault ?ms = None" and q: "quiet (n + 3) (l_socket (cl_proxy cl))"
    using assms(1) by (auto simp: online_def mg_ready_def intro: quiet_mono)
  obtain conn where react: "manager_react react (frame [''getInstances'']) ?ms
      = ((if writeCount (ms_conn ?ms) = 0 then frame [] else CRLF, False), ?ms\<lparr>ms_mgr := c, ms_conn := conn, ms_fault := None\<rparr>)"
    and conn: "quiet n conn"
    using manager_lists_nothing [OF ms assms(2)] quiet_mono by (metis le_add1)
  let ?ms' = "?ms\<lparr>ms_mgr := c, ms_conn := conn, ms_fault := None\<rparr>"
  let ?k = "\<lambda>data. of_res (collect InstanceInfo_SERIAL_SIZE InstanceInfo_deserialize ii_id data [])
      :: (server mserver link, (string, instanceInfo) cmap) M"
  have ready: "mg_ready n ?ms'" using conn by (simp add: mg_ready_def)
  show ?thesis
  proof (cases "writeCount (ms_conn ?ms) = 0")
    case True
    then have "answers (manager_react react) ?ms [''getInstances''] [] ?ms'"
      using react by (simp add: answers_def frame_ok_def)
    from call_one [OF q this, of ?k] obtain s where "proxy_getInstances (manager_react react) (cl_proxy cl)
        = ?k [] ((cl_proxy cl)\<lparr>l_socket := s, l_peer := ?ms'\<rparr>)" "quiet n s"
      unfolding proxy_getInstances_def by blast
    then have "proxy_getInstances (manager_react react) (cl_proxy cl)
        = (Inr [], (cl_proxy cl)\<lparr>l_socket := s, l_peer := ?ms'\<rparr>)" "quiet n s"
      by (simp_all add: of_res_def collect.simps)
    then show ?thesis using True ready by (intro exI [of _ "(cl_proxy cl)\<lparr>l_socket := s, l_peer := ?ms'\<rparr>"]) simp
  next
    case False
    have "first_message CRLF = None" by (simp add: first_message_def CRLF_def)
    from call_one_waits [OF q _ this, where k = ?k] react False obtain s where "proxy_getInstances (manager_react react) (cl_proxy cl)
        = (Inl Blocks, (cl_proxy cl)\<lparr>l_socket := s, l_peer := ?ms'\<rparr>)"
      unfolding proxy_getInstances_def by fastforce
    then show ?thesis using False ready by (intro exI [of _ "(cl_proxy cl)\<lparr>l_socket := s, l_peer := ?ms'\<rparr>"]) simp
  qed
qed


section \<open>Examples\<close>

definition one_machine :: "controller \<Rightarrow> cloud_client" where
  "one_machine c = client_of (set_link 1 (link_to c) two_nodes)"

lemma one_machine_simps [simp]:
  "the_manager (one_machine c) = set_link 1 (link_to c) two_nodes" "cl_screen (one_machine c) = greeting"
  by (simp_all add: one_machine_def)

lemma two_named: "named (ctrls (set_link 1 l two_nodes))"
  by (auto simp: named_def two_nodes_def set_link_def word_line_def)

lemma one_machine_online: "n < 2 ^ 31 \<Longrightarrow> online n (one_machine c)"
  by (simp add: online_def one_machine_def client_of_def quiet_def mg_ready_def count_room_def new_socket_def two_nodes_def)

theorem client_lists_machines_witness:
  "\<exists>c cl' m. instances c \<noteq> [] \<and> cl_command (manager_react (controller_react plain_os)) [''instances''] (one_machine c) = (Inr (), cl')
    \<and> cl_screen cl' = cl_screen (one_machine c) @ instances_head @ concat (map instance_row (map_values m)) \<and> map_ok m
    \<and> (\<forall>key v. map_find m key = Some v \<longleftrightarrow> (\<exists>j < length (ctrls (the_manager (one_machine c))). \<exists>k.
         shown (cr_id (ctrls (the_manager (one_machine c)) ! j)) (at_node (the_manager (one_machine c)) j) k v \<and> ii_id v = key))
    \<and> online 0 cl'"
proof -
  obtain c where c: "reachable plain_os ''/tmp/s1'' c" "clock_ok (c_world c)" "length (instances c) = 1"
    using vm_node_reachable by blast
  let ?cl = "one_machine c"
  have at: "proxy (the_manager ?cl) j = link_to (if j = 1 then c else node)" if "j < 2" for j
    using that by (auto simp: less_2_cases_iff)
  have count: "machines_everywhere (the_manager ?cl) = 1"
    using c(3) by (simp add: numeral_2_eq_2)
  have on: "online (0 + 12 * machines_everywhere (the_manager ?cl) + 3) ?cl"
    unfolding count by (rule one_machine_online) simp
  have clock: "clock_ok (m_world (ms_mgr (the_manager ?cl)))" by (simp add: clock_ok_def idle_world_def)
  have nodes: "connected (0 + 12 * length (instances (at_node (the_manager ?cl) j)) + 3) (proxy (the_manager ?cl) j)
      \<and> clock_ok (c_world (at_node (the_manager ?cl) j)) \<and> (\<exists>wdir. reachable plain_os wdir (at_node (the_manager ?cl) j))"
    if "j < length (ctrls (the_manager ?cl))" for j
    using that at [of j] c node_reachable by (auto intro: connected_fresh)
  have names: "named (ctrls (the_manager ?cl))" using two_named by simp
  have some: "0 < machines_everywhere (the_manager ?cl)" "instances c \<noteq> []" unfolding count using c(3) by auto
  show ?thesis
    by (rule exI [of _ c], rule ex_forward [OF client_lists_machines [OF on clock names nodes some(1)]], assumption,
        erule ex_forward, elim conjE, intro conjI some(2); assumption)
qed

definition used_client :: cloud_client where
  "used_client = client_of (two_nodes\<lparr>ms_conn := (new_socket 6)\<lparr>writeCount := 9\<rparr>\<rparr>)"


end
