(* ===== verification/Input_Safety.thy ===== *)
theory Input_Safety
  imports Manager_Props
begin

text \<open>
  What no input can break. A controller node and a manager are driven by the bytes of a peer; in
  this theory those bytes are arbitrary (not only what a proxy sends), requests may fail
  halfway, and a manager's controllers may answer anything.
\<close>

section \<open>The node\<close>

lemma reachable_world: "reachable os wdir c \<Longrightarrow> reachable os wdir (c\<lparr>c_world := w\<rparr>)"
  by (blast intro: moved step_world)

lemma keeps_reachable:
  "keeps (reachable os wdir) (onw m)" "keeps (reachable os wdir) (instantiate os t memory cpus)"
  "keeps (reachable os wdir) (run os vmid)" "keeps (reachable os wdir) (kill vmid)"
proof -
  have step: "keeps (reachable os wdir) f" if "\<And>s. ctl_step os s (snd (f s))" for f :: "(controller, 'b) M"
  proof (rule yieldsI)
    fix s r s'
    assume "reachable os wdir s" "f s = (r, s')"
    with moved [OF _ that [of s]] show "reachable os wdir s' \<and> (\<forall>a. r = Inr a \<longrightarrow> True)" by simp
  qed
  show "keeps (reachable os wdir) (onw m)"
    unfolding onw_def by (rule yields_zoom) (simp add: reachable_world)
  show "keeps (reachable os wdir) (instantiate os t memory cpus)" by (rule step) (rule step_instantiate)
  show "keeps (reachable os wdir) (run os vmid)" by (rule step) (rule step_run)
  show "keeps (reachable os wdir) (kill vmid)" by (rule step) (rule step_kill)
qed

lemma keeps_sv_reachable:
  "keeps (reachable os wdir) m \<Longrightarrow> keeps (\<lambda>sv. reachable os wdir (sv_ctl sv)) (sv_do m)"
  unfolding sv_do_def by (rule yields_zoom) (auto dest: yieldsD)

lemma keeps_request_reachable: "keeps (\<lambda>sv. reachable os wdir (sv_ctl sv)) (request os commands)"
  unfolding request_def dispatch_def cmd_getTemplates_def cmd_getInstances_def cmd_instantiate_def cmd_run_def
    cmd_kill_def sv_write_def sv_write_lines_def sv_send_def
  by (intro yields_bnd_of_res yields_try yields_if yields_seq yields_case_option keeps_for_each keeps_bnd
      yields_gets yields_ret yields_modify keeps_sv_reachable keeps_reachable TrueI) auto

lemma serve_reachable:
  "reachable os wdir (sv_ctl sv) \<Longrightarrow> reachable os wdir (sv_ctl (snd (serve os sv)))"
proof (induction os sv rule: serve.induct)
  case (1 os sv)
  obtain r conn where rd: "Socket_read (sv_conn sv) = (r, conn)" by (cases "Socket_read (sv_conn sv)")
  show ?case
  proof (cases r)
    case (Inl f)
    with rd 1(2) show ?thesis by (simp add: serve.simps [of os sv])
  next
    case (Inr commands)
    obtain r' sv' where req: "request os commands (sv\<lparr>sv_conn := conn\<rparr>) = (r', sv')"
      by (cases "request os commands (sv\<lparr>sv_conn := conn\<rparr>)")
    have sv': "reachable os wdir (sv_ctl sv')"
      using yieldsD [OF keeps_request_reachable req] 1(2) by simp
    show ?thesis
    proof (cases r')
      case (Inl f)
      with rd Inr req sv' show ?thesis by (simp add: serve.simps [of os sv])
    next
      case (Inr u)
      with 1(1) [OF rd [symmetric] \<open>r = Inr commands\<close> req [symmetric] _ sv'] rd \<open>r = Inr commands\<close> req
      show ?thesis by (simp add: serve.simps [of os sv])
    qed
  qed
qed

lemma controller_react_reachable:
  "reachable os wdir (sv_ctl sv) \<Longrightarrow> reachable os wdir (sv_ctl (snd (controller_react os bytes sv)))"
  using serve_reachable [of os wdir "sv\<lparr>sv_conn := (sv_conn sv)\<lparr>s_in := s_in (sv_conn sv) @ bytes\<rparr>\<rparr>"]
  by (cases "serve os (sv\<lparr>sv_conn := (sv_conn sv)\<lparr>s_in := s_in (sv_conn sv) @ bytes\<rparr>\<rparr>)")
    (simp add: controller_react_def)

text \<open>
  A connection over time: before each chunk of bytes arrives, anything may happen on the host.
\<close>

fun fed :: "os \<Rightarrow> (world \<times> string) list \<Rightarrow> server \<Rightarrow> server" where
  "fed os [] sv = sv"
| "fed os ((w, bytes) # chunks) sv =
    fed os chunks (snd (controller_react os bytes (sv\<lparr>sv_ctl := (sv_ctl sv)\<lparr>c_world := w\<rparr>\<rparr>)))"

lemma fed_reachable: "reachable os wdir (sv_ctl sv) \<Longrightarrow> reachable os wdir (sv_ctl (fed os chunks sv))"
  by (induction os chunks sv rule: fed.induct) (simp_all add: controller_react_reachable reachable_world)

section \<open>The manager\<close>

text \<open>
  A manager supervises \<open>refs\<close> (names, addresses and ports, in file order) and its round robin
  stands at one of them.
\<close>

definition mgr_inv :: "entry list \<Rightarrow> 'r manager \<Rightarrow> bool" where
  "mgr_inv refs m \<longleftrightarrow> map entry_of (controllers m) = refs \<and> 0 \<le> nextController m
     \<and> (nextController m = 0 \<or> nextController m < int (length refs))"

lemma mgr_inv_length: "mgr_inv refs m \<Longrightarrow> length (controllers m) = length refs"
  by (auto simp: mgr_inv_def)

lemma mgr_inv_on_ctrl: "mgr_inv refs m \<Longrightarrow> mgr_inv refs (snd (on_ctrl k f m))"
proof -
  assume inv: "mgr_inv refs m"
  obtain r l where f: "f (cr_proxy (controllers m ! k)) = (r, l)" by fastforce
  have "map entry_of ((controllers m)[k := (controllers m ! k)\<lparr>cr_proxy := l\<rparr>]) = map entry_of (controllers m)"
    by (cases "k < length (controllers m)")
      (simp_all add: map_update entry_of_def list_update_same_conv list_update_beyond)
  with inv f show ?thesis by (simp add: on_ctrl_def zoom_def mgr_inv_def)
qed

lemma keeps_mgr [triples]:
  "keeps (mgr_inv refs) m \<Longrightarrow> keeps (\<lambda>ms. mgr_inv refs (ms_mgr ms)) (mg_do m)"
  unfolding mg_do_def by (rule yields_zoom) (auto dest: yieldsD)

lemma keeps_mgr_parts:
  "keeps (mgr_inv refs) (on_ctrl k f)" "keeps (mgr_inv refs) (mlog g)"
  "0 \<le> next \<and> next < int (length refs) \<Longrightarrow> keeps (mgr_inv refs) (modify (\<lambda>s. s\<lparr>nextController := next\<rparr>))"
proof -
  show "keeps (mgr_inv refs) (on_ctrl k f)"
    by (rule yieldsI) (use mgr_inv_on_ctrl [of refs _ k f] in force)
  show "keeps (mgr_inv refs) (mlog g)"
    unfolding mlog_def by (rule yields_zoom) (simp add: mgr_inv_def)
qed (auto intro: yields_modify simp: mgr_inv_def)

lemma advance_in_range:
  assumes "mgr_inv refs m" "advanceModulo (length (controllers m)) (nextController m) = Inr next"
    and "length refs < 2 ^ 31"
  shows "0 \<le> next \<and> next < int (length refs)"
proof -
  have n: "length (controllers m) = length refs" by (rule mgr_inv_length [OF assms(1)])
  with assms(2) have "0 < length refs" by (auto simp: advanceModulo_def split: if_splits)
  moreover from this assms(1) have "0 \<le> nextController m" "nextController m < int (length refs)"
    by (auto simp: mgr_inv_def)
  ultimately show ?thesis
    using advance_mod [of "nextController m" "length refs"] assms(2,3) n by auto
qed

lemma keeps_try_inv:
  "length refs < 2 ^ 31 \<Longrightarrow> keeps (\<lambda>ms. mgr_inv refs (ms_mgr ms)) (try_controllers react req tries)"
proof (induction react req tries rule: try_controllers.induct)
  case (1 react req tries)
  show ?case
    unfolding try_controllers.simps [of react req tries] mg_write_lines_def
    by (intro yields_if yields_ret TrueI yields_bnd_gets yields_bnd_of_res yields_seq keeps_mgr
        keeps_mgr_parts keeps_bnd yields_case_option yields_modify 1) (auto dest: advance_in_range [OF _ _ 1(3)])
qed

lemma keeps_mgr_commands_inv:
  "keeps (\<lambda>ms. mgr_inv refs (ms_mgr ms)) (mgr_getTemplates react)"
  "keeps (\<lambda>ms. mgr_inv refs (ms_mgr ms)) (mgr_getInstances react)"
  "keeps (\<lambda>ms. mgr_inv refs (ms_mgr ms)) (mgr_route call commands)"
  "length refs < 2 ^ 31 \<Longrightarrow> keeps (\<lambda>ms. mgr_inv refs (ms_mgr ms)) (mgr_instantiate react commands)"
proof -
  show "keeps (\<lambda>ms. mgr_inv refs (ms_mgr ms)) (mgr_getTemplates react)"
    unfolding mgr_getTemplates_def mg_write_lines_def
    by (intro yields_bnd_gets keeps_for_each keeps_bnd keeps_mgr keeps_mgr_parts yields_modify) simp_all
  show "keeps (\<lambda>ms. mgr_inv refs (ms_mgr ms)) (mgr_getInstances react)"
    unfolding mgr_getInstances_def mg_write_lines_def
    by (intro yields_bnd_gets keeps_for_each keeps_bnd keeps_mgr keeps_mgr_parts yields_modify) simp_all
  show "keeps (\<lambda>ms. mgr_inv refs (ms_mgr ms)) (mgr_route call commands)"
    unfolding mgr_route_def mg_write_def
    by (intro keeps_bnd yields_if yields_seq yields_bnd_of_res yields_bnd_gets yields_case_option keeps_mgr
        keeps_mgr_parts yields_ret yields_modify) simp_all
  show "length refs < 2 ^ 31 \<Longrightarrow> keeps (\<lambda>ms. mgr_inv refs (ms_mgr ms)) (mgr_instantiate react commands)"
    unfolding mgr_instantiate_def mg_write_lines_def
    by (intro keeps_bnd yields_if yields_seq yields_bnd_of_res yields_bnd_gets keeps_try_inv keeps_mgr
        keeps_mgr_parts yields_ret yields_modify) simp_all
qed

lemma keeps_mgr_request_inv:
  assumes "length refs < 2 ^ 31"
  shows "keeps (\<lambda>ms. mgr_inv refs (ms_mgr ms)) (mgr_request react commands)"
  unfolding mgr_request_def mgr_dispatch_def mg_write_def mg_send_def
  by (intro yields_bnd_of_res yields_if yields_seq keeps_mgr keeps_mgr_parts keeps_mgr_commands_inv assms
      yields_modify) simp_all

lemma mgr_serve_inv:
  "length refs < 2 ^ 31 \<Longrightarrow> mgr_inv refs (ms_mgr ms) \<Longrightarrow> mgr_inv refs (ms_mgr (snd (mgr_serve react ms)))"
proof (induction react ms rule: mgr_serve.induct)
  case (1 react ms)
  obtain r conn where rd: "Socket_read (ms_conn ms) = (r, conn)" by (cases "Socket_read (ms_conn ms)")
  show ?case
  proof (cases r)
    case (Inl f)
    with rd 1(3) show ?thesis by (simp add: mgr_serve.simps [of react ms])
  next
    case (Inr commands)
    obtain r' ms' where req: "mgr_request react commands (ms\<lparr>ms_conn := conn\<rparr>) = (r', ms')"
      by (cases "mgr_request react commands (ms\<lparr>ms_conn := conn\<rparr>)")
    have ms': "mgr_inv refs (ms_mgr ms')"
      using yieldsD [OF keeps_mgr_request_inv [OF 1(2)] req] 1(3) by simp
    show ?thesis
    proof (cases r')
      case (Inl f)
      with rd Inr req ms' show ?thesis by (simp add: mgr_serve.simps [of react ms])
    next
      case (Inr u)
      with 1(1) [OF rd [symmetric] \<open>r = Inr commands\<close> req [symmetric] _ 1(2) ms'] rd \<open>r = Inr commands\<close> req
      show ?thesis by (simp add: mgr_serve.simps [of react ms])
    qed
  qed
qed

fun mgr_fed :: "'r react \<Rightarrow> (world \<times> string) list \<Rightarrow> 'r mserver \<Rightarrow> 'r mserver" where
  "mgr_fed react [] ms = ms"
| "mgr_fed react ((w, bytes) # chunks) ms =
    mgr_fed react chunks (snd (manager_react react bytes (ms\<lparr>ms_mgr := (ms_mgr ms)\<lparr>m_world := w\<rparr>\<rparr>)))"

lemma manager_react_inv:
  assumes "length refs < 2 ^ 31" "mgr_inv refs (ms_mgr ms)"
  shows "mgr_inv refs (ms_mgr (snd (manager_react react bytes ms)))"
  using mgr_serve_inv [OF assms(1), of "ms\<lparr>ms_conn := (ms_conn ms)\<lparr>s_in := s_in (ms_conn ms) @ bytes\<rparr>\<rparr>" react] assms(2)
  by (cases "mgr_serve react (ms\<lparr>ms_conn := (ms_conn ms)\<lparr>s_in := s_in (ms_conn ms) @ bytes\<rparr>\<rparr>)")
    (simp add: manager_react_def)

lemma mgr_fed_inv:
  "length refs < 2 ^ 31 \<Longrightarrow> mgr_inv refs (ms_mgr ms) \<Longrightarrow> mgr_inv refs (ms_mgr (mgr_fed react chunks ms))"
proof (induction react chunks ms rule: mgr_fed.induct)
  case (2 react w bytes chunks ms)
  from 2(3) have "mgr_inv refs (ms_mgr (ms\<lparr>ms_mgr := (ms_mgr ms)\<lparr>m_world := w\<rparr>\<rparr>))" by (simp add: mgr_inv_def)
  from 2(1) [OF 2(2) manager_react_inv [OF 2(2) this]] show ?case by simp
qed simp

end
