(* ===== verification/Programs.thy ===== *)
theory Programs
  imports Input_Safety
begin

text \<open>
  The programs from \<open>main\<close> on: what a controller node and a manager start with, given their command
  line and their host, and what then holds whatever arrives on a connection.
\<close>

section \<open>The listening socket\<close>

definition can_listen :: "int \<Rightarrow> world \<Rightarrow> bool" where
  "can_listen port w \<longleftrightarrow> w_socket w (w_fds w) \<noteq> - 1 \<and> w_reuses w \<and> w_binds w (htons_port port)
     \<and> w_listens w (htons_port port)"

definition listening :: "int \<Rightarrow> world \<Rightarrow> server_socket" where
  "listening port w = \<lparr>ss_fd = w_socket w (w_fds w), ss_port = htons_port port\<rparr>"

lemma ServerSocket_new_run:
  "can_listen port w \<Longrightarrow> ServerSocket_new port w = (Inr (listening port w), w\<lparr>w_fds := Suc (w_fds w)\<rparr>)"
  by (simp add: can_listen_def listening_def ServerSocket_new_def bnd_def seq_def gets_def modify_def ret_def)

lemma ServerSocket_new_Inr:
  "ServerSocket_new port w = (Inr ss, w') \<Longrightarrow>
   can_listen port w \<and> ss = listening port w \<and> w' = w\<lparr>w_fds := Suc (w_fds w)\<rparr>"
  by (auto simp: can_listen_def listening_def ServerSocket_new_def bnd_def seq_def gets_def modify_def ret_def
      throw_def fail_def split: if_splits)

section \<open>The controller node\<close>

lemma controller_main_Inr:
  assumes "controller_main argv w = (Inr (Some (ss, c)), w')"
  shows "\<exists>port i0 p0 c0 w1. 5 \<le> length argv \<and> stoi (argv ! 1) = Inr port \<and> stoi (argv ! 3) = Inr i0
    \<and> stoi (argv ! 4) = Inr p0 \<and> can_listen port w \<and> ss = listening port w
    \<and> Controller_new (argv ! 2) i0 p0 (w\<lparr>w_fds := Suc (w_fds w)\<rparr>) = (Inr (), c0) \<and> c = c0\<lparr>c_world := w1\<rparr>"
proof -
  have "5 \<le> length argv"
    using assms by (auto simp: controller_main_def seq_Inr_iff ret_def split: if_splits)
  moreover from this assms obtain port i0 p0 c0 w1 where "stoi (argv ! 1) = Inr port" "stoi (argv ! 3) = Inr i0"
    "stoi (argv ! 4) = Inr p0" "ServerSocket_new port w = (Inr ss, w1)" "Controller_new (argv ! 2) i0 p0 w1 = (Inr (), c0)"
    "\<exists>w1. c = c0\<lparr>c_world := w1\<rparr>"
    by (auto simp: controller_main_def bnd_Inr_iff seq_Inr_iff ret_def gets_def of_res_def rbind_Inr split: prod.splits)
      (metis surj_pair)
  ultimately show ?thesis using ServerSocket_new_Inr [of port w ss w1] by auto
qed

lemma controller_main_run:
  assumes "5 \<le> length argv" "stoi (argv ! 1) = Inr port" "stoi (argv ! 3) = Inr i0" "stoi (argv ! 4) = Inr p0"
    and "can_listen port w" "Controller_new (argv ! 2) i0 p0 (w\<lparr>w_fds := Suc (w_fds w)\<rparr>) = (Inr (), c)"
    and "clock_ok (c_world c)"
  shows "\<exists>out. controller_main argv w = (Inr (Some (listening port w, c\<lparr>c_world := (c_world c)\<lparr>w_out := out\<rparr>\<rparr>)),
    (c_world c)\<lparr>w_out := out\<rparr>)"
proof -
  obtain out where "log_info ''VM Controller started!'' (c_world c) = (Inr (), (c_world c)\<lparr>w_out := out\<rparr>)"
    using log_output_short [OF assms(7), of "''VM Controller started!''" INFO INFO] by (auto simp: log_info_def)
  then show ?thesis
    using assms(1-6) by (intro exI [of _ out])
      (simp add: controller_main_def ServerSocket_new_run bnd_def of_res_def seq_def gets_def ret_def)
qed

lemma controller_main_reachable:
  assumes "controller_main argv w = (Inr (Some (ss, c)), w')"
  shows "reachable os (argv ! 2) c"
  using controller_main_Inr [OF assms] by (metis reachable_world started stoi_in_int)


text \<open>A node with one machine on its disk, and a request that arrives in pieces, never completely.\<close>

definition node_argv :: "string list" where
  "node_argv = [''controller'', ''2300'', ''/tmp/s1'', ''1000'', ''2200'']"

lemma numerals: "to_string 2000 = ''2000''" "to_string 2200 = ''2200''" "to_string 2300 = ''2300''"
  by (simp_all add: to_string_def nat_digits.simps digit_char_def char_of_def bit_0)

lemma stoi_numerals: "stoi ''2000'' = Inr 2000" "stoi ''2300'' = Inr 2300" "stoi ''1000'' = Inr 1000" "stoi ''2200'' = Inr 2200"
  using stoi_to_string [of 2000] stoi_to_string [of 2300] stoi_to_string [of 1000] stoi_to_string [of 2200]
  by (simp_all add: numerals to_string_1000 in_int_def int_min_def int_max_def)

lemma old_node_loads:
  "\<exists>c. Controller_new ''/tmp/s1'' 1000 2200 (old_world\<lparr>w_fds := n\<rparr>) = (Inr (), c) \<and> clock_ok (c_world c)
    \<and> map_find (instances c) 1000 \<noteq> None"
proof -
  let ?w = "old_world\<lparr>w_fds := n\<rparr>"
  let ?s = "\<lparr>workingDir = ''/tmp/s1'', nextId = 1000, nextPort = 2200, templates = the_templates, instances = [], c_world = ?w\<rparr>"
  have w: "w_entries ?w ''/tmp/s1'' = Some [''.'', ''..'', ''1000'']" "clock_ok ?w"
    by (simp_all add: old_world_def idle_world_def clock_ok_def write_cookies_def)
  have "stoi ''.'' = Inl (Throws Invalid_Argument)" "stoi ''..'' = Inl (Throws Invalid_Argument)"
    by (simp_all add: stoi_def strtol_def is_space_def is_digit_def char_code_def)
  moreover have "good_vm ?s 1000 old_vm"
    using old_stored old_vm_ok
    by (simp add: good_vm_def dir_1000 stored_def in_int_def int_min_def int_max_def)
      (simp add: old_world_def idle_world_def busy_def connects_def)
  moreover from this have "\<exists>k. ''1000'' = to_string k \<and> good_vm ?s k old_vm"
    using to_string_1000 by (intro exI [of _ 1000]) simp
  ultimately have "names_ok ?s (\<lambda>_. old_vm) [''.'', ''..'', ''1000'']"
    unfolding names_ok_def list.pred_inject by (intro conjI list.pred_inject(1)) blast+
  from Controller_new_loads [OF w this] to_string_1000 show ?thesis
    by (auto simp: reloaded_def clock_ok_def in_int_def int_min_def int_max_def) (simp_all add: old_world_def idle_world_def)
qed

lemma node_main_runs: "\<exists>ss c w. controller_main node_argv old_world = (Inr (Some (ss, c)), w) \<and> map_find (instances c) 1000 \<noteq> None"
proof -
  obtain c where c: "Controller_new ''/tmp/s1'' 1000 2200 (old_world\<lparr>w_fds := Suc (w_fds old_world)\<rparr>) = (Inr (), c)"
    "clock_ok (c_world c)" "map_find (instances c) 1000 \<noteq> None"
    using old_node_loads by blast
  have "can_listen 2300 old_world" by (simp add: can_listen_def old_world_def idle_world_def write_cookies_def)
  from controller_main_run [of node_argv, OF _ _ _ _ this] c stoi_numerals show ?thesis
    by (fastforce simp: node_argv_def)
qed

definition noise :: "(world \<times> string) list" where
  "noise = [(idle_world, ''instan''), (taken_world, ''tiate'' @ CRLF), (idle_world, ''; rm -rf /'')]"

lemma react_incomplete:
  assumes "sv_fault sv = None" "\<not> s_closed (sv_conn sv)" "first_message (s_in (sv_conn sv) @ bytes) = None"
  shows "snd (controller_react os bytes sv)
    = sv\<lparr>sv_conn := (sv_conn sv)\<lparr>s_in := s_in (sv_conn sv) @ bytes, s_out := []\<rparr>\<rparr>"
proof -
  let ?sv = "sv\<lparr>sv_conn := (sv_conn sv)\<lparr>s_in := s_in (sv_conn sv) @ bytes\<rparr>\<rparr>"
  have "serve os ?sv = (Blocks, ?sv)"
    using assms by (simp add: serve.simps [of os ?sv] Socket_read_first stuck_def)
  then show ?thesis using assms(1) by (simp add: controller_react_def)
qed

lemma fed_noise: "instances (sv_ctl (fed os noise (l_peer (link_to c)))) = instances c"
proof -
  have "first_message ''instan'' = None" "first_message (''instan'' @ ''tiate'' @ CRLF) = None"
    "first_message ((''instan'' @ ''tiate'' @ CRLF) @ ''; rm -rf /'') = None"
    by (simp_all add: first_message_def CRLF_def)
  then show ?thesis
    by (simp add: noise_def link_to_def new_socket_def react_incomplete)
qed


section \<open>The manager\<close>

definition entry_short :: "entry \<Rightarrow> bool" where
  "entry_short = (\<lambda>(name, address, port). length name + length address \<le> 800)"

lemma log_controllers:
  fixes s :: "'r manager"
  assumes "clock_ok (m_world s)" "list_all entry_short (map entry_of cs)" "list_all (\<lambda>c. in_int (cr_port c)) cs"
  shows "\<exists>out. for_each cs (\<lambda>c. mlog (log_info (cr_id c @ '': '' @ cr_address c @ '':'' @ to_string (cr_port c)))) s
    = (Inr (), s\<lparr>m_world := (m_world s)\<lparr>w_out := out\<rparr>\<rparr>)"
  using assms
proof (induction cs arbitrary: s)
  case Nil
  then show ?case by (intro exI [of _ "w_out (m_world s)"]) (simp add: ret_def)
next
  case (Cons c cs)
  let ?msg = "cr_id c @ '': '' @ cr_address c @ '':'' @ to_string (cr_port c)"
  have "length ?msg \<le> 900"
    using Cons.prems(2,3) length_to_string [of "cr_port c"] by (simp add: entry_of_def entry_short_def)
  then obtain out where "mlog (log_info ?msg) s = (Inr (), s\<lparr>m_world := (m_world s)\<lparr>w_out := out\<rparr>\<rparr>)"
    using log_output_short [OF Cons.prems(1), of ?msg INFO INFO] by (auto simp: mlog_def zoom_def log_info_def)
  moreover have "clock_ok (m_world (s\<lparr>m_world := (m_world s)\<lparr>w_out := out\<rparr>\<rparr>))" for out
    using Cons.prems(1) by (simp add: clock_ok_def)
  ultimately show ?case
    using Cons.IH [of "s\<lparr>m_world := (m_world s)\<lparr>w_out := out\<rparr>\<rparr>"] Cons.prems(2,3) by (auto simp: seq_Inr)
qed

lemma manager_main_run:
  fixes s :: "'r manager"
  assumes "3 \<le> length argv" "stoi (argv ! 1) = Inr port" "can_listen port (m_world s)" "clock_ok (m_world s)"
    and "\<And>n. w_socket (m_world s) n \<noteq> - 1" "w_file (m_world s) (argv ! 2) = Some content"
    and "tokens content = concat (map entry_words es)" "list_all entry_ok es" "list_all entry_short es" "controllers s = []"
  shows "\<exists>m. manager_main dial argv s = (Inr (Some (listening port (m_world s))), m)
    \<and> map entry_of (controllers m) = filter (\<lambda>(name, address, port). connects (m_world s) address port) es
    \<and> list_all (fresh_ref dial) (controllers m) \<and> nextController m = nextController s"
proof -
  let ?w1 = "(m_world s)\<lparr>w_fds := Suc (w_fds (m_world s))\<rparr>"
  have clock: "clock_ok ?w1" using assms(4) by (simp add: clock_ok_def)
  obtain out1 where log1: "log_info ''manager started'' ?w1 = (Inr (), ?w1\<lparr>w_out := out1\<rparr>)"
    using log_output_short [OF clock, of "''manager started''" INFO INFO] by (auto simp: log_info_def)
  let ?s1 = "s\<lparr>m_world := ?w1\<lparr>w_out := out1\<rparr>\<rparr>"
  obtain new n out2 where load: "load_controllers dial (concat (map entry_words es)) ?s1
      = (Inr (), ?s1\<lparr>controllers := new, m_world := (m_world ?s1)\<lparr>w_fds := n, w_out := out2\<rparr>\<rparr>)"
    and new: "map entry_of new = filter (\<lambda>(name, address, port). connects (m_world s) address port) es"
      "list_all (fresh_ref dial) new"
  proof -
    have "clock_ok (m_world ?s1)" "\<And>n. w_socket (m_world ?s1) n \<noteq> - 1" using assms(4,5) by (simp_all add: clock_ok_def)
    from load_entries [OF this assms(8), of dial] obtain new n out where
      "\<And>rest. load_controllers dial (concat (map entry_words es) @ rest) ?s1
        = load_controllers dial rest (?s1\<lparr>controllers := controllers ?s1 @ new, m_world := (m_world ?s1)\<lparr>w_fds := n, w_out := out\<rparr>\<rparr>)"
      "map entry_of new = filter (\<lambda>(name, address, port). connects (m_world ?s1) address port) es"
      "list_all (fresh_ref dial) new" by blast
    from this(1) [of "[]"] this(2,3) that show ?thesis using assms(10) by (simp add: ret_def connects_def)
  qed
  let ?s2 = "?s1\<lparr>controllers := new, m_world := (m_world ?s1)\<lparr>w_fds := n, w_out := out2\<rparr>\<rparr>"
  have clock2: "clock_ok (m_world ?s2)" using assms(4) by (simp add: clock_ok_def)
  obtain out3 where log3: "log_info ''supervised controllers:'' (m_world ?s2) = (Inr (), (m_world ?s2)\<lparr>w_out := out3\<rparr>)"
    using log_output_short [OF clock2, of "''supervised controllers:''" INFO INFO] by (auto simp: log_info_def)
  let ?s3 = "?s2\<lparr>m_world := (m_world ?s2)\<lparr>w_out := out3\<rparr>\<rparr>"
  have "\<forall>e \<in> set (map entry_of new). entry_ok e \<and> entry_short e"
    using new(1) assms(8,9) by (auto simp: list_all_iff)
  then have short: "list_all entry_short (map entry_of new)" "list_all (\<lambda>c. in_int (cr_port c)) new"
    by (auto simp: list_all_iff entry_of_def entry_ok_def)
  have "clock_ok (m_world ?s3)" using assms(4) by (simp add: clock_ok_def)
  from log_controllers [OF this short] obtain out4 where
    log4: "for_each new (\<lambda>c. mlog (log_info (cr_id c @ '': '' @ cr_address c @ '':'' @ to_string (cr_port c)))) ?s3
      = (Inr (), ?s3\<lparr>m_world := (m_world ?s3)\<lparr>w_out := out4\<rparr>\<rparr>)" by blast
  have text_at: "w_file (m_world ?s1) (argv ! 2) = Some content" using assms(6) by simp
  have "manager_main dial argv s = (Inr (Some (listening port (m_world s))), ?s3\<lparr>m_world := (m_world ?s3)\<lparr>w_out := out4\<rparr>\<rparr>)"
    using assms(1,2,7) ServerSocket_new_run [OF assms(3)] log1 load log3 log4 text_at
    by (simp add: manager_main_def bnd_def seq_def of_res_def gets_def ret_def mlog_def zoom_def
        del: append.simps append_assoc)
  then show ?thesis using new by simp
qed

lemma find_controller_names:
  assumes "map cr_id cs = map cr_id cs'"
  shows "find_controller name cs = find_controller name cs'"
proof -
  have n: "length cs = length cs'" using assms by (rule map_eq_imp_length_eq)
  have "cr_id (cs ! k) = cr_id (cs' ! k)" if "k < length cs'" for k
    using assms that n by (metis nth_map)
  then show ?thesis
    unfolding find_controller_def n by (intro find_cong) auto
qed

text \<open>
  C6. The manager from \<open>main\<close> on. Given a file of controllers it starts with exactly those it can
  connect to, in file order and each at the peer that answers there. From then on, whatever
  bytes a client sends, whatever the controllers answer and whatever happens on the host: the
  names, addresses and ports it supervises stay as they are, so a full id keeps naming the same
  controller, and the round robin never leaves the list.
\<close>

theorem manager_safe_from_main:
  fixes s :: "'r manager"
  assumes "3 \<le> length argv" and "stoi (argv ! 1) = Inr port" and "can_listen port (m_world s)"
    and "clock_ok (m_world s)" and "\<And>n. w_socket (m_world s) n \<noteq> - 1"
    and "w_file (m_world s) (argv ! 2) = Some content" and "tokens content = concat (map entry_words es)"
    and "list_all entry_ok es" and "list_all entry_short es" and "length es < 2 ^ 31"
    and "controllers s = []" and "nextController s = 0"
  shows "\<exists>m refs. manager_main dial argv s = (Inr (Some (listening port (m_world s))), m)
    \<and> refs = filter (\<lambda>(name, address, port). connects (m_world s) address port) es
    \<and> map entry_of (controllers m) = refs \<and> list_all (fresh_ref dial) (controllers m)
    \<and> (\<forall>react chunks ms ms'. ms_mgr ms = m \<longrightarrow> ms' = mgr_fed react chunks ms \<longrightarrow>
         map entry_of (ctrls ms') = refs
         \<and> (\<forall>name. find_controller name (ctrls ms') = find_controller name (controllers m))
         \<and> 0 \<le> nextController (ms_mgr ms') \<and> (refs \<noteq> [] \<longrightarrow> nextController (ms_mgr ms') < int (length refs)))"
proof -
  let ?refs = "filter (\<lambda>(name, address, port). connects (m_world s) address port) es"
  obtain m where m: "manager_main dial argv s = (Inr (Some (listening port (m_world s))), m)"
    "map entry_of (controllers m) = ?refs" "list_all (fresh_ref dial) (controllers m)" "nextController m = 0"
    using manager_main_run [OF assms(1-9,11), of dial] assms(12) by auto
  have n: "length ?refs < 2 ^ 31" using assms(10) length_filter_le order_le_less_trans by blast
  have inv: "mgr_inv ?refs m" using m(2,4) by (simp add: mgr_inv_def)
  have names: "map cr_id cs = map fst (map entry_of cs)" for cs :: "'r ctrlRef list" by (simp add: entry_of_def)
  have "map entry_of (ctrls ms') = ?refs
      \<and> (\<forall>name. find_controller name (ctrls ms') = find_controller name (controllers m))
      \<and> 0 \<le> nextController (ms_mgr ms') \<and> (?refs \<noteq> [] \<longrightarrow> nextController (ms_mgr ms') < int (length ?refs))"
    if "ms_mgr ms = m" "ms' = mgr_fed react chunks ms" for react chunks and ms ms' :: "'r mserver"
  proof -
    have inv': "mgr_inv ?refs (ms_mgr ms')" using mgr_fed_inv [OF n, of ms react chunks] inv that by simp
    then have "map cr_id (ctrls ms') = map cr_id (controllers m)" using m(2) by (simp only: names mgr_inv_def)
    from find_controller_names [OF this] inv' show ?thesis by (auto simp: mgr_inv_def)
  qed
  with m(1-3) show ?thesis by blast
qed

definition manager_argv :: "string list" where
  "manager_argv = [''manager'', ''2000'', ''controllers.list'']"

definition controllers_file :: string where
  "controllers_file = ''srv1 127.0.0.1:2200'' @ [LF] @ ''srv2 127.0.0.1:2300'' @ [LF]"

definition before_main :: "unit manager" where
  "before_main = \<lparr>controllers = [], nextController = 0, m_world = taken_world\<lparr>w_file := (\<lambda>_. Some controllers_file)\<rparr>\<rparr>"

theorem manager_safe_from_main_witness:
  "\<exists>m refs. manager_main (\<lambda>_ _. ()) manager_argv before_main = (Inr (Some (listening 2000 (m_world before_main))), m)
    \<and> refs = filter (\<lambda>(name, address, port). connects (m_world before_main) address port)
        [(''srv1'', ''127.0.0.1'', 2200), (''srv2'', ''127.0.0.1'', 2300)]
    \<and> map entry_of (controllers m) = refs \<and> list_all (fresh_ref (\<lambda>_ _. ())) (controllers m)
    \<and> (\<forall>react chunks ms ms'. ms_mgr ms = m \<longrightarrow> ms' = mgr_fed react chunks ms \<longrightarrow>
         map entry_of (ctrls ms') = refs
         \<and> (\<forall>name. find_controller name (ctrls ms') = find_controller name (controllers m))
         \<and> 0 \<le> nextController (ms_mgr ms') \<and> (refs \<noteq> [] \<longrightarrow> nextController (ms_mgr ms') < int (length refs)))"
proof (rule manager_safe_from_main [where content = controllers_file])
  show "stoi (manager_argv ! 1) = Inr 2000" by (simp add: manager_argv_def stoi_numerals)
  show "tokens controllers_file = concat (map entry_words [(''srv1'', ''127.0.0.1'', 2200), (''srv2'', ''127.0.0.1'', 2300)])"
    unfolding controllers_file_def tokens_def
    by (simp add: entry_words_def numerals is_space_def char_code_def)
  show "list_all entry_ok [(''srv1'', ''127.0.0.1'', 2200), (''srv2'', ''127.0.0.1'', 2300)]"
    by (simp add: entry_ok_def numerals str_fits_def in_int_def int_min_def int_max_def)
  show "can_listen 2000 (m_world before_main)" "clock_ok (m_world before_main)" "\<And>n. w_socket (m_world before_main) n \<noteq> - 1"
    by (simp_all add: before_main_def can_listen_def taken_world_def idle_world_def clock_ok_def)
qed (simp_all add: manager_argv_def before_main_def entry_short_def)

end
