(* ===== verification/Disconnect.thy ===== *)
theory Disconnect
  imports Manager_Props
begin

text \<open>
  What happens when the other end of a connection goes away. The handlers of a node
  (\<open>src/src/controller.cpp\<close>) and of the manager (\<open>src/src/manager.cpp\<close>) read in \<open>for (;;)\<close> and have no
  other way out than a failure; \<open>SocketStreambuf::peek\<close> does not look at what \<open>::read\<close> returned. The
  locale \<open>handler_loop\<close> states what the two loops have in common, and both are instances of it.
\<close>

section \<open>Calls that do not look at a part of the state\<close>

text \<open>\<open>blind u m\<close>: \<open>m\<close> neither reads nor undoes the change \<open>u\<close>.\<close>

definition blind :: "('s \<Rightarrow> 's) \<Rightarrow> ('s, 'a) M \<Rightarrow> bool" where
  "blind u m \<longleftrightarrow> (\<forall>s. m (u s) = apsnd u (m s))"

named_theorems blind_rules

lemma blindI: "(\<And>s. m (u s) = apsnd u (m s)) \<Longrightarrow> blind u m"
  by (simp add: blind_def)

lemma blindD: "blind u m \<Longrightarrow> m (u s) = apsnd u (m s)"
  by (simp add: blind_def)

lemma blind_ret [blind_rules]: "blind u (ret a)"
  by (rule blindI) (simp add: m_simps)

lemma blind_fail [blind_rules]: "blind u (fail f)"
  by (rule blindI) (simp add: m_simps)

lemma blind_of_res [blind_rules]: "blind u (of_res r)"
  by (rule blindI) (simp add: m_simps)

lemma blind_modify [blind_rules]: "(\<And>s. f (u s) = u (f s)) \<Longrightarrow> blind u (modify f)"
  by (rule blindI) (simp add: m_simps)

lemma blind_bnd [blind_rules]:
  assumes "blind u m" "\<And>a. blind u (f a)"
  shows "blind u (bnd m f)"
proof (rule blindI)
  fix s
  obtain r s' where m: "m s = (r, s')" by (cases "m s")
  with blindD [OF assms(1), of s] show "bnd m f (u s) = apsnd u (bnd m f s)"
    by (cases r) (simp_all add: bnd_def blindD [OF assms(2)])
qed

lemma blind_gets [blind_rules]: "(\<And>s. f (u s) = f s) \<Longrightarrow> blind u (gets f)"
  by (rule blindI) (simp add: m_simps)

lemma blind_seq [blind_rules]: "blind u m \<Longrightarrow> blind u m' \<Longrightarrow> blind u (seq m m')"
  unfolding seq_def by (rule blind_bnd)

lemma blind_if [blind_rules]: "(b \<Longrightarrow> blind u m) \<Longrightarrow> (\<not> b \<Longrightarrow> blind u m') \<Longrightarrow> blind u (if b then m else m')"
  by simp

lemma blind_option [blind_rules]:
  "(x = None \<Longrightarrow> blind u m) \<Longrightarrow> (\<And>a. x = Some a \<Longrightarrow> blind u (f a)) \<Longrightarrow>
   blind u (case x of None \<Rightarrow> m | Some a \<Rightarrow> f a)"
  by (cases x) simp_all

lemma blind_try [blind_rules]:
  assumes "blind u m" "\<And>e. blind u (h e)"
  shows "blind u (try_catch p m h)"
proof (rule blindI)
  fix s
  obtain r s' where m: "m s = (r, s')" by (cases "m s")
  with blindD [OF assms(1), of s] show "try_catch p m h (u s) = apsnd u (try_catch p m h s)"
    by (auto simp: try_catch_def blindD [OF assms(2)] split: sum.split fault.split)
qed

lemma blind_zoom [blind_rules]:
  "(\<And>t. sel (u t) = sel t) \<Longrightarrow> (\<And>s t. upd s (u t) = u (upd s t)) \<Longrightarrow> blind u (zoom sel upd m)"
  by (rule blindI) (simp add: zoom_def split: prod.split)

lemma blind_for_each [blind_rules]: "(\<And>x. blind u (body x)) \<Longrightarrow> blind u (for_each xs body)"
  by (induction xs) (simp_all add: blind_ret blind_seq)

section \<open>The end of a connection\<close>

text \<open>
  The peer ends the connection, as a client does that exits: the bytes that are under way still
  arrive, and none after them. What is written to it afterwards is lost. (The system may answer
  such a write with \<open>SIGPIPE\<close>, which nothing in the repository handles and which would end the
  program; that is not modelled.)
\<close>

definition hang_up :: "socket \<Rightarrow> socket" where
  "hang_up s = s\<lparr>s_closed := True\<rparr>"

lemma hang_up_simps [simp]:
  "s_in (hang_up s) = s_in s" "s_out (hang_up s) = s_out s" "s_closed (hang_up s)"
  "writeCount (hang_up s) = writeCount s" "hang_up (s\<lparr>s_in := bs\<rparr>) = (hang_up s)\<lparr>s_in := bs\<rparr>"
  by (simp_all add: hang_up_def)

lemma hang_up_write [simp]: "hang_up (write_line d s) = write_line d (hang_up s)"
  by (simp add: hang_up_def write_line_def)

lemma hang_up_writes [simp]:
  "hang_up (write_lines ds s) = write_lines ds (hang_up s)" "hang_up (Socket_send s) = Socket_send (hang_up s)"
proof -
  have fold: "hang_up (fold write_line ds s) = fold write_line ds (hang_up s)" for s
    by (induction ds arbitrary: s) simp_all
  have count: "hang_up (s\<lparr>writeCount := k\<rparr>) = (hang_up s)\<lparr>writeCount := k\<rparr>" for k
    by (simp add: hang_up_def)
  show "hang_up (write_lines ds s) = write_lines ds (hang_up s)"
    by (simp only: write_lines_def fold count hang_up_simps)
  show "hang_up (Socket_send s) = Socket_send (hang_up s)"
    by (simp add: Socket_send_def)
qed

lemma Socket_read_hang_up:
  "Socket_read (hang_up s) =
    (case Socket_read s of (r, s') \<Rightarrow> (case r of Inl f \<Rightarrow> Inl (stuck True (s_in s)) | Inr ds \<Rightarrow> Inr ds, hang_up s'))"
  by (simp add: Socket_read_decodes split: option.split)

lemma Socket_read_open:
  "\<not> s_closed s \<Longrightarrow> Socket_read s = (r, s') \<Longrightarrow>
   \<not> s_closed s' \<and> (\<forall>f. r = Inl f \<longrightarrow> f = Blocks \<and> s' = s\<lparr>s_in := []\<rparr>)"
  by (auto simp: Socket_read_decodes stuck_def split: option.splits)

section \<open>The loop of a handler\<close>

text \<open>
  \<open>conn\<close> is the handler's connection and \<open>ended\<close> why it will not read another message; \<open>handle\<close>
  answers one message, without touching either beyond what it writes.
\<close>

locale handler_loop =
  fixes conn :: "'s \<Rightarrow> socket" and set_conn :: "socket \<Rightarrow> 's \<Rightarrow> 's"
    and ended :: "'s \<Rightarrow> fault option" and set_ended :: "fault \<Rightarrow> 's \<Rightarrow> 's"
    and handle :: "string list \<Rightarrow> ('s, unit) M" and loop :: "'s \<Rightarrow> fault \<times> 's"
  assumes parts: "conn (set_conn c s) = c" "set_conn c' (set_conn c s) = set_conn c' s"
      "ended (set_conn c s) = ended s" "ended (set_ended f s) = Some f" "conn (set_ended f s) = conn s"
      "set_conn c (set_ended f s) = set_ended f (set_conn c s)"
    and loop_step: "loop s =
      (case Socket_read (conn s) of (r, c) \<Rightarrow>
         (case r of
            Inl f \<Rightarrow> (f, if f = Blocks then s else set_ended f (set_conn c s))
          | Inr ds \<Rightarrow>
              (case handle ds (set_conn c s) of (r', s') \<Rightarrow>
                 (case r' of Inl f \<Rightarrow> (f, set_ended f s') | Inr _ \<Rightarrow> loop s'))))"
    and handle_blind: "blind (\<lambda>s. set_conn (hang_up (conn s)) s) (handle ds)"
    and handle_keeps: "keeps (\<lambda>s. s_in (conn s) = bs \<and> s_closed (conn s) = b \<and> ended s = e) (handle ds)"
begin

definition leave :: "'s \<Rightarrow> 's" where
  "leave s = set_conn (hang_up (conn s)) s"

lemma leave_parts: "conn (leave s) = hang_up (conn s)" "set_conn c (leave s) = set_conn c s"
  "leave (set_conn c s) = set_conn (hang_up c) s" "leave (set_ended f s) = set_ended f (leave s)"
  by (simp_all add: leave_def parts)

text \<open>
  Every complete request is carried out as if the peer were still there; where the handler would
  wait for the next one, it spins on a final CR or uses an uninitialised character.
\<close>

lemma loop_leave:
  assumes "\<not> s_closed (conn s)" "ended s = None"
  shows "loop (leave s) =
    (case loop s of (f, s') \<Rightarrow>
       (if ended s' = None
        then (stuck True (s_in (conn s')),
              set_ended (stuck True (s_in (conn s'))) (set_conn ((hang_up (conn s'))\<lparr>s_in := []\<rparr>) s'))
        else (f, leave s')))"
  using assms
proof (induction "length (s_in (conn s))" arbitrary: s rule: less_induct)
  case less
  obtain r c where rd: "Socket_read (conn s) = (r, c)" by (cases "Socket_read (conn s)")
  note open_c = Socket_read_open [OF less(2) rd]
  show ?case
  proof (cases r)
    case (Inl f)
    with open_c have "f = Blocks" "c = (conn s)\<lparr>s_in := []\<rparr>" by auto
    moreover have "stuck True (s_in (conn s)) \<noteq> Blocks" by (simp add: stuck_def)
    ultimately show ?thesis
      using rd Inl less(3)
      by (simp add: loop_step [of s] loop_step [of "leave s"] leave_parts Socket_read_hang_up)
  next
    case (Inr ds)
    obtain r' s' where h: "handle ds (set_conn c s) = (r', s')" by (cases "handle ds (set_conn c s)")
    have "handle ds (leave (set_conn c s)) = (r', leave s')"
      using blindD [OF handle_blind, of ds "set_conn c s"] h by (simp add: leave_def)
    then have h': "handle ds (set_conn (hang_up c) s) = (r', leave s')"
      by (simp add: leave_parts)
    have s': "s_in (conn s') = s_in c \<and> s_closed (conn s') = s_closed c \<and> ended s' = ended s"
      using yieldsD [OF handle_keeps h] by (simp add: parts)
    show ?thesis
    proof (cases r')
      case (Inl f)
      with rd Inr h h' show ?thesis
        by (simp add: loop_step [of s] loop_step [of "leave s"] leave_parts Socket_read_hang_up parts)
    next
      case (Inr u)
      have "length (s_in (conn s')) < length (s_in (conn s))"
        using Socket_read_shorter rd \<open>r = Inr ds\<close> s' by metis
      from less(1) [OF this] rd \<open>r = Inr ds\<close> h h' Inr s' open_c less(3) show ?thesis
        by (simp add: loop_step [of s] loop_step [of "leave s"] leave_parts Socket_read_hang_up)
    qed
  qed
qed

end

text \<open>Requests of both programs write to the connection and look at nothing else of it.\<close>

lemma keeps_request_conn:
  "keeps (\<lambda>sv. s_in (sv_conn sv) = bs \<and> s_closed (sv_conn sv) = b \<and> sv_fault sv = e) (request os commands)"
  unfolding request_def dispatch_def cmd_getTemplates_def cmd_getInstances_def cmd_instantiate_def cmd_run_def
    cmd_kill_def sv_write_def sv_write_lines_def sv_send_def
  by (intro triples keeps_bnd yields_gets) auto

lemma blind_sv_do [blind_rules]:
  "(\<And>sv. sv_ctl (u sv) = sv_ctl sv) \<Longrightarrow> (\<And>c sv. (u sv)\<lparr>sv_ctl := c\<rparr> = u (sv\<lparr>sv_ctl := c\<rparr>)) \<Longrightarrow> blind u (sv_do m)"
  unfolding sv_do_def by (rule blind_zoom)

lemma blind_request: "blind (\<lambda>sv. sv\<lparr>sv_conn := hang_up (sv_conn sv)\<rparr>) (request os commands)"
  unfolding request_def dispatch_def cmd_getTemplates_def cmd_getInstances_def cmd_instantiate_def cmd_run_def
    cmd_kill_def sv_write_def sv_write_lines_def sv_send_def
  by (intro blind_rules) simp_all

interpretation node_loop: handler_loop sv_conn "\<lambda>c sv. sv\<lparr>sv_conn := c\<rparr>" sv_fault
  "\<lambda>f sv. sv\<lparr>sv_fault := Some f\<rparr>" "request os" "serve os"
  by unfold_locales (simp_all add: serve.simps [of os] blind_request keeps_request_conn)

lemma keeps_try_controllers_conn:
  "keeps (\<lambda>ms. s_in (ms_conn ms) = bs \<and> s_closed (ms_conn ms) = b \<and> ms_fault ms = e) (try_controllers react req tries)"
proof (induction react req tries rule: try_controllers.induct)
  case (1 react req tries)
  show ?case
    unfolding try_controllers.simps [of react req tries] mg_write_lines_def
    by (intro triples keeps_bnd yields_gets 1) auto
qed

lemma keeps_mgr_request_conn:
  "keeps (\<lambda>ms. s_in (ms_conn ms) = bs \<and> s_closed (ms_conn ms) = b \<and> ms_fault ms = e) (mgr_request react commands)"
  unfolding mgr_request_def mgr_dispatch_def mgr_getTemplates_def mgr_getInstances_def
    mgr_instantiate_def mgr_route_def mg_write_def mg_write_lines_def mg_send_def
  by (intro triples keeps_bnd yields_gets keeps_try_controllers_conn) auto

lemma blind_mg_do [blind_rules]:
  "(\<And>ms. ms_mgr (u ms) = ms_mgr ms) \<Longrightarrow> (\<And>c ms. (u ms)\<lparr>ms_mgr := c\<rparr> = u (ms\<lparr>ms_mgr := c\<rparr>)) \<Longrightarrow> blind u (mg_do m)"
  unfolding mg_do_def by (rule blind_zoom)

lemma blind_try_controllers:
  "blind (\<lambda>ms. ms\<lparr>ms_conn := hang_up (ms_conn ms)\<rparr>) (try_controllers react req tries)"
proof (induction react req tries rule: try_controllers.induct)
  case (1 react req tries)
  show ?case
    unfolding try_controllers.simps [of react req tries] mg_write_lines_def
    by (intro blind_rules 1) auto
qed

lemma blind_mgr_request:
  "blind (\<lambda>ms. ms\<lparr>ms_conn := hang_up (ms_conn ms)\<rparr>) (mgr_request react commands)"
  unfolding mgr_request_def mgr_dispatch_def mgr_getTemplates_def mgr_getInstances_def
    mgr_instantiate_def mgr_route_def mg_write_def mg_write_lines_def mg_send_def
  by (intro blind_rules blind_try_controllers) simp_all

interpretation manager_loop: handler_loop ms_conn "\<lambda>c ms. ms\<lparr>ms_conn := c\<rparr>" ms_fault
  "\<lambda>f ms. ms\<lparr>ms_fault := Some f\<rparr>" "mgr_request react" "mgr_serve react"
  by unfold_locales (simp_all add: mgr_serve.simps [of react] blind_mgr_request keeps_mgr_request_conn)

section \<open>The other end of a call\<close>

text \<open>A connection to a node whose program has ended.\<close>

definition dead_link :: "server link \<Rightarrow> bool" where
  "dead_link l \<longleftrightarrow> s_in (l_socket l) = [] \<and> (\<exists>e. sv_fault (l_peer l) = Some (Throws e))"

lemma dead_read: "dead_link l \<Longrightarrow> \<exists>l'. link_read (controller_react os) l = (Inl Undefined, l')"
  by (auto simp: dead_link_def link_read_def exchange_def controller_react_def seq_def bnd_def modify_def zoom_def
      Socket_read_decodes stuck_def)

lemma dead_cong [simp]: "dead_link (l\<lparr>l_socket := write_line d (l_socket l)\<rparr>) = dead_link l"
  "dead_link (l\<lparr>l_socket := write_lines ds (l_socket l)\<rparr>) = dead_link l"
  "dead_link (l\<lparr>l_socket := Socket_send (l_socket l)\<rparr>) = dead_link l"
  by (simp_all add: dead_link_def)

lemma dead_call: "dead_link l \<Longrightarrow> \<exists>l'. bnd (link_read (controller_react os)) k l = (Inl Undefined, l')"
  using dead_read [of l os] by (auto simp: bnd_def)

lemma dead_seq:
  assumes "dead_link l" "\<And>l. dead_link l \<Longrightarrow> \<exists>l'. m l = (Inl Undefined, l')"
  shows "\<exists>l'. seq (link_write d) m l = (Inl Undefined, l')" "\<exists>l'. seq (link_write_lines ds) m l = (Inl Undefined, l')"
    "\<exists>l'. seq link_send m l = (Inl Undefined, l')"
  using assms by (simp_all add: seq_def bnd_def link_write_def link_write_lines_def link_send_def modify_def)

lemma dead_proxy:
  assumes "dead_link l"
  shows "\<exists>l'. proxy_getTemplates (controller_react os) l = (Inl Undefined, l')"
    "\<exists>l'. proxy_run (controller_react os) d l = (Inl Undefined, l')"
    "\<exists>l'. proxy_kill (controller_react os) d l = (Inl Undefined, l')"
  unfolding proxy_getTemplates_def proxy_run_def proxy_kill_def by (intro dead_seq dead_call assms; assumption)+

text \<open>A manager's request that calls an ended node, and nothing but the node's proxy is touched.\<close>

definition lost_at :: "nat \<Rightarrow> server mserver \<Rightarrow> unit res \<times> server mserver \<Rightarrow> bool" where
  "lost_at k ms = (\<lambda>(r, ms'). r = Inl Undefined \<and> ms_conn ms' = ms_conn ms \<and> (\<forall>j. j \<noteq> k \<longrightarrow> proxy ms' j = proxy ms j))"

lemma lost_atI [intro]: "lost_at k ms (Inl Undefined, set_link k l ms)" "lost_at k ms (Inl Undefined, set_link k l (set_next n ms))"
  by (simp_all add: lost_at_def set_link_def set_next_def nth_list_update)

lemma dead_turn:
  assumes "dead_link (proxy ms k)" "k < length (ctrls ms)" "length (ctrls ms) < 2 ^ 31"
    and "advanceModulo (length (ctrls ms)) (nextController (ms_mgr ms)) = Inr (int k)" "InstanceInfo_deserialize args = Inr req"
  shows "lost_at k ms (mgr_instantiate (controller_react os) args ms)"
proof -
  have n: "sint (of_nat (length (ctrls ms)) :: 32 word) = int (length (ctrls ms))" "0 < length (ctrls ms)"
    using size_of_int [OF assms(3)] assms(2) by auto
  obtain l' where "proxy_getTemplates (controller_react os) (proxy (set_next (int k) ms) k) = (Inl Undefined, l')"
    using dead_proxy(1) [OF assms(1), of os] by auto
  then have "try_controllers (controller_react os) req (int (length (ctrls ms))) ms
      = (Inl Undefined, set_link k l' (set_next (int k) ms))"
    using assms(2,4) n(2)
    by (simp add: try_controllers.simps [of "controller_react os" req "int _"] gets_def bnd_def of_res_def seq_def
        vec_at_def mg_run on_ctrl_run)
  then have "mgr_instantiate (controller_react os) args ms = (Inl Undefined, set_link k l' (set_next (int k) ms))"
    using assms(5) n(1) by (simp add: mgr_instantiate_def bnd_def of_res_def gets_def)
  then show ?thesis by (simp add: lost_atI)
qed

lemma dead_route:
  assumes "k < length (ctrls ms)" "extractIdParts d = Inr (cr_id (ctrls ms ! k), i)"
    and "\<And>j. j < k \<Longrightarrow> cr_id (ctrls ms ! j) \<noteq> cr_id (ctrls ms ! k)" "\<exists>l'. call i (proxy ms k) = (Inl Undefined, l')"
  shows "lost_at k ms (mgr_route call [cmd, d] ms)"
proof -
  have found: "find_controller (cr_id (ctrls ms ! k)) (ctrls ms) = Some k"
    using assms(1,3) by (auto simp: find_controller_def find_Some_iff)
  obtain l' where "call i (proxy ms k) = (Inl Undefined, l')" using assms(4) by blast
  then have "mgr_route call [cmd, d] ms = (Inl Undefined, set_link k l' ms)"
    using assms(2) found by (simp add: mgr_route_def vec_at_def bnd_def of_res_def gets_def on_ctrl_run)
  then show ?thesis by (simp add: lost_atI)
qed

section \<open>Properties\<close>

text \<open>A client of a node sends a command the node does not know and leaves in the middle of the next.\<close>

definition half_said :: server where
  "half_said = \<lparr>sv_ctl = node, sv_conn = (new_socket 4)\<lparr>s_in := frame [''hello''] @ ''run''\<rparr>, sv_fault = None\<rparr>"

lemma serve_half_said:
  "\<exists>c s. serve os half_said = (Blocks, half_said\<lparr>sv_ctl := c, sv_conn := s\<rparr>) \<and> s_in s = ''run''
    \<and> s_out s = ''unknown command'' @ CRLF @ CRLF"
proof -
  let ?sv = "half_said\<lparr>sv_conn := (new_socket 4)\<lparr>s_in := ''run''\<rparr>\<rparr>"
  have "frame_ok [''hello'']" by (simp add: frame_ok_def sendable_def plain_line_def)
  then have rd: "Socket_read (sv_conn half_said) = (Inr [''hello''], (new_socket 4)\<lparr>s_in := ''run''\<rparr>)"
    by (subst Socket_read_frame) (simp_all add: half_said_def)
  obtain c where "processing ''hello'' (sv_ctl ?sv) = (Inr (), c)"
    using processing_run [of node "''hello''"] by (auto simp: half_said_def clock_ok_def node_def taken_world_def idle_world_def)
  moreover have "dispatch os ''hello'' [''hello''] (?sv\<lparr>sv_ctl := c\<rparr>)
      = (Inr (), ?sv\<lparr>sv_ctl := c, sv_conn := write_line ''unknown command'' (sv_conn ?sv)\<rparr>)"
    by (simp add: dispatch_def sv_run)
  ultimately have req: "request os [''hello''] ?sv
      = (Inr (), ?sv\<lparr>sv_ctl := c, sv_conn := Socket_send (write_line ''unknown command'' (sv_conn ?sv))\<rparr>)"
    using request_run [of "''hello''" ?sv c os "[]"] by simp
  let ?done_sv = "?sv\<lparr>sv_ctl := c, sv_conn := Socket_send (write_line ''unknown command'' (sv_conn ?sv))\<rparr>"
  have "serve os half_said = serve os ?done_sv"
    using rd req by (simp add: serve.simps [of os half_said])
  also have "\<dots> = (Blocks, ?done_sv)"
    unfolding serve.simps [of os ?done_sv]
    by (simp add: Socket_read_first first_message_def stuck_def half_said_def new_socket_def)
  finally show ?thesis
    by (intro exI [of _ c] exI [of _ "sv_conn ?done_sv"]) (simp add: half_said_def new_socket_def Socket_send_def write_line_def)
qed





text \<open>
  C25. A node that has ended takes the manager with it. When it is the node's turn, an \<open>instantiate\<close>
  request goes wrong in the manager's first call to it, and so does every \<open>run\<close> or \<open>kill\<close> with an id
  of the node: the reply is taken from uninitialised memory. There is no error that the manager
  could answer with; nothing is written to the client and no other controller is tried.
\<close>

theorem dead_node_ends_manager:
  fixes ms :: "server mserver"
  assumes ended: "sv_fault (l_peer (proxy ms k)) = Some (Throws e)" "s_in (l_socket (proxy ms k)) = []"
    and k: "k < length (ctrls ms)" "length (ctrls ms) < 2 ^ 31"
    and turn: "k = nat ((nextController (ms_mgr ms) + 1) mod int (length (ctrls ms)))"
      "0 \<le> nextController (ms_mgr ms)" "nextController (ms_mgr ms) < int (length (ctrls ms))"
    and req: "InstanceInfo_deserialize args = Inr req"
    and named: "extractIdParts d = Inr (cr_id (ctrls ms ! k), i)" "\<forall>j < k. cr_id (ctrls ms ! j) \<noteq> cr_id (ctrls ms ! k)"
    and m: "m \<in> {mgr_instantiate (controller_react os) args, mgr_route (proxy_run (controller_react os)) [cmd, d],
                mgr_route (proxy_kill (controller_react os)) [cmd, d]}"
  shows "\<exists>ms'. m ms = (Inl Undefined, ms') \<and> ms_conn ms' = ms_conn ms \<and> (\<forall>j. j \<noteq> k \<longrightarrow> proxy ms' j = proxy ms j)"
proof -
  have dead: "dead_link (proxy ms k)" using ended by (simp add: dead_link_def)
  have "0 < int (length (ctrls ms))" using k(1) by linarith
  then have "advanceModulo (length (ctrls ms)) (nextController (ms_mgr ms)) = Inr (int k)"
    using advance_mod [OF turn(2,3) k(2)] turn(1) by simp
  from dead_turn [OF dead k this req] dead_route [OF k(1) named(1)] named(2) dead_proxy(2,3) [OF dead] m
  have "lost_at k ms (m ms)" by auto
  then show ?thesis by (auto simp: lost_at_def)
qed

text \<open>The second of two nodes has received an empty message from somebody.\<close>

definition ended_link :: "server link" where
  "ended_link = (link_to node)\<lparr>l_peer := snd (controller_react plain_os (frame []) (l_peer (link_to node)))\<rparr>"

lemma ended_link_fault: "sv_fault (l_peer ended_link) = Some (Throws Out_Of_Range)" "s_in (l_socket ended_link) = []"
proof -
  let ?sv = "l_peer (link_to node)"
  have "request plain_os [] ?sv = (Inl (Throws Out_Of_Range), ?sv)"
    by (simp add: request_def vec_at_checked_def)
  then have "controller_react plain_os (frame []) ?sv = (([], True), ?sv\<lparr>sv_fault := Some (Throws Out_Of_Range)\<rparr>)"
    by (intro react_throws [where n = 0]) (simp_all add: sv_ready_def quiet_def count_room_def link_to_def new_socket_def frame_ok_def)
  then show "sv_fault (l_peer ended_link) = Some (Throws Out_Of_Range)" by (simp add: ended_link_def)
  show "s_in (l_socket ended_link) = []" by (simp add: ended_link_def link_to_def new_socket_def)
qed

theorem dead_node_ends_manager_witness:
  "\<exists>ms'. mgr_instantiate (controller_react plain_os) (new_request ''cirros'' 64 2) (set_link 1 ended_link two_nodes) = (Inl Undefined, ms')
    \<and> ms_conn ms' = ms_conn two_nodes \<and> proxy ms' 0 = link_to node"
proof -
  let ?ms = "set_link 1 ended_link two_nodes"
  have req: "InstanceInfo_deserialize (new_request ''cirros'' 64 2) = Inr
      \<lparr>ii_id = ''0'', ii_templ = ''cirros'', ii_memory = 64, ii_cpus = 2, ii_sshPort = 0, ii_running = False\<rparr>"
    unfolding new_request_def by (rule InstanceInfo_roundtrip_ok) (simp add: info_ok_def in_int_def int_min_def int_max_def)
  have link: "proxy ?ms 1 = ended_link" by simp
  have ids: "cr_id (ctrls ?ms ! 0) = ''srv1''" "cr_id (ctrls ?ms ! 1) = ''srv2''" by (simp_all add: two_nodes_def set_link_def)
  have named: "extractIdParts (makeFullId ''srv2'' ''7'') = Inr (cr_id (ctrls ?ms ! 1), ''7'')"
    unfolding ids by (rule extract_full_id) (simp_all add: makeFullId_def str_fits_def)
  have "\<exists>ms'. mgr_instantiate (controller_react plain_os) (new_request ''cirros'' 64 2) ?ms = (Inl Undefined, ms')
      \<and> ms_conn ms' = ms_conn ?ms \<and> (\<forall>j. j \<noteq> 1 \<longrightarrow> proxy ms' j = proxy ?ms j)"
    by (rule dead_node_ends_manager [where k = 1 and os = plain_os, OF _ _ _ _ _ _ _ req named])
      (use ended_link_fault ids in \<open>simp_all add: link\<close>)
  then show ?thesis by auto
qed

end
