(* ===== verification/Thread_Object.thy ===== *)
theory Thread_Object
  imports Prelude
begin

text \<open>
  \<open>src/src/Thread/Thread.hpp\<close>: a thread object from \<open>new\<close> to \<open>delete\<close>. What pthreads does is part of the
  model as far as the class relies on it: a created thread enters \<open>threadStarter\<close>; a cancellation
  request takes effect at once or at the next cancellation point, according to the thread's type;
  a cleanup handler that was pushed runs when the thread is cancelled or pops it.
\<close>

section \<open>State\<close>

datatype detachState = Detached | Joinable

datatype cancelType = Async | Deferred

text \<open>
  \<open>Running steps\<close>: inside \<open>run()\<close>, with the steps that are left of it (true: a cancellation point),
  under the pushed cleanup handler. \<open>Over\<close>: the thread has ended and the object still exists.
\<close>

datatype life = Constructed | Running "bool list" | Over | Deleted

record threadObj =
  life :: life
  threadID :: nat \<comment> \<open>0 until a thread was created\<close>
  cancelled :: bool \<comment> \<open>a cancellation request is pending\<close>
  joined :: bool
  deletions :: nat

definition Thread_new :: threadObj where
  "Thread_new = \<lparr>life = Constructed, threadID = 0, cancelled = False, joined = False, deletions = 0\<rparr>"

section \<open>Operations\<close>

definition getTID :: "threadObj \<Rightarrow> nat" where
  "getTID t = threadID t"

text \<open>
  \<open>pthread_create\<close> gives the new thread's id, or fails (\<open>None\<close>), which nobody looks at. Calling a
  member of a deleted object is undefined. An object is started once.
\<close>

definition start :: "nat option \<Rightarrow> bool list \<Rightarrow> (threadObj, unit) M" where
  "start created body =
    bnd (gets life) (\<lambda>l.
      if l \<noteq> Constructed then fail Undefined
      else case created of
             None \<Rightarrow> ret ()
           | Some tid \<Rightarrow> modify (\<lambda>t. t\<lparr>threadID := tid, life := Running body\<rparr>))"

definition threadCleanup :: "detachState \<Rightarrow> threadObj \<Rightarrow> threadObj" where
  "threadCleanup d t =
    (if d = Detached then t\<lparr>life := Deleted, deletions := Suc (deletions t)\<rparr> else t\<lparr>life := Over\<rparr>)"

text \<open>The next step of a thread in \<open>threadStarter\<close>, if it is in it.\<close>

definition threadStarter :: "detachState \<Rightarrow> cancelType \<Rightarrow> threadObj \<Rightarrow> threadObj option" where
  "threadStarter d c t =
    (case life t of
       Running [] \<Rightarrow> Some (threadCleanup d t)
     | Running (point # steps) \<Rightarrow>
         Some (if cancelled t \<and> (c = Async \<or> point) then threadCleanup d t else t\<lparr>life := Running steps\<rparr>)
     | _ \<Rightarrow> None)"

text \<open>
  \<open>pthread_cancel\<close> and \<open>pthread_join\<close> need the id of a thread that exists: one that was created and,
  if it has ended, was neither detached nor joined.
\<close>

definition Thread_cancel :: "(threadObj, unit) M" where
  "Thread_cancel =
    bnd (gets (\<lambda>t. t)) (\<lambda>t.
      case life t of
        Running _ \<Rightarrow> modify (\<lambda>t. t\<lparr>cancelled := True\<rparr>)
      | Over \<Rightarrow> if joined t then fail Undefined else ret ()
      | _ \<Rightarrow> fail Undefined)"

definition Thread_join :: "detachState \<Rightarrow> (threadObj, unit) M" where
  "Thread_join d =
    bnd (gets (\<lambda>t. t)) (\<lambda>t.
      if d = Detached then fail Undefined
      else case life t of
             Running _ \<Rightarrow> fail Blocks
           | Over \<Rightarrow> if joined t then fail Undefined else modify (\<lambda>t. t\<lparr>joined := True\<rparr>)
           | _ \<Rightarrow> fail Undefined)"

section \<open>Its life\<close>

inductive life_step :: "detachState \<Rightarrow> cancelType \<Rightarrow> threadObj \<Rightarrow> threadObj \<Rightarrow> bool" for d c where
  step_start: "start created body t = (Inr (), t') \<Longrightarrow> created \<noteq> Some 0 \<Longrightarrow> life_step d c t t'"
| step_run: "threadStarter d c t = Some t' \<Longrightarrow> life_step d c t t'"
| step_cancel: "Thread_cancel t = (Inr (), t') \<Longrightarrow> life_step d c t t'"
| step_join: "Thread_join d t = (Inr (), t') \<Longrightarrow> life_step d c t t'"

inductive_cases life_stepE: "life_step d c t t'"

definition life_inv :: "detachState \<Rightarrow> threadObj \<Rightarrow> bool" where
  "life_inv d t \<longleftrightarrow> deletions t = (if life t = Deleted then 1 else 0)
     \<and> (life t = Deleted \<longrightarrow> d = Detached) \<and> (life t = Over \<longrightarrow> d = Joinable)
     \<and> (threadID t = 0 \<longleftrightarrow> life t = Constructed) \<and> (joined t \<longrightarrow> life t = Over)
     \<and> (cancelled t \<longrightarrow> life t \<noteq> Constructed)"

lemma life_inv_step: "life_step d c t t' \<Longrightarrow> life_inv d t \<Longrightarrow> life_inv d t'"
  by (erule life_stepE)
    (auto simp: m_simps life_inv_def start_def Thread_cancel_def Thread_join_def threadStarter_def threadCleanup_def
      split: if_splits life.splits list.splits option.splits; cases d; simp)+

lemma life_reachable: "(life_step d c)\<^sup>*\<^sup>* Thread_new t \<Longrightarrow> life_inv d t"
proof (induction rule: rtranclp_induct)
  case base
  show ?case by (simp add: life_inv_def Thread_new_def)
next
  case (step t t')
  then show ?case by (blast intro: life_inv_step)
qed

text \<open>How many steps of \<open>run()\<close> a thread with a pending request still takes.\<close>

fun until_cancelled :: "cancelType \<Rightarrow> bool list \<Rightarrow> nat" where
  "until_cancelled c [] = 0"
| "until_cancelled c (point # steps) = (if c = Async \<or> point then 0 else Suc (until_cancelled c steps))"

fun after :: "nat \<Rightarrow> detachState \<Rightarrow> cancelType \<Rightarrow> threadObj \<Rightarrow> threadObj option" where
  "after 0 d c t = Some t"
| "after (Suc n) d c t = Option.bind (threadStarter d c t) (after n d c)"

lemma after_steps: "after n d c t = Some t' \<Longrightarrow> (life_step d c)\<^sup>*\<^sup>* t t'"
proof (induction n arbitrary: t)
  case (Suc n)
  then obtain t1 where "threadStarter d c t = Some t1" "after n d c t1 = Some t'"
    by (auto simp: bind_eq_Some_conv)
  with Suc.IH step_run show ?case by (meson converse_rtranclp_into_rtranclp)
qed simp

lemma threadCleanup_life [simp]: "threadCleanup d (t\<lparr>life := l\<rparr>) = threadCleanup d t"
  by (simp add: threadCleanup_def)

lemma thread_ends:
  assumes "life t = Running body"
  shows "after (Suc (if cancelled t then until_cancelled c body else length body)) d c t
    = Some (threadCleanup d t)"
  using assms
proof (induction body arbitrary: t)
  case Nil
  then show ?case by (simp add: threadStarter_def)
next
  case (Cons point body)
  show ?case
  proof (cases "cancelled t \<and> (c = Async \<or> point)")
    case True
    with Cons.prems show ?thesis by (auto simp: threadStarter_def)
  next
    case False
    with Cons.prems have "threadStarter d c t = Some (t\<lparr>life := Running body\<rparr>)" by (auto simp: threadStarter_def)
    with False Cons.IH [of "t\<lparr>life := Running body\<rparr>"] show ?thesis
      by auto
  qed
qed

lemma deleted_stops: "life t = Deleted \<Longrightarrow> \<not> life_step d c t t'"
  by (auto elim!: life_stepE simp: m_simps start_def Thread_cancel_def Thread_join_def threadStarter_def
      split: if_splits)

lemma deleted_stays: "(life_step d c)\<^sup>*\<^sup>* t t' \<Longrightarrow> life t = Deleted \<Longrightarrow> t' = t"
  by (induction rule: rtranclp_induct) (auto dest: deleted_stops)

section \<open>Properties\<close>


text \<open>A handler that was cancelled before it blocks in a read, its second step.\<close>

definition reading :: threadObj where
  "reading = Thread_new\<lparr>life := Running [False, True, False], threadID := 7, cancelled := True\<rparr>"

lemma reading_reachable: "(life_step d c)\<^sup>*\<^sup>* Thread_new reading"
proof -
  let ?t = "Thread_new\<lparr>threadID := 7, life := Running [False, True, False]\<rparr>"
  have "life_step d c Thread_new ?t"
    by (rule step_start [of "Some 7" "[False, True, False]"]) (simp_all add: start_def m_simps Thread_new_def)
  moreover have "life_step d c ?t reading"
    by (rule step_cancel) (simp add: Thread_cancel_def m_simps Thread_new_def reading_def)
  ultimately show ?thesis by (meson converse_rtranclp_into_rtranclp rtranclp.rtrancl_refl)
qed


end
