(* ===== verification/Threads.thy ===== *)
theory Threads
  imports Sys_Process Thread_Object
begin

text \<open>
  \<open>src/src/Thread\<close>: the recursive mutex and the scoped lock; threads that share one mutex as an
  interleaving of steps; the two facts the programs depend on: requests that run under a scoped
  lock happen one after another, and a virtual machine's start, which runs under none, does not.
\<close>

section \<open>Mutex.hpp\<close>

text \<open>
  A recursive pthread mutex: its owner and how often the owner has locked it. \<open>lock\<close> gives
  \<open>None\<close> when the calling thread has to wait; \<open>unlock\<close> by another thread is an error code nobody
  looks at.
\<close>

record mutex =
  owner :: "nat option"
  depth :: nat

definition Mutex_new :: mutex where
  "Mutex_new = \<lparr>owner = None, depth = 0\<rparr>"

definition Mutex_lock :: "nat \<Rightarrow> mutex \<Rightarrow> mutex option" where
  "Mutex_lock t m =
    (case owner m of
       None \<Rightarrow> Some \<lparr>owner = Some t, depth = 1\<rparr>
     | Some u \<Rightarrow> if u = t then Some (m\<lparr>depth := depth m + 1\<rparr>) else None)"

definition Mutex_unlock :: "nat \<Rightarrow> mutex \<Rightarrow> mutex" where
  "Mutex_unlock t m =
    (if owner m = Some t
     then (if depth m = 1 then Mutex_new else m\<lparr>depth := depth m - 1\<rparr>)
     else m)"

section \<open>ScopedLock.hpp\<close>

text \<open>What a thread does: take the mutex, change the shared state, release the mutex.\<close>

datatype 's act = Lock | Unlock | Do "'s \<Rightarrow> 's"

definition ScopedLock :: "('s \<Rightarrow> 's) list \<Rightarrow> 's act list" where
  "ScopedLock body = Lock # map Do body @ [Unlock]"

section \<open>Interleavings\<close>

record 's sys =
  mtx :: mutex
  todo :: "nat \<Rightarrow> 's act list"
  shared :: 's

inductive tstep :: "'s sys \<Rightarrow> 's sys \<Rightarrow> bool" where
  step_lock: "todo s t = Lock # p \<Longrightarrow> Mutex_lock t (mtx s) = Some m \<Longrightarrow>
     tstep s (s\<lparr>mtx := m, todo := (todo s)(t := p)\<rparr>)"
| step_unlock: "todo s t = Unlock # p \<Longrightarrow>
     tstep s (s\<lparr>mtx := Mutex_unlock t (mtx s), todo := (todo s)(t := p)\<rparr>)"
| step_do: "todo s t = Do f # p \<Longrightarrow>
     tstep s (s\<lparr>todo := (todo s)(t := p), shared := f (shared s)\<rparr>)"

inductive_cases tstepE: "tstep s s'"

definition system :: "(nat \<Rightarrow> 's act list) \<Rightarrow> 's \<Rightarrow> 's sys" where
  "system progs x = \<lparr>mtx = Mutex_new, todo = progs, shared = x\<rparr>"

definition finished :: "'s sys \<Rightarrow> bool" where
  "finished s \<longleftrightarrow> (\<forall>t. todo s t = [])"

text \<open>A thread that handles requests one after another, each under the lock.\<close>

definition handler :: "('s \<Rightarrow> 's) list list \<Rightarrow> 's act list" where
  "handler reqs = concat (map ScopedLock reqs)"

definition effect :: "('s \<Rightarrow> 's) list \<Rightarrow> 's \<Rightarrow> 's" where
  "effect fs x = fold (\<lambda>f. f) fs x"

definition serial :: "(nat \<times> ('s \<Rightarrow> 's) list) list \<Rightarrow> 's \<Rightarrow> 's" where
  "serial order x = fold (\<lambda>(t, fs). effect fs) order x"

definition requests_of :: "nat \<Rightarrow> (nat \<times> ('s \<Rightarrow> 's) list) list \<Rightarrow> ('s \<Rightarrow> 's) list list" where
  "requests_of t order = map snd (filter (\<lambda>e. fst e = t) order)"

lemma effect_simps [simp]: "effect [] x = x" "effect (fs @ [f]) x = f (effect fs x)"
  by (simp_all add: effect_def)

lemma serial_simps [simp]: "serial [] x = x" "serial (order @ [(t, fs)]) x = effect fs (serial order x)"
  by (simp_all add: serial_def)

lemma requests_of_simps [simp]:
  "requests_of t [] = []"
  "requests_of t (order @ [(u, fs)]) = requests_of t order @ (if u = t then [fs] else [])"
  by (simp_all add: requests_of_def)

text \<open>
  Which requests are finished, in the order in which they were, and what is left of a request
  that is under way: the mutex is free exactly between requests.
\<close>

definition idle_thread :: "(nat \<Rightarrow> ('s \<Rightarrow> 's) list list) \<Rightarrow> (nat \<times> ('s \<Rightarrow> 's) list) list \<Rightarrow> 's sys \<Rightarrow> nat \<Rightarrow> bool" where
  "idle_thread reqs order s t \<longleftrightarrow>
    (\<exists>rest. requests_of t order @ rest = reqs t \<and> todo s t = handler rest)"

definition free_state :: "(nat \<Rightarrow> ('s \<Rightarrow> 's) list list) \<Rightarrow> 's \<Rightarrow> (nat \<times> ('s \<Rightarrow> 's) list) list \<Rightarrow> 's sys \<Rightarrow> bool" where
  "free_state reqs x order s \<longleftrightarrow>
    mtx s = Mutex_new \<and> shared s = serial order x \<and> (\<forall>t. idle_thread reqs order s t)"

definition held_state ::
  "(nat \<Rightarrow> ('s \<Rightarrow> 's) list list) \<Rightarrow> 's \<Rightarrow> (nat \<times> ('s \<Rightarrow> 's) list) list \<Rightarrow> nat \<Rightarrow> 's sys \<Rightarrow> bool" where
  "held_state reqs x order u s \<longleftrightarrow>
    mtx s = \<lparr>owner = Some u, depth = 1\<rparr> \<and> (\<forall>t. t \<noteq> u \<longrightarrow> idle_thread reqs order s t)
    \<and> (\<exists>fs gs rest. requests_of u order @ (fs @ gs) # rest = reqs u
         \<and> todo s u = map Do gs @ Unlock # handler rest \<and> shared s = effect fs (serial order x))"

definition one_at_a_time :: "(nat \<Rightarrow> ('s \<Rightarrow> 's) list list) \<Rightarrow> 's \<Rightarrow> 's sys \<Rightarrow> bool" where
  "one_at_a_time reqs x s \<longleftrightarrow>
    (\<exists>order. free_state reqs x order s \<or> (\<exists>u. held_state reqs x order u s))"

lemma handler_simps [simp]:
  "handler [] = []" "handler (fs # reqs) = Lock # map Do fs @ Unlock # handler reqs"
  by (simp_all add: handler_def ScopedLock_def)

lemma handler_first: "handler reqs = a # p \<Longrightarrow> a = Lock \<and> (\<exists>fs rest. reqs = fs # rest \<and> p = map Do fs @ Unlock # handler rest)"
  by (cases reqs) auto

lemma idle_other [simp]:
  "t \<noteq> u \<Longrightarrow> idle_thread reqs order (s\<lparr>mtx := m, todo := (todo s)(u := p)\<rparr>) t = idle_thread reqs order s t"
  "t \<noteq> u \<Longrightarrow> idle_thread reqs order (s\<lparr>todo := (todo s)(u := p), shared := y\<rparr>) t = idle_thread reqs order s t"
  by (simp_all add: idle_thread_def)

lemma free_step:
  assumes "free_state reqs x order s" "tstep s s'"
  shows "\<exists>u. held_state reqs x order u s'"
  using assms(2)
proof cases
  case (step_lock t p m)
  with assms(1) obtain rest where rest: "requests_of t order @ rest = reqs t" "Lock # p = handler rest"
    by (auto simp: free_state_def idle_thread_def) (metis)
  then obtain fs rest' where r: "rest = fs # rest'" "p = map Do fs @ Unlock # handler rest'"
    by (metis handler_first)
  have m: "m = \<lparr>owner = Some t, depth = 1\<rparr>"
    using step_lock assms(1) by (simp add: free_state_def Mutex_lock_def Mutex_new_def)
  have "held_state reqs x order t s'"
    unfolding held_state_def
  proof (intro conjI allI impI)
    show "\<exists>fs gs rest. requests_of t order @ (fs @ gs) # rest = reqs t
        \<and> todo s' t = map Do gs @ Unlock # handler rest \<and> shared s' = effect fs (serial order x)"
      using step_lock r rest assms(1)
      by (intro exI [of _ "[]"] exI [of _ fs] exI [of _ rest']) (simp add: free_state_def)
  qed (use step_lock m assms(1) in \<open>simp_all add: free_state_def\<close>)
  then show ?thesis by blast
next
  case (step_unlock t p)
  with assms(1) show ?thesis by (auto simp: free_state_def idle_thread_def dest: handler_first) (metis act.distinct(1) handler_first)
next
  case (step_do t f p)
  with assms(1) show ?thesis by (auto simp: free_state_def idle_thread_def) (metis act.distinct(3) handler_first)
qed

lemma idle_only_locks:
  "idle_thread reqs order s t \<Longrightarrow> todo s t = a # p \<Longrightarrow> a = Lock"
  by (metis handler_first idle_thread_def)

lemma idle_finished:
  assumes "idle_thread reqs order s t"
    and "todo s' t = todo s t" "requests_of t order' = requests_of t order"
  shows "idle_thread reqs order' s' t"
  using assms by (simp add: idle_thread_def)

lemma held_step:
  assumes held: "held_state reqs x order u s" and step: "tstep s s'"
  shows "held_state reqs x order u s' \<or> (\<exists>fs. free_state reqs x (order @ [(u, fs)]) s')"
proof -
  obtain fs gs rest where r: "requests_of u order @ (fs @ gs) # rest = reqs u"
    "todo s u = map Do gs @ Unlock # handler rest" "shared s = effect fs (serial order x)"
    using held by (auto simp: held_state_def)
  have mtx: "mtx s = \<lparr>owner = Some u, depth = 1\<rparr>"
    and idle: "\<And>t. t \<noteq> u \<Longrightarrow> idle_thread reqs order s t"
    using held by (simp_all add: held_state_def)
  from step show ?thesis
  proof cases
    case (step_lock t p m)
    have "t = u"
      using step_lock(3) mtx by (auto simp: Mutex_lock_def split: if_splits)
    with step_lock(2) r(2) show ?thesis by (cases gs) auto
  next
    case (step_unlock t p)
    have "t = u" using idle_only_locks [OF idle step_unlock(2)] by blast
    with step_unlock(2) r(2) have gs: "gs = []" "p = handler rest" by (cases gs; auto)+
    have "free_state reqs x (order @ [(u, fs)]) s'"
      unfolding free_state_def
    proof (intro conjI allI)
      fix t'
      show "idle_thread reqs (order @ [(u, fs)]) s' t'"
      proof (cases "t' = u")
        case True
        then show ?thesis
          using gs r(1) step_unlock(1) \<open>t = u\<close> by (auto simp: idle_thread_def intro!: exI [of _ rest])
      next
        case False
        then show ?thesis
          using idle [OF False] step_unlock(1) \<open>t = u\<close> by (auto intro: idle_finished)
      qed
    qed (use step_unlock(1) mtx r(3) \<open>t = u\<close> in \<open>simp_all add: Mutex_unlock_def\<close>)
    then show ?thesis by blast
  next
    case (step_do t f p)
    have "t = u" using idle_only_locks [OF idle step_do(2)] by blast
    with step_do(2) r(2) obtain gs' where gs: "gs = f # gs'" "p = map Do gs' @ Unlock # handler rest"
      by (cases gs) auto
    have "held_state reqs x order u s'"
      unfolding held_state_def
    proof (intro conjI allI impI)
      show "\<exists>fs gs rest. requests_of u order @ (fs @ gs) # rest = reqs u
          \<and> todo s' u = map Do gs @ Unlock # handler rest \<and> shared s' = effect fs (serial order x)"
        using step_do gs r \<open>t = u\<close>
        by (intro exI [of _ "fs @ [f]"] exI [of _ gs'] exI [of _ rest]) simp
    next
      fix t'
      assume "t' \<noteq> u"
      then show "idle_thread reqs order s' t'"
        using idle step_do(1) \<open>t = u\<close> by (auto intro: idle_finished)
    qed (use step_do(1) mtx in simp_all)
    then show ?thesis by blast
  qed
qed

lemma one_at_a_time_reachable:
  "tstep\<^sup>*\<^sup>* (system (\<lambda>t. handler (reqs t)) x) s \<Longrightarrow> one_at_a_time reqs x s"
proof (induction rule: rtranclp_induct)
  case base
  have "free_state reqs x [] (system (\<lambda>t. handler (reqs t)) x)"
    by (simp add: free_state_def system_def idle_thread_def)
  then show ?case by (auto simp: one_at_a_time_def)
next
  case (step s s')
  then show ?case
    unfolding one_at_a_time_def using free_step [OF _ step(2)] held_step [OF _ step(2)] by blast
qed

text \<open>Conversely, every order of whole requests can happen.\<close>

lemma run_body:
  "todo s t = map Do fs @ p \<Longrightarrow> tstep\<^sup>*\<^sup>* s (s\<lparr>todo := (todo s)(t := p), shared := effect fs (shared s)\<rparr>)"
proof (induction fs arbitrary: s)
  case Nil
  then show ?case by (simp add: effect_def fun_upd_idem)
next
  case (Cons f fs)
  let ?s = "s\<lparr>todo := (todo s)(t := map Do fs @ p), shared := f (shared s)\<rparr>"
  have "tstep s ?s" using Cons.prems by (intro step_do) simp
  moreover have "todo ?s t = map Do fs @ p" by simp
  note Cons.IH [OF this]
  ultimately show ?case by (simp add: effect_def converse_rtranclp_into_rtranclp del: fun_upd_apply)
qed

lemma run_request:
  assumes "mtx s = Mutex_new" "todo s t = Lock # map Do fs @ Unlock # p"
  shows "tstep\<^sup>*\<^sup>* s (s\<lparr>todo := (todo s)(t := p), shared := effect fs (shared s)\<rparr>)"
proof -
  let ?held = "\<lparr>owner = Some t, depth = 1\<rparr>"
  let ?s1 = "s\<lparr>mtx := ?held, todo := (todo s)(t := map Do fs @ Unlock # p)\<rparr>"
  let ?s2 = "?s1\<lparr>todo := (todo ?s1)(t := Unlock # p), shared := effect fs (shared ?s1)\<rparr>"
  have "tstep s ?s1" using assms by (intro step_lock) (simp_all add: Mutex_lock_def Mutex_new_def)
  moreover have "tstep\<^sup>*\<^sup>* ?s1 ?s2" by (rule run_body) simp
  moreover have "tstep ?s2 (?s2\<lparr>mtx := Mutex_unlock t (mtx ?s2), todo := (todo ?s2)(t := p)\<rparr>)" by (rule step_unlock) simp
  moreover have "?s2\<lparr>mtx := Mutex_unlock t (mtx ?s2), todo := (todo ?s2)(t := p)\<rparr>
      = s\<lparr>todo := (todo s)(t := p), shared := effect fs (shared s)\<rparr>"
    using assms(1) by (simp add: Mutex_unlock_def)
  ultimately show ?thesis
    by (metis (no_types, lifting) converse_rtranclp_into_rtranclp rtranclp.rtrancl_into_rtrancl)
qed

lemma every_order_possible:
  "mtx s = Mutex_new \<Longrightarrow> (\<And>t. todo s t = handler (requests_of t order)) \<Longrightarrow>
   tstep\<^sup>*\<^sup>* s (s\<lparr>todo := (\<lambda>_. []), shared := serial order (shared s)\<rparr>)"
proof (induction order arbitrary: s)
  case Nil
  then have "todo s = (\<lambda>_. [])" by auto
  then have "s = s\<lparr>todo := (\<lambda>_. []), shared := serial [] (shared s)\<rparr>" by simp
  then show ?case by (metis rtranclp.rtrancl_refl)
next
  case (Cons e order)
  obtain t fs where e: "e = (t, fs)" by (cases e)
  have first: "requests_of u (e # order) = (if u = t then fs # requests_of u order else requests_of u order)" for u
    by (simp add: requests_of_def e)
  let ?s = "s\<lparr>todo := (todo s)(t := handler (requests_of t order)), shared := effect fs (shared s)\<rparr>"
  have "tstep\<^sup>*\<^sup>* s ?s" using Cons.prems by (intro run_request) (simp_all add: first)
  moreover have "todo ?s u = handler (requests_of u order)" for u using Cons.prems(2) by (simp add: first)
  then have "tstep\<^sup>*\<^sup>* ?s (?s\<lparr>todo := (\<lambda>_. []), shared := serial order (shared ?s)\<rparr>)"
    using Cons.prems(1) by (intro Cons.IH) simp_all
  ultimately show ?case by (simp add: serial_def e)
qed

section \<open>Starting a virtual machine without the lock\<close>

text \<open>
  \<open>Controller::run\<close> takes no lock, and \<open>Process::run\<close> has two steps: look whether the process
  runs, then \<open>fork\<close> and remember the process id. Each handler thread keeps what it saw in a local
  variable (\<open>saw\<close>); \<open>pids\<close> are the machines started so far.
\<close>

record starting =
  st_process :: process
  st_world :: world
  saw :: "nat \<Rightarrow> bool"
  pids :: "int list"

definition look :: "nat \<Rightarrow> starting \<Rightarrow> starting" where
  "look t st = st\<lparr>saw := (saw st)(t := isRunning (st_process st) (st_world st))\<rparr>"

definition spawn :: "os \<Rightarrow> nat \<Rightarrow> starting \<Rightarrow> starting" where
  "spawn os t st =
    (if saw st t then st
     else (let p = st_process st in
           case os_spawn os True (c_str (p_path p)) (exec_args (p_opts p)) (st_world st) of (pid, w) \<Rightarrow>
             st\<lparr>st_process := p\<lparr>p_pid := pid\<rparr>, st_world := w, pids := pids st @ [pid]\<rparr>))"

definition run_thread :: "os \<Rightarrow> nat \<Rightarrow> starting act list" where
  "run_thread os t = [Do (look t), Do (spawn os t)]"

text \<open>Two handlers, both asked to run the machine.\<close>

definition two_handlers :: "(nat \<Rightarrow> 's act list) \<Rightarrow> nat \<Rightarrow> 's act list" where
  "two_handlers prog t = (if t < 2 then prog t else [])"

definition starting_state :: "process \<Rightarrow> world \<Rightarrow> starting" where
  "starting_state p w = \<lparr>st_process = p, st_world = w, saw = (\<lambda>_. False), pids = []\<rparr>"

lemma serialise:
  assumes "tstep\<^sup>*\<^sup>* (system (\<lambda>t. handler (reqs t)) x) s" and "finished s"
  shows "\<exists>order. shared s = serial order x \<and> (\<forall>t. requests_of t order = reqs t)"
proof -
  have "one_at_a_time reqs x s" by (rule one_at_a_time_reachable [OF assms(1)])
  then consider order where "free_state reqs x order s" | order u where "held_state reqs x order u s"
    by (auto simp: one_at_a_time_def)
  then show ?thesis
  proof cases
    case 1
    have "requests_of t order = reqs t" for t
    proof -
      obtain rest where "requests_of t order @ rest = reqs t" "handler rest = []"
        using 1 assms(2) unfolding free_state_def idle_thread_def finished_def by metis
      then show ?thesis by (cases rest) auto
    qed
    with 1 show ?thesis by (auto simp: free_state_def)
  next
    case 2
    then show ?thesis using assms(2) by (auto simp: held_state_def finished_def)
  qed
qed

section \<open>Orders of requests\<close>

text \<open>The requests of thread \<open>t\<close>, in the order in which they were handled.\<close>

definition of_thread :: "nat \<Rightarrow> (nat \<times> 'a) list \<Rightarrow> 'a list" where
  "of_thread t order = map snd (filter (\<lambda>e. fst e = t) order)"

lemma of_thread_simps [simp]:
  "of_thread t [] = []"
  "of_thread t ((u, x) # order) = (if u = t then x # of_thread t order else of_thread t order)"
  by (simp_all add: of_thread_def)

lemma requests_of_thread: "requests_of t order = of_thread t order"
  by (simp add: requests_of_def of_thread_def)

lemma order_of_steps:
  "(\<And>t. of_thread t order = map (b t) (reqs t)) \<Longrightarrow>
   \<exists>order'. (\<forall>t. of_thread t order' = reqs t) \<and> order = map (\<lambda>(t, r). (t, b t r)) order'"
proof (induction order arbitrary: reqs)
  case Nil
  then have "reqs t = []" for t by (metis list.map_disc_iff of_thread_simps(1))
  then show ?case by (intro exI [of _ "[]"]) simp
next
  case (Cons e order)
  obtain u x where e: "e = (u, x)" by (cases e)
  from Cons.prems [of u] obtain r rs where u: "reqs u = r # rs" "x = b u r" "of_thread u order = map (b u) rs"
    unfolding e by (cases "reqs u") auto
  have "of_thread t order = map (b t) ((reqs(u := rs)) t)" for t
    using Cons.prems [of t] u(3) unfolding e by (cases "t = u") auto
  from Cons.IH [OF this] obtain order' where order': "\<forall>t. of_thread t order' = (reqs(u := rs)) t"
    "order = map (\<lambda>(t, r). (t, b t r)) order'" by blast
  then show ?case
    using u(1,2) e by (intro exI [of _ "(u, r) # order'"]) auto
qed

section \<open>Invariants of the shared state\<close>

lemma tstep_todo: "tstep s s' \<Longrightarrow> set (todo s' t) \<subseteq> set (todo s t)"
  by (erule tstepE) (auto split: if_splits)

lemma tsteps_todo: "tstep\<^sup>*\<^sup>* s s' \<Longrightarrow> set (todo s' t) \<subseteq> set (todo s t)"
proof (induction rule: rtranclp_induct)
  case (step y z)
  with tstep_todo [of y z t] show ?case by blast
qed simp

text \<open>What every step of every thread preserves holds whatever the interleaving and the locks.\<close>

lemma tstep_shared:
  assumes "tstep s s'" and "\<And>t f x. Do f \<in> set (todo s t) \<Longrightarrow> P x \<Longrightarrow> P (f x)" and "P (shared s)"
  shows "P (shared s')"
  using assms(1)
proof cases
  case (step_do t f p)
  with assms(2) [of f t "shared s"] assms(3) show ?thesis by simp
qed (simp_all add: assms(3))

lemma shared_invariant:
  assumes "tstep\<^sup>*\<^sup>* s s'" and "\<And>t f x. Do f \<in> set (todo s t) \<Longrightarrow> P x \<Longrightarrow> P (f x)" and "P (shared s)"
  shows "P (shared s')"
  using assms(1)
proof (induction rule: rtranclp_induct)
  case (step y z)
  show ?case
  proof (rule tstep_shared [where P = P, OF step.hyps(2)])
    fix t f x
    assume "Do f \<in> set (todo y t)" "P x"
    with tsteps_todo [OF step.hyps(1), of t] show "P (f x)" by (blast intro: assms(2))
  qed (rule step.IH)
qed (rule assms(3))

section \<open>Properties\<close>

text \<open>
  Requests handled under one scoped lock are serialisable: however the threads are
  interleaved, when all have finished, the shared state is the result of running whole requests
  one after another, in an order that keeps every thread's own order.
\<close>

theorem scoped_requests_serialise:
  assumes "tstep\<^sup>*\<^sup>* (system (\<lambda>t. handler (reqs t)) x) s" and "finished s"
  shows "\<exists>order. shared s = serial order x \<and> (\<forall>t. requests_of t order = reqs t)"
  using assms by (rule serialise)

text \<open>One step of a thread whose first action is known, for running examples.\<close>

definition two_requests :: "nat \<Rightarrow> (int \<Rightarrow> int) list list" where
  "two_requests t = (if t = 0 then [[\<lambda>n. n + 1]] else if t = 1 then [[\<lambda>n. 2 * n]] else [])"

definition stage :: "mutex \<Rightarrow> int act list \<Rightarrow> int act list \<Rightarrow> int \<Rightarrow> int sys" where
  "stage m p q x = \<lparr>mtx = m, todo = (\<lambda>t. if t = 0 then p else if t = 1 then q else []), shared = x\<rparr>"

lemma stage_simps [simp]:
  "mtx (stage m p q x) = m" "shared (stage m p q x) = x"
  "todo (stage m p q x) 0 = p" "todo (stage m p q x) (Suc 0) = q"
  "stage m p q x\<lparr>mtx := m', todo := (todo (stage m p q x))(0 := p')\<rparr> = stage m' p' q x"
  "stage m p q x\<lparr>mtx := m', todo := (todo (stage m p q x))(Suc 0 := q')\<rparr> = stage m' p q' x"
  "stage m p q x\<lparr>todo := (todo (stage m p q x))(0 := p'), shared := y\<rparr> = stage m p' q y"
  "stage m p q x\<lparr>todo := (todo (stage m p q x))(Suc 0 := q'), shared := y\<rparr> = stage m p q' y"
  by (auto simp: stage_def)

lemma stage_steps:
  "tstep (stage Mutex_new (Lock # p) q x) (stage \<lparr>owner = Some 0, depth = 1\<rparr> p q x)"
  "tstep (stage Mutex_new p (Lock # q) x) (stage \<lparr>owner = Some 1, depth = 1\<rparr> p q x)"
  "tstep (stage m (Do f # p) q x) (stage m p q (f x))"
  "tstep (stage m p (Do f # q) x) (stage m p q (f x))"
  "tstep (stage \<lparr>owner = Some 0, depth = 1\<rparr> (Unlock # p) q x) (stage Mutex_new p q x)"
  "tstep (stage \<lparr>owner = Some 1, depth = 1\<rparr> p (Unlock # q) x) (stage Mutex_new p q x)"
  using step_lock [of "stage Mutex_new (Lock # p) q x" 0 p]
    step_lock [of "stage Mutex_new p (Lock # q) x" "Suc 0" q]
    step_do [of "stage m (Do f # p) q x" 0] step_do [of "stage m p (Do f # q) x" "Suc 0"]
    step_unlock [of "stage \<lparr>owner = Some 0, depth = 1\<rparr> (Unlock # p) q x" 0]
    step_unlock [of "stage \<lparr>owner = Some 1, depth = 1\<rparr> p (Unlock # q) x" "Suc 0"]
  by (simp_all add: Mutex_lock_def Mutex_unlock_def Mutex_new_def)

lemma two_requests_run:
  "tstep\<^sup>*\<^sup>* (system (\<lambda>t. handler (two_requests t)) 5) (stage Mutex_new [] [] 11)"
proof -
  have "system (\<lambda>t. handler (two_requests t)) 5
      = stage Mutex_new [Lock, Do (\<lambda>n. n + 1), Unlock] [Lock, Do (\<lambda>n. 2 * n), Unlock] 5"
    by (auto simp: system_def stage_def two_requests_def)
  moreover have "tstep\<^sup>*\<^sup>* (stage Mutex_new [Lock, Do (\<lambda>n. n + 1), Unlock] [Lock, Do (\<lambda>n. 2 * n), Unlock] 5)
      (stage Mutex_new [] [] (2 * 5 + 1))"
    by (rule converse_rtranclp_into_rtranclp, rule stage_steps(2),
        rule converse_rtranclp_into_rtranclp, rule stage_steps(4),
        rule converse_rtranclp_into_rtranclp, rule stage_steps(6),
        rule converse_rtranclp_into_rtranclp, rule stage_steps(1),
        rule converse_rtranclp_into_rtranclp, rule stage_steps(3),
        rule converse_rtranclp_into_rtranclp, rule stage_steps(5), rule rtranclp.rtrancl_refl)
  ultimately show ?thesis by simp
qed

theorem scoped_requests_serialise_witness:
  "\<exists>order. 11 = serial order (5 :: int) \<and> (\<forall>t. requests_of t order = two_requests t)"
  using scoped_requests_serialise [OF two_requests_run] by (simp add: finished_def) (simp add: stage_def)

text \<open>
  Two clients that start the same offline machine at the same time start it twice: neither
  handler takes the lock, both can see the process not running before either forks, and the
  process object only remembers the second machine, so the first can no longer be stopped.
\<close>

theorem unlocked_start_twice:
  assumes "\<not> isRunning p w"
    and "os_spawn os True (c_str (p_path p)) (exec_args (p_opts p)) w = (pid1, w1)"
    and "os_spawn os True (c_str (p_path p)) (exec_args (p_opts p)) w1 = (pid2, w2)"
  shows "\<exists>s. tstep\<^sup>*\<^sup>* (system (two_handlers (run_thread os)) (starting_state p w)) s \<and> finished s
    \<and> pids (shared s) = [pid1, pid2] \<and> getPid (st_process (shared s)) = pid2"
proof -
  let ?s0 = "system (two_handlers (run_thread os)) (starting_state p w)"
  define s1 where "s1 = ?s0\<lparr>todo := (todo ?s0)(0 := [Do (spawn os 0)]), shared := look 0 (shared ?s0)\<rparr>"
  define s2 where "s2 = s1\<lparr>todo := (todo s1)(1 := [Do (spawn os 1)]), shared := look 1 (shared s1)\<rparr>"
  define s3 where "s3 = s2\<lparr>todo := (todo s2)(0 := []), shared := spawn os 0 (shared s2)\<rparr>"
  define s4 where "s4 = s3\<lparr>todo := (todo s3)(1 := []), shared := spawn os 1 (shared s3)\<rparr>"
  note defs = s1_def s2_def s3_def s4_def
  have t0: "todo ?s0 t = (if t < 2 then [Do (look t), Do (spawn os t)] else [])" for t
    by (simp add: system_def two_handlers_def run_thread_def)
  have "tstep ?s0 s1" unfolding s1_def by (rule step_do) (simp add: t0)
  moreover have "tstep s1 s2" unfolding s2_def by (rule step_do) (simp add: s1_def t0)
  moreover have "tstep s2 s3" unfolding s3_def by (rule step_do) (simp add: s2_def s1_def)
  moreover have "tstep s3 s4" unfolding s4_def by (rule step_do) (simp add: s3_def s2_def)
  ultimately have "tstep\<^sup>*\<^sup>* ?s0 s4" by (meson converse_rtranclp_into_rtranclp rtranclp.rtrancl_refl)
  moreover have "finished s4"
    unfolding finished_def defs by (simp add: t0)
  moreover have "shared s4 = spawn os 1 (spawn os 0 (look 1 (look 0 (starting_state p w))))"
    by (simp add: defs system_def)
  ultimately show ?thesis
    using assms
    by (intro exI [of _ s4]) (simp add: spawn_def look_def starting_state_def getPid_def isRunning_def)
qed

theorem unlocked_start_twice_witness:
  "\<exists>s. tstep\<^sup>*\<^sup>* (system (two_handlers (run_thread \<lparr>os_spawn = (\<lambda>_ _ _ w. (4242 + int (w_fds w), w\<lparr>w_fds := 1\<rparr>)),
        os_wait = (\<lambda>_ w. w)\<rparr>)) (starting_state (Process_new ''/bin/bash'' [''-c'']) idle_world)) s
    \<and> finished s \<and> pids (shared s) = [4242, 4243] \<and> getPid (st_process (shared s)) = 4243"
  by (rule unlocked_start_twice [where ?w1.0 = "idle_world\<lparr>w_fds := 1\<rparr>" and ?w2.0 = "idle_world\<lparr>w_fds := 1\<rparr>"])
    (simp_all add: idle_world_def)

end
