(* ===== verification/Concurrent_Manager.thy ===== *)
theory Concurrent_Manager
  imports Threads Input_Safety
begin

text \<open>
  Several clients of one manager: each has a handler thread of its own, and what a handler does for
  a known command it does under the manager's mutex. The handlers' steps are interleaved in any
  way; in a listing every single call on a controller is a step.
\<close>

section \<open>What the handlers share\<close>

text \<open>
  The manager's global variables, and for each handler its connection and how its request failed,
  if it did.
\<close>

record 'r mshared =
  sh_mgr :: "'r manager"
  sh_conn :: "nat \<Rightarrow> socket"
  sh_fault :: "nat \<Rightarrow> fault option"

definition as_handler :: "nat \<Rightarrow> ('r mserver, unit) M \<Rightarrow> 'r mshared \<Rightarrow> 'r mshared" where
  "as_handler t m s =
    (if sh_fault s t \<noteq> None then s
     else case m \<lparr>ms_mgr = sh_mgr s, ms_conn = sh_conn s t, ms_fault = None\<rparr> of (r, ms) \<Rightarrow>
       s\<lparr>sh_mgr := ms_mgr ms, sh_conn := (sh_conn s)(t := ms_conn ms),
         sh_fault := (sh_fault s)(t := (case r of Inl f \<Rightarrow> Some f | Inr _ \<Rightarrow> None))\<rparr>)"

section \<open>A command as the steps of its critical section\<close>

definition ask_templates :: "'r react \<Rightarrow> nat \<Rightarrow> ('r mserver, unit) M" where
  "ask_templates react k =
    bnd (mg_do (on_ctrl k (proxy_getTemplates react))) (\<lambda>ts.
      for_each (map_values ts) (\<lambda>t. mg_write_lines (Template_serialize t)))"

definition ask_instances :: "'r react \<Rightarrow> nat \<Rightarrow> ('r mserver, unit) M" where
  "ask_instances react k =
    bnd (gets (\<lambda>ms. cr_id (controllers (ms_mgr ms) ! k))) (\<lambda>server.
    bnd (mg_do (on_ctrl k (proxy_getInstances react))) (\<lambda>is.
      for_each (map_values is) (\<lambda>i.
        mg_write_lines (InstanceInfo_serialize (setId (makeFullId server (ii_id i)) i)))))"

text \<open>The commands that take the mutex; an unknown one only writes to its own connection.\<close>

definition known_request :: "string list \<Rightarrow> bool" where
  "known_request commands \<longleftrightarrow> commands \<noteq> []
     \<and> hd commands \<in> {''getTemplates'', ''getInstances'', ''instantiate'', ''run'', ''kill''}"

text \<open>The iterations of the listing loops over \<open>n\<close> controllers; the other commands in one step.\<close>

definition locked_steps :: "'r react \<Rightarrow> nat \<Rightarrow> nat \<Rightarrow> string list \<Rightarrow> ('r mshared \<Rightarrow> 'r mshared) list" where
  "locked_steps react n t commands =
    (if hd commands = ''getTemplates'' then map (\<lambda>k. as_handler t (ask_templates react k)) [0..<n]
     else if hd commands = ''getInstances'' then map (\<lambda>k. as_handler t (ask_instances react k)) [0..<n]
     else [as_handler t (mgr_dispatch react (hd commands) commands)])"

text \<open>The manager handling whole requests of its clients one after another.\<close>

fun one_by_one :: "'r react \<Rightarrow> (nat \<times> string list) list \<Rightarrow> 'r manager \<times> (nat \<Rightarrow> socket)
    \<Rightarrow> ('r manager \<times> (nat \<Rightarrow> socket)) res" where
  "one_by_one react [] s = Inr s"
| "one_by_one react ((t, commands) # order) (m, conns) =
    (case mgr_dispatch react (hd commands) commands \<lparr>ms_mgr = m, ms_conn = conns t, ms_fault = None\<rparr> of (r, ms) \<Rightarrow>
       (case r of
          Inl f \<Rightarrow> Inl f
        | Inr _ \<Rightarrow> one_by_one react order (ms_mgr ms, conns(t := ms_conn ms))))"

section \<open>The steps make up the command\<close>

lemma as_handler_ret: "as_handler t (ret ()) s = s"
  by (simp add: as_handler_def ret_def fun_upd_idem)

lemma as_handler_seq:
  assumes "keeps (\<lambda>ms. ms_fault ms = None) m"
  shows "as_handler t (seq m m') s = as_handler t m' (as_handler t m s)"
proof (cases "sh_fault s t")
  case None
  obtain r ms where m: "m \<lparr>ms_mgr = sh_mgr s, ms_conn = sh_conn s t, ms_fault = None\<rparr> = (r, ms)" by fastforce
  then have "ms_fault ms = None" using yieldsD [OF assms m] by simp
  then have "ms = \<lparr>ms_mgr = ms_mgr ms, ms_conn = ms_conn ms, ms_fault = None\<rparr>" by simp
  with m None show ?thesis by (cases r) (auto simp: as_handler_def seq_def bnd_def split: prod.split)
qed (simp add: as_handler_def)

lemma as_handler_for_each:
  "(\<And>k. keeps (\<lambda>ms. ms_fault ms = None) (body k)) \<Longrightarrow>
   as_handler t (for_each ks body) s = effect (map (\<lambda>k. as_handler t (body k)) ks) s"
  by (induction ks arbitrary: s) (simp_all add: as_handler_ret as_handler_seq effect_def)

lemma keeps_ask:
  "keeps (\<lambda>ms. ms_fault ms = None) (ask_templates react k)"
  "keeps (\<lambda>ms. ms_fault ms = None) (ask_instances react k)"
  unfolding ask_templates_def ask_instances_def mg_write_lines_def by (intro triples keeps_bnd yields_gets; simp)+

lemma as_handler_count:
  "as_handler t (bnd (gets (\<lambda>ms. length (controllers (ms_mgr ms)))) k) s = as_handler t (k (length (controllers (sh_mgr s)))) s"
  by (simp add: as_handler_def bnd_gets)

lemma locked_steps_effect:
  assumes "length (controllers (sh_mgr s)) = n"
  shows "effect (locked_steps react n t commands) s = as_handler t (mgr_dispatch react (hd commands) commands) s"
proof -
  have "mgr_getTemplates react = bnd (gets (\<lambda>ms. length (controllers (ms_mgr ms)))) (\<lambda>n. for_each [0..<n] (ask_templates react))"
    "mgr_getInstances react = bnd (gets (\<lambda>ms. length (controllers (ms_mgr ms)))) (\<lambda>n. for_each [0..<n] (ask_instances react))"
    by (simp_all add: mgr_getTemplates_def mgr_getInstances_def ask_templates_def [abs_def] ask_instances_def [abs_def])
  then show ?thesis
    using assms as_handler_for_each [of "ask_templates react" t "[0..<n]" s, OF keeps_ask(1)]
      as_handler_for_each [of "ask_instances react" t "[0..<n]" s, OF keeps_ask(2)]
    by (auto simp: locked_steps_def mgr_dispatch_def as_handler_count) (simp_all add: effect_def)
qed

section \<open>The manager's state under the mutex\<close>

lemma keeps_mgr_dispatch_inv:
  assumes "length refs < 2 ^ 31"
  shows "keeps (\<lambda>ms. mgr_inv refs (ms_mgr ms)) (mgr_dispatch react cmd commands)"
  unfolding mgr_dispatch_def mg_write_def
  by (intro yields_if keeps_mgr_commands_inv assms yields_modify) simp_all

lemma as_handler_inv:
  assumes "length refs < 2 ^ 31" "mgr_inv refs (sh_mgr s)"
  shows "mgr_inv refs (sh_mgr (as_handler t (mgr_dispatch react cmd commands) s))"
proof (cases "sh_fault s t")
  case None
  let ?ms = "\<lparr>ms_mgr = sh_mgr s, ms_conn = sh_conn s t, ms_fault = None\<rparr>"
  obtain r ms where m: "mgr_dispatch react cmd commands ?ms = (r, ms)" by fastforce
  then have "mgr_inv refs (ms_mgr ms)"
    using yieldsD [OF keeps_mgr_dispatch_inv [OF assms(1)] m] assms(2) by simp
  with m None show ?thesis by (simp add: as_handler_def)
qed (simp add: as_handler_def assms(2))

lemma as_handler_fault: "sh_fault s u \<noteq> None \<Longrightarrow> sh_fault (as_handler t m s) u \<noteq> None"
  by (auto simp: as_handler_def split: prod.split)

definition whole :: "'r react \<Rightarrow> nat \<times> string list \<Rightarrow> 'r mshared \<Rightarrow> 'r mshared" where
  "whole react = (\<lambda>(t, commands). as_handler t (mgr_dispatch react (hd commands) commands))"

lemma whole_requests_inv:
  "length refs < 2 ^ 31 \<Longrightarrow> mgr_inv refs (sh_mgr s) \<Longrightarrow> mgr_inv refs (sh_mgr (fold (whole react) order s))"
  by (induction order arbitrary: s) (auto simp: whole_def as_handler_inv)

lemma serial_requests:
  "length refs < 2 ^ 31 \<Longrightarrow> mgr_inv refs (sh_mgr s) \<Longrightarrow>
   serial (map (\<lambda>(t, r). (t, locked_steps react (length refs) t r)) order) s = fold (whole react) order s"
proof (induction order arbitrary: s)
  case (Cons e order)
  obtain t r where e: "e = (t, r)" by (cases e)
  have "effect (locked_steps react (length refs) t r) s = whole react e s"
    using locked_steps_effect mgr_inv_length [OF Cons.prems(2)] by (simp add: e whole_def)
  moreover have "mgr_inv refs (sh_mgr (whole react e s))"
    using as_handler_inv Cons.prems by (simp add: e whole_def)
  ultimately show ?case using Cons.IH Cons.prems(1) by (simp add: serial_def e)
qed (simp add: serial_def)

lemma whole_faults: "sh_fault s u \<noteq> None \<Longrightarrow> sh_fault (fold (whole react) order s) u \<noteq> None"
proof (induction order arbitrary: s)
  case (Cons e order)
  have "sh_fault (whole react e s) u \<noteq> None"
    using as_handler_fault [OF Cons.prems] by (simp add: whole_def split: prod.split)
  from Cons.IH [OF this] show ?case by simp
qed simp

lemma whole_one_by_one:
  "\<forall>t. sh_fault (fold (whole react) order s) t = None \<Longrightarrow>
   one_by_one react order (sh_mgr s, sh_conn s)
     = Inr (sh_mgr (fold (whole react) order s), sh_conn (fold (whole react) order s))"
proof (induction order arbitrary: s)
  case (Cons e order)
  obtain t r where e: "e = (t, r)" by (cases e)
  let ?s = "whole react e s"
  have ok: "sh_fault ?s t = None" "sh_fault s t = None"
    using Cons.prems whole_faults [of ?s t react order] whole_faults [of s t react "e # order"] by fastforce+
  obtain x ms where m: "mgr_dispatch react (hd r) r \<lparr>ms_mgr = sh_mgr s, ms_conn = sh_conn s t, ms_fault = None\<rparr> = (x, ms)"
    by fastforce
  with ok have "\<exists>u. x = Inr u" by (cases x) (auto simp: e whole_def as_handler_def)
  moreover have "sh_mgr ?s = ms_mgr ms" "sh_conn ?s = (sh_conn s)(t := ms_conn ms)"
    using m ok(2) by (simp_all add: e whole_def as_handler_def)
  ultimately show ?case using Cons.IH [of ?s] Cons.prems m by (auto simp: e fun_upd_def)
qed simp

section \<open>Properties\<close>

text \<open>
  C26. Clients of one manager do not disturb each other. Whatever requests several clients make at
  the same time and however the steps of their handlers are interleaved (in a listing every
  call on a controller is a step): if all are done and none failed, the manager's state and
  every client's reply are those of whole requests handled one after another, each client's in
  its own order, and the manager supervises the same controllers as before.
\<close>

theorem client_requests_serialise:
  assumes "tstep\<^sup>*\<^sup>* (system (\<lambda>t. handler (map (locked_steps react (length refs) t) (reqs t))) s0) s" and "finished s"
    and "\<forall>t. \<forall>r \<in> set (reqs t). known_request r"
    and "mgr_inv refs (sh_mgr s0)" and "length refs < 2 ^ 31" and "\<And>t. sh_fault (shared s) t = None"
  shows "\<exists>order. (\<forall>t. map snd (filter (\<lambda>e. fst e = t) order) = reqs t)
    \<and> one_by_one react order (sh_mgr s0, sh_conn s0) = Inr (sh_mgr (shared s), sh_conn (shared s))
    \<and> mgr_inv refs (sh_mgr (shared s))"
proof -
  obtain order' where order': "shared s = serial order' s0"
    "\<And>t. of_thread t order' = map (locked_steps react (length refs) t) (reqs t)"
    using serialise [OF assms(1,2)] unfolding requests_of_thread by blast
  obtain order where order: "\<forall>t. of_thread t order = reqs t"
    "order' = map (\<lambda>(t, r). (t, locked_steps react (length refs) t r)) order"
    using order_of_steps [OF order'(2)] by blast
  have "shared s = fold (whole react) order s0"
    using serial_requests [OF assms(5,4)] order(2) order'(1) by simp
  with whole_one_by_one [of react order s0] whole_requests_inv [OF assms(5,4)] order(1) assms(6) show ?thesis
    by (intro exI [of _ order]) (simp add: of_thread_def)
qed

text \<open>Two clients that forget the id, at a manager without controllers.\<close>

definition idle_office :: "unit mshared" where
  "idle_office = \<lparr>sh_mgr = \<lparr>controllers = [], nextController = 0, m_world = idle_world\<rparr>,
     sh_conn = (\<lambda>t. new_socket (int t + 4)), sh_fault = (\<lambda>_. None)\<rparr>"

definition no_ids :: "nat \<Rightarrow> string list list" where
  "no_ids t = (if t = 0 then [[''kill'']] else if t = 1 then [[''run'']] else [])"

definition silent :: "unit react" where
  "silent bytes r = (([], False), r)"

lemma no_id_whole:
  assumes "cmd = ''kill'' \<or> cmd = ''run''" "clock_ok (m_world (sh_mgr s))" "\<forall>t. sh_fault s t = None"
  shows "(\<forall>u. sh_fault (whole silent (t, [cmd]) s) u = None) \<and> clock_ok (m_world (sh_mgr (whole silent (t, [cmd]) s)))"
proof -
  let ?m = "sh_mgr s"
  obtain out where log: "mlog (log_error ''id not provided'') ?m = (Inr (), ?m\<lparr>m_world := (m_world ?m)\<lparr>w_out := out\<rparr>\<rparr>)"
    using log_output_short [OF assms(2), of "''id not provided''" INFO ERROR]
    by (auto simp: mlog_def zoom_def log_error_def)
  then have "\<exists>conn. mgr_dispatch silent cmd [cmd] \<lparr>ms_mgr = ?m, ms_conn = sh_conn s t, ms_fault = None\<rparr>
      = (Inr (), \<lparr>ms_mgr = ?m\<lparr>m_world := (m_world ?m)\<lparr>w_out := out\<rparr>\<rparr>, ms_conn = conn, ms_fault = None\<rparr>)"
    using assms(1) by (auto simp: mgr_dispatch_def mgr_route_def bnd_def seq_def mg_do_def zoom_def ret_def mg_write_def modify_def)
  then show ?thesis
    using assms(2,3) by (auto simp: whole_def as_handler_def clock_ok_def)
qed

theorem client_requests_serialise_witness:
  "\<exists>(s :: unit mshared sys) order. finished s \<and> (\<forall>t. map snd (filter (\<lambda>e. fst e = t) order) = no_ids t)
    \<and> one_by_one silent order (sh_mgr idle_office, sh_conn idle_office) = Inr (sh_mgr (shared s), sh_conn (shared s))
    \<and> mgr_inv [] (sh_mgr (shared s))"
proof -
  let ?order = "[(0, [''kill'']), (1, [''run''])] :: (nat \<times> string list) list"
  let ?steps = "map (\<lambda>(t, r). (t, locked_steps silent 0 t r)) ?order"
  let ?initial = "system (\<lambda>t. handler (map (locked_steps silent 0 t) (no_ids t))) idle_office"
  let ?s = "?initial\<lparr>todo := (\<lambda>_. []), shared := serial ?steps (shared ?initial)\<rparr>"
  have inv: "mgr_inv [] (sh_mgr idle_office)" by (simp add: mgr_inv_def idle_office_def)
  have run: "tstep\<^sup>*\<^sup>* (system (\<lambda>t. handler (map (locked_steps silent (length ([] :: entry list)) t) (no_ids t))) idle_office) ?s"
    unfolding list.size
    by (rule every_order_possible) (auto simp: system_def no_ids_def requests_of_def)
  have fin: "finished ?s" by (simp add: finished_def)
  have none: "sh_fault (shared ?s) t = None" for t
  proof -
    have "shared ?s = fold (whole silent) ?order idle_office"
      using serial_requests [of "[]" idle_office silent ?order] inv by (simp add: system_def)
    then show ?thesis
      using no_id_whole [of "''kill''" idle_office 0] no_id_whole [of "''run''" "whole silent (0, [''kill'']) idle_office" 1]
      by (simp add: idle_office_def idle_world_def clock_ok_def)
  qed
  have known: "\<forall>t. \<forall>r \<in> set (no_ids t). known_request r" by (simp add: no_ids_def known_request_def)
  have few: "length ([] :: entry list) < 2 ^ 31" by simp
  obtain order where "\<forall>t. map snd (filter (\<lambda>e. fst e = t) order) = no_ids t"
    "one_by_one silent order (sh_mgr idle_office, sh_conn idle_office) = Inr (sh_mgr (shared ?s), sh_conn (shared ?s))"
    "mgr_inv [] (sh_mgr (shared ?s))"
    using client_requests_serialise [OF run fin known inv few none] by (elim exE conjE)
  with fin show ?thesis by - (rule exI [of _ ?s], rule exI [of _ order], intro conjI; assumption)
qed

end
