(* ===== verification/Node_Threads.thy ===== *)
theory Node_Threads
  imports Threads Vm_Controller_Inv
begin

text \<open>
  What the handler threads of one controller node do to its controller, statement by statement:
  \<open>Vm/Controller.hpp\<close> takes the mutex in \<open>instantiate\<close> and \<open>getInstances\<close> but not in \<open>run\<close> and \<open>kill\<close>,
  and the loop of a listing (\<open>controller.cpp\<close>) works on a copy of the map, so their statements are
  interleaved with those of other threads. A value that a statement reads again (the next port, an
  instance) is read again by its step. Run by one thread alone, the steps are the operations of
  \<open>Vm_Controller\<close>.
\<close>

section \<open>Steps\<close>

text \<open>The local variables of a handler thread and the answer of its request, once there is one.\<close>

datatype answer = Success bool | Made inst | Listed "instanceInfo list"

record locals =
  l_port :: int
  l_free :: bool
  l_dir :: string
  l_pid :: int
  l_id :: int \<comment> \<open>of \<open>restore\<close>: its argument and local variables\<close>
  l_kernel :: bool
  l_name :: string
  l_memory :: int
  l_cpus :: int
  l_ssh :: int
  l_append :: string
  l_inst :: "int option" \<comment> \<open>the new instance, by the id it is filed under\<close>
  l_copy :: "(int list \<times> instanceInfo list) option" \<comment> \<open>of a listing: what is left of the copied map, and the rows\<close>
  l_answer :: "answer res option"

type_synonym step = "(controller \<times> locals, unit) M"

definition in_ctl :: "(controller, 'a) M \<Rightarrow> (controller \<times> locals, 'a) M" where
  "in_ctl m = zoom fst (\<lambda>c (_, l). (c, l)) m"

definition assign :: "(locals \<Rightarrow> locals) \<Rightarrow> step" where
  "assign f = modify (\<lambda>(c, l). (c, f l))"

definition finish :: "answer \<Rightarrow> step" where
  "finish a = assign (\<lambda>l. l\<lparr>l_answer := Some (Inr a)\<rparr>)"

text \<open>\<open>instances[id]\<close>, which the code only uses for an id it has looked up.\<close>

definition with_inst :: "int \<Rightarrow> (inst \<Rightarrow> step) \<Rightarrow> step" where
  "with_inst vmid k =
    bnd (gets (\<lambda>(c, _). map_find (instances c) vmid)) (\<lambda>found.
      case found of None \<Rightarrow> fail Undefined | Some i \<Rightarrow> k i)"

definition update_inst :: "int \<Rightarrow> (inst \<Rightarrow> inst) \<Rightarrow> step" where
  "update_inst vmid f = with_inst vmid (\<lambda>i. in_ctl (set_inst vmid (f i)))"

definition look_up :: "int \<Rightarrow> step" where
  "look_up vmid =
    bnd (gets (\<lambda>(c, _). mapExists (instances c) vmid)) (\<lambda>found.
      if found then ret ()
      else seq (in_ctl (onw (log_error (''vm with id '' @ to_string vmid @ '' not found'')))) (finish (Success False)))"

subsection \<open>run\<close>

definition run_check :: "int \<Rightarrow> step" where
  "run_check vmid =
    with_inst vmid (\<lambda>i.
    bnd (gets (\<lambda>(c, _). isRunning (i_process i) (c_world c))) (\<lambda>running.
      if running
      then seq (in_ctl (onw (log_error (''vm with id '' @ to_string vmid @ '' is already running'')))) (finish (Success False))
      else ret ()))"

definition run_probe :: "int \<Rightarrow> step" where
  "run_probe vmid =
    with_inst vmid (\<lambda>i.
    bnd (in_ctl (onw (isPortFree (i_sshPort i)))) (\<lambda>free.
      assign (\<lambda>l. l\<lparr>l_port := i_sshPort i, l_free := free\<rparr>)))"

definition if_taken :: "step \<Rightarrow> step" where
  "if_taken m = bnd (gets (\<lambda>(_, l). l_free l)) (\<lambda>free. if free then ret () else m)"

definition run_warn :: step where
  "run_warn =
    bnd (gets (\<lambda>(_, l). l_port l)) (\<lambda>port.
      in_ctl (onw (log_warn (''port '' @ to_string port @ '' is already in use. searching for other port''))))"

text \<open>\<open>nextPort = findNextPort(nextPort)\<close> is a search followed by an assignment.\<close>

definition pick_port :: step where
  "pick_port =
    bnd (gets (\<lambda>(c, _). nextPort c)) (\<lambda>base.
    bnd (in_ctl (onw (findNextPort base))) (\<lambda>port.
      assign (\<lambda>l. l\<lparr>l_port := port\<rparr>)))"

definition store_port :: step where
  "store_port = bnd (gets (\<lambda>(_, l). l_port l)) (\<lambda>port. in_ctl (modify (\<lambda>c. c\<lparr>nextPort := port\<rparr>)))"

definition run_cookie :: "int \<Rightarrow> step" where
  "run_cookie vmid =
    bnd (gets (\<lambda>(c, _). (mkInstDir (workingDir c) vmid, nextPort c))) (\<lambda>(dir, port).
      in_ctl (onw (cookie_write_int (dir @ ''/.ssh'') port)))"

definition run_assign :: "int \<Rightarrow> step" where
  "run_assign vmid = bnd (gets (\<lambda>(c, _). nextPort c)) (\<lambda>port. update_inst vmid (setSshPort port))"

definition run_info :: step where
  "run_info =
    bnd (gets (\<lambda>(c, _). nextPort c)) (\<lambda>port.
      in_ctl (onw (log_info (''assigned new port '' @ to_string port))))"

text \<open>\<open>Process::run\<close>: the check, \<open>fork\<close>, and the assignment of what it returned.\<close>

definition run_recheck :: "int \<Rightarrow> step" where
  "run_recheck vmid =
    with_inst vmid (\<lambda>i.
    bnd (gets (\<lambda>(c, _). isRunning (i_process i) (c_world c))) (\<lambda>running.
      if running then throw already_running else ret ()))"

definition run_fork :: "os \<Rightarrow> int \<Rightarrow> step" where
  "run_fork os vmid =
    with_inst vmid (\<lambda>i.
    bnd (in_ctl (onw (\<lambda>w. case os_spawn os True (c_str (p_path (i_process i))) (exec_args (p_opts (i_process i))) w of
                            (pid, w') \<Rightarrow> (Inr pid, w')))) (\<lambda>pid.
      assign (\<lambda>l. l\<lparr>l_pid := pid\<rparr>)))"

definition run_remember :: "int \<Rightarrow> step" where
  "run_remember vmid =
    bnd (gets (\<lambda>(_, l). l_pid l)) (\<lambda>pid. update_inst vmid (\<lambda>i. i\<lparr>i_process := (i_process i)\<lparr>p_pid := pid\<rparr>\<rparr>))"

definition run_pid :: "int \<Rightarrow> step" where
  "run_pid vmid =
    with_inst vmid (\<lambda>i.
    bnd (gets (\<lambda>(c, _). mkInstDir (workingDir c) vmid)) (\<lambda>dir.
      in_ctl (onw (cookie_write_int (dir @ ''/.pid'') (getPid (i_process i))))))"

definition start_steps :: "os \<Rightarrow> int \<Rightarrow> step list" where
  "start_steps os vmid =
    [run_recheck vmid, run_fork os vmid, run_remember vmid, run_pid vmid, finish (Success True)]"

definition port_steps :: "int \<Rightarrow> step list" where
  "port_steps vmid =
    [if_taken run_warn, if_taken pick_port, if_taken store_port,
     if_taken (run_cookie vmid), if_taken (run_assign vmid), if_taken run_info]"

definition run_steps :: "os \<Rightarrow> int \<Rightarrow> step list" where
  "run_steps os vmid = look_up vmid # run_check vmid # run_probe vmid # port_steps vmid @ start_steps os vmid"

subsection \<open>kill\<close>

definition kill_check :: "int \<Rightarrow> step" where
  "kill_check vmid =
    with_inst vmid (\<lambda>i.
    bnd (gets (\<lambda>(c, _). isRunning (i_process i) (c_world c))) (\<lambda>running.
      if running then ret () else finish (Success True)))"

definition kill_signal :: "int \<Rightarrow> step" where
  "kill_signal vmid = with_inst vmid (\<lambda>i. in_ctl (onw (Process_kill (i_process i))))"

definition kill_steps :: "int \<Rightarrow> step list" where
  "kill_steps vmid = [look_up vmid, kill_check vmid, kill_signal vmid, finish (Success True)]"

subsection \<open>instantiate\<close>

definition new_id :: step where
  "new_id =
    bnd (gets (\<lambda>(c, _). findNextId c (nextId c))) (\<lambda>found.
    bnd (of_res found) (\<lambda>vmid. in_ctl (modify (\<lambda>c. c\<lparr>nextId := vmid\<rparr>))))"

definition new_dir :: step where
  "new_dir = bnd (gets (\<lambda>(c, _). mkInstDir (workingDir c) (nextId c))) (\<lambda>dir. assign (\<lambda>l. l\<lparr>l_dir := dir\<rparr>))"

definition with_dir :: "(string \<Rightarrow> (world, 'a) M) \<Rightarrow> step" where
  "with_dir f = bnd (gets (\<lambda>(_, l). l_dir l)) (\<lambda>dir. bnd (in_ctl (onw (f dir))) (\<lambda>_. ret ()))"

definition new_port_cookie :: step where
  "new_port_cookie =
    bnd (gets (\<lambda>(c, _). nextPort c)) (\<lambda>port. with_dir (\<lambda>dir. cookie_write_int (dir @ ''/.ssh'') port))"

text \<open>
  \<open>restore(nextId)\<close>. The directory is a local variable of the code, computed from the id and the
  working directory, which never changes; the new instance is shared with the map once it is filed.
\<close>

definition restore_call :: step where
  "restore_call = bnd (gets (\<lambda>(c, _). nextId c)) (\<lambda>vmid. assign (\<lambda>l. l\<lparr>l_id := vmid\<rparr>))"

definition with_own :: "(int \<Rightarrow> string \<Rightarrow> step) \<Rightarrow> step" where
  "with_own k = bnd (gets (\<lambda>(c, l). (l_id l, mkInstDir (workingDir c) (l_id l)))) (\<lambda>(vmid, dir). k vmid dir)"

definition restore_dir :: step where
  "restore_dir =
    with_own (\<lambda>vmid dir. bnd (gets (\<lambda>(c, _). dirExists dir (c_world c))) (\<lambda>isdir.
      if isdir then ret () else throw (restore_error ''instnace with given id does not exist'')))"

definition restore_found :: step where
  "restore_found =
    with_own (\<lambda>vmid dir. bnd (gets (\<lambda>(c, _). map_find (instances c) vmid)) (\<lambda>existing.
      case existing of None \<Rightarrow> ret () | Some i \<Rightarrow> finish (Made i)))"

definition restore_kernel :: step where
  "restore_kernel =
    with_own (\<lambda>vmid dir. bnd (gets (\<lambda>(c, _). w_file (c_world c) (dir @ ''/kernel'') \<noteq> None)) (\<lambda>withKernel.
      assign (\<lambda>l. l\<lparr>l_kernel := withKernel\<rparr>)))"

text \<open>One cookie, in the \<open>try\<close> block whose handler throws.\<close>

definition metadata :: "(world, 'a) M \<Rightarrow> (world, 'a) M" where
  "metadata m = try_catch (\<lambda>_. True) m (\<lambda>_. throw (restore_error ''vm metadata is corrupted''))"

definition restore_read :: "(string \<Rightarrow> (world, 'a) M) \<Rightarrow> ('a \<Rightarrow> locals \<Rightarrow> locals) \<Rightarrow> step" where
  "restore_read f store = with_own (\<lambda>vmid dir. bnd (in_ctl (onw (metadata (f dir)))) (\<lambda>x. assign (store x)))"

definition restore_reads :: "step list" where
  "restore_reads =
    [restore_read (\<lambda>dir. cookie_read_string (dir @ ''/.template'')) (\<lambda>x l. l\<lparr>l_name := x\<rparr>),
     restore_read (\<lambda>dir. cookie_read_int (dir @ ''/.memory'')) (\<lambda>x l. l\<lparr>l_memory := x\<rparr>),
     restore_read (\<lambda>dir. cookie_read_int (dir @ ''/.cpus'')) (\<lambda>x l. l\<lparr>l_cpus := x\<rparr>),
     restore_read (\<lambda>dir. cookie_read_int (dir @ ''/.ssh'')) (\<lambda>x l. l\<lparr>l_ssh := x\<rparr>),
     restore_read (\<lambda>dir. cookie_read_int (dir @ ''/.pid'')) (\<lambda>_ l. l)]"

definition restore_append :: step where
  "restore_append = with_own (\<lambda>vmid dir. bnd (in_ctl (onw (read_append dir))) (\<lambda>x. assign (\<lambda>l. l\<lparr>l_append := x\<rparr>)))"

definition restore_probe :: step where
  "restore_probe =
    bnd (gets (\<lambda>(_, l). l_ssh l)) (\<lambda>port. bnd (in_ctl (onw (isPortFree port))) (\<lambda>free.
      assign (\<lambda>l. l\<lparr>l_free := free\<rparr>)))"

definition restore_cookie :: step where
  "restore_cookie =
    with_own (\<lambda>vmid dir. bnd (gets (\<lambda>(c, _). nextPort c)) (\<lambda>port.
      in_ctl (onw (cookie_write_int (dir @ ''/.ssh'') port))))"

definition restore_assign :: step where
  "restore_assign = bnd (gets (\<lambda>(c, _). nextPort c)) (\<lambda>port. assign (\<lambda>l. l\<lparr>l_ssh := port\<rparr>))"

definition restore_template :: step where
  "restore_template =
    bnd (gets (\<lambda>(c, l). (mapExists (templates c) (l_name l), l_name l))) (\<lambda>(found, name).
      if found then ret () else throw (restore_error (''template '' @ name @ '' is missing'')))"

definition restore_insert :: step where
  "restore_insert =
    with_own (\<lambda>vmid dir. bnd (gets (\<lambda>(c, l). (map_find (templates c) (l_name l), l))) (\<lambda>(templ, l).
      case templ of
        None \<Rightarrow> fail Undefined
      | Some t \<Rightarrow>
          seq (in_ctl (set_inst vmid
                \<lparr>i_id = vmid, i_memory = l_memory l, i_cpus = l_cpus l, i_sshPort = l_ssh l, i_template = t,
                 i_process = Process_new ''/bin/bash''
                   (vmArgs (l_memory l) (l_cpus l) (l_ssh l) (l_kernel l) (dir @ ''/kernel'') (dir @ ''/rootfs.img'')
                      (l_append l))\<rparr>))
              (assign (\<lambda>l. l\<lparr>l_inst := Some vmid\<rparr>))))"

definition with_new :: "(inst \<Rightarrow> step) \<Rightarrow> step" where
  "with_new k =
    bnd (gets (\<lambda>(_, l). l_inst l)) (\<lambda>new. case new of None \<Rightarrow> fail Undefined | Some vmid \<Rightarrow> with_inst vmid k)"

definition restore_log :: step where
  "restore_log =
    with_new (\<lambda>i. with_own (\<lambda>vmid _.
      in_ctl (onw (log_info (''instantiating '' @ t_name (i_template i) @ '' (id '' @ to_string vmid
        @ '') at port '' @ to_string (i_sshPort i))))))"

definition restore_return :: step where
  "restore_return = with_new (\<lambda>i. finish (Made i))"

definition restore_middle :: "step list" where
  "restore_middle =
    restore_dir # restore_found # restore_kernel # restore_reads @
    [restore_append, restore_probe, if_taken pick_port, if_taken store_port, if_taken restore_cookie,
     if_taken restore_assign, restore_template]"

definition restore_steps :: "step list" where
  "restore_steps = restore_call # restore_middle @ [restore_insert, restore_log, restore_return]"

definition file_steps :: "os \<Rightarrow> templ \<Rightarrow> int \<Rightarrow> int \<Rightarrow> step list" where
  "file_steps os templ memory cpus =
    [new_dir,
     with_dir (\<lambda>dir. runAndWait os (Process_new ''/bin/mkdir'' [dir])),
     with_dir (\<lambda>dir. if t_kernelPath templ \<noteq> ''-none-'' then copyFile (t_kernelPath templ) (dir @ ''/kernel'') else ret ()),
     with_dir (\<lambda>dir. copyFile (t_rootfsPath templ) (dir @ ''/rootfs.img'')),
     with_dir (\<lambda>dir. cookie_write_string (dir @ ''/.template'') (t_name templ)),
     with_dir (\<lambda>dir. cookie_write_int (dir @ ''/.memory'') memory),
     with_dir (\<lambda>dir. cookie_write_int (dir @ ''/.cpus'') cpus),
     new_port_cookie,
     with_dir (\<lambda>dir. cookie_write_int (dir @ ''/.pid'') 0)]"

definition new_steps :: "os \<Rightarrow> templ \<Rightarrow> int \<Rightarrow> int \<Rightarrow> step list" where
  "new_steps os templ memory cpus =
    pick_port # store_port # new_id # file_steps os templ memory cpus @ restore_steps"

subsection \<open>getInstances\<close>

text \<open>
  The node's listing calls \<open>getInstances()\<close> twice, each time under the lock, and then walks through
  the second copy without it. The copy shares the instances. The loop is unrolled: \<open>list_done\<close> does
  not answer when it was not unrolled far enough. Without machines the answer is there after the
  first call, and what follows of the listing does nothing.
\<close>

definition list_size :: step where
  "list_size =
    bnd (gets (\<lambda>(c, _). getInstances c)) (\<lambda>is. if is = [] then finish (Listed []) else ret ())"

definition list_copy :: step where
  "list_copy = bnd (gets (\<lambda>(c, _). getInstances c)) (\<lambda>is. assign (\<lambda>l. l\<lparr>l_copy := Some (map fst is, [])\<rparr>))"

definition list_next :: step where
  "list_next =
    bnd (gets (\<lambda>(_, l). l_copy l)) (\<lambda>copy.
      case copy of
        Some (k # ks, rows) \<Rightarrow>
          with_inst k (\<lambda>i. bnd (gets (\<lambda>(c, _). c_world c)) (\<lambda>w.
            assign (\<lambda>l. l\<lparr>l_copy := Some (ks, rows @ [getInstanceInfo i w])\<rparr>)))
      | _ \<Rightarrow> ret ())"

definition list_done :: step where
  "list_done =
    bnd (gets (\<lambda>(_, l). l_copy l)) (\<lambda>copy.
      case copy of Some ([], rows) \<Rightarrow> finish (Listed rows) | _ \<Rightarrow> fail Loops)"

section \<open>Threads\<close>

text \<open>After its answer (or what it failed with) the steps that are left of a request do nothing.\<close>

definition apply_step :: "step \<Rightarrow> controller \<times> locals \<Rightarrow> controller \<times> locals" where
  "apply_step m x =
    (if l_answer (snd x) \<noteq> None then x
     else case m x of (r, c, l) \<Rightarrow>
       (c, case r of Inl f \<Rightarrow> l\<lparr>l_answer := Some (Inl f)\<rparr> | Inr _ \<Rightarrow> l))"

record nthreads =
  nt_ctl :: controller
  nt_locals :: "nat \<Rightarrow> locals"
  nt_answers :: "nat \<Rightarrow> answer res list" \<comment> \<open>of the requests each thread has handled\<close>

definition in_thread :: "nat \<Rightarrow> step \<Rightarrow> nthreads \<Rightarrow> nthreads" where
  "in_thread t m s =
    (case apply_step m (nt_ctl s, nt_locals s t) of (c, l) \<Rightarrow>
       s\<lparr>nt_ctl := c, nt_locals := (nt_locals s)(t := l)\<rparr>)"

definition no_locals :: locals where
  "no_locals = \<lparr>l_port = 0, l_free = False, l_dir = [], l_pid = 0, l_id = 0, l_kernel = False, l_name = [],
     l_memory = 0, l_cpus = 0, l_ssh = 0, l_append = [], l_inst = None, l_copy = None, l_answer = None\<rparr>"

definition leave :: "nat \<Rightarrow> nthreads \<Rightarrow> nthreads" where
  "leave t s =
    s\<lparr>nt_locals := (nt_locals s)(t := no_locals),
      nt_answers := (nt_answers s)(t := nt_answers s t @ (case l_answer (nt_locals s t) of None \<Rightarrow> [] | Some a \<Rightarrow> [a]))\<rparr>"

text \<open>
  The requests (\<open>List n\<close>: a listing of at most \<open>n\<close> machines), and \<open>Outside f\<close>: something else on the
  host changes the world (virtual machines end, ports are taken and released, files change).
\<close>

datatype req = Run int | Kill int | New templ int int | List nat | Outside "world \<Rightarrow> world"

fun acts :: "os \<Rightarrow> nat \<Rightarrow> req \<Rightarrow> nthreads act list" where
  "acts os t (Run vmid) = map (\<lambda>m. Do (in_thread t m)) (run_steps os vmid) @ [Do (leave t)]"
| "acts os t (Kill vmid) = map (\<lambda>m. Do (in_thread t m)) (kill_steps vmid) @ [Do (leave t)]"
| "acts os t (New templ memory cpus) = ScopedLock (map (in_thread t) (new_steps os templ memory cpus)) @ [Do (leave t)]"
| "acts os t (List n) = ScopedLock [in_thread t list_size] @ ScopedLock [in_thread t list_copy]
     @ map (\<lambda>m. Do (in_thread t m)) (replicate n list_next @ [list_done]) @ [Do (leave t)]"
| "acts os t (Outside f) = [Do (\<lambda>s. s\<lparr>nt_ctl := (nt_ctl s)\<lparr>c_world := f (c_world (nt_ctl s))\<rparr>\<rparr>)]"

definition node_program :: "os \<Rightarrow> (nat \<Rightarrow> req list) \<Rightarrow> nat \<Rightarrow> nthreads act list" where
  "node_program os reqs t = concat (map (acts os t) (reqs t))"

definition node_threads :: "controller \<Rightarrow> nthreads" where
  "node_threads c = \<lparr>nt_ctl = c, nt_locals = (\<lambda>_. no_locals), nt_answers = (\<lambda>_. [])\<rparr>"

section \<open>One thread alone\<close>

text \<open>The steps one after another, from a fresh request to its answer.\<close>

definition alone :: "step list \<Rightarrow> controller \<times> locals \<Rightarrow> controller \<times> locals" where
  "alone ms = fold apply_step ms"

definition answers_alone :: "step list \<Rightarrow> controller \<times> locals \<Rightarrow> answer res \<times> controller \<Rightarrow> bool" where
  "answers_alone ms x = (\<lambda>(r, c'). \<exists>l'. alone ms x = (c', l') \<and> l_answer l' = Some r)"

lemma apply_step_done: "l_answer l \<noteq> None \<Longrightarrow> apply_step m (c, l) = (c, l)"
  by (simp add: apply_step_def)

lemma alone_done: "l_answer l \<noteq> None \<Longrightarrow> alone ms (c, l) = (c, l)"
  by (induction ms) (simp_all add: alone_def apply_step_done)

lemma alone_Cons: "alone (m # ms) x = alone ms (apply_step m x)"
  by (simp add: alone_def)

lemma answers_ok:
  "l_answer l = None \<Longrightarrow> m (c, l) = (Inr (), c1, l1) \<Longrightarrow> answers_alone ms (c1, l1) x \<Longrightarrow> answers_alone (m # ms) (c, l) x"
  by (simp add: answers_alone_def alone_Cons apply_step_def)

lemma answers_done:
  "l_answer l = None \<Longrightarrow> m (c, l) = (Inr (), c1, l1) \<Longrightarrow> l_answer l1 = Some r \<Longrightarrow> answers_alone (m # ms) (c, l) (r, c1)"
  by (simp add: answers_alone_def alone_Cons apply_step_def alone_done)

lemma answers_fail:
  "l_answer l = None \<Longrightarrow> m (c, l) = (Inl f, c1, l1) \<Longrightarrow> answers_alone (m # ms) (c, l) (Inl f, c1)"
  by (simp add: answers_alone_def alone_Cons apply_step_def alone_done)

lemma in_ctl_run: "in_ctl m (c, l) = (case m c of (r, c') \<Rightarrow> (r, c', l))"
  by (simp add: in_ctl_def zoom_def)

text \<open>A step that is one call on the controller, then its result used.\<close>

lemma answers_call:
  assumes "l_answer l = None"
    and "\<And>r c'. q c = (r, c') \<Longrightarrow> m (c, l) = (case r of Inl f \<Rightarrow> (Inl f, c', l) | Inr a \<Rightarrow> (Inr (), c', h a l))"
    and "\<And>a c'. q c = (Inr a, c') \<Longrightarrow> answers_alone ms (c', h a l) (k a c')"
  shows "answers_alone (m # ms) (c, l) (bnd q k c)"
proof -
  obtain r c' where q: "q c = (r, c')" by fastforce
  show ?thesis
  proof (cases r)
    case (Inl f)
    with q assms(1,2) show ?thesis by (auto intro: answers_fail simp: bnd_def)
  next
    case (Inr a)
    have "answers_alone (m # ms) (c, l) (k a c')"
      using assms(2) [OF q] assms(1,3) q Inr by (auto intro: answers_ok)
    with q Inr show ?thesis by (simp add: bnd_def)
  qed
qed

lemmas step_simps = bnd_gets with_inst_def update_inst_def if_taken_def in_ctl_run assign_def modify_def ret_def finish_def

lemma answers_in_ctl:
  assumes "l_answer l = None" and "\<And>a c'. q c = (Inr a, c') \<Longrightarrow> answers_alone ms (c', l) (k a c')"
  shows "answers_alone (in_ctl q # ms) (c, l) (bnd q k c)"
  by (rule answers_call [where h = "\<lambda>_ l. l"]) (use assms in \<open>auto simp: in_ctl_run split: sum.split\<close>)

text \<open>Logging that something is wrong and answering no.\<close>

lemma answers_refuse:
  "l_answer l = None \<Longrightarrow> m (c, l) = seq (in_ctl q) (finish a) (c, l) \<Longrightarrow>
   answers_alone (m # ms) (c, l) (seq q (ret a) c)"
  by (cases "q c"; cases "fst (q c)")
    (auto simp: seq_def bnd_def in_ctl_run finish_def assign_def modify_def ret_def intro: answers_fail answers_done)

definition success :: "(controller, bool) M \<Rightarrow> (controller, answer) M" where
  "success m = bnd m (\<lambda>b. ret (Success b))"

lemma success_simps [simp]:
  "success (ret b) = ret (Success b)" "success (bnd m f) = bnd m (\<lambda>x. success (f x))" "success (seq q p) = seq q (success p)"
  by (simp_all add: success_def bnd_assoc seq_def)

lemma success_if: "success (if b then m else m') = (if b then success m else success m')"
  by simp

lemma answers_finish: "l_answer l = None \<Longrightarrow> answers_alone (finish a # ms) (c, l) (ret a c)"
  unfolding ret_def by (rule answers_done, assumption, simp add: step_simps, simp)

lemma answers_yes:
  "l_answer l = None \<Longrightarrow> m (c, l) = finish a (c, l) \<Longrightarrow> answers_alone (m # ms) (c, l) (ret a c)"
  unfolding ret_def by (rule answers_done, assumption, simp add: finish_def assign_def modify_def, simp)

lemma answers_look_up:
  assumes "l_answer l = None"
    and "\<And>i. map_find (instances c) vmid = Some i \<Longrightarrow> answers_alone ms (c, l) (success (f i) c)"
  shows "answers_alone (look_up vmid # ms) (c, l)
    (success (bnd (gets (\<lambda>s. map_find (instances s) vmid)) (\<lambda>found.
       case found of
         None \<Rightarrow> seq (onw (log_error (''vm with id '' @ to_string vmid @ '' not found''))) (ret False)
       | Some i \<Rightarrow> f i)) c)"
proof (cases "map_find (instances c) vmid")
  case None
  then show ?thesis
    by (simp add: bnd_gets del: append.simps append_assoc)
      (rule answers_refuse, rule assms, simp add: look_up_def bnd_gets mapExists_def del: append.simps append_assoc)
next
  case (Some i)
  then show ?thesis
    by (simp add: bnd_gets)
      (rule answers_ok, rule assms, simp add: look_up_def bnd_gets mapExists_def ret_def, rule assms, simp)
qed

text \<open>A step that only goes on.\<close>

lemma answers_on:
  "l_answer l = None \<Longrightarrow> m (c, l) = ret () (c, l) \<Longrightarrow> answers_alone ms (c, l) x \<Longrightarrow> answers_alone (m # ms) (c, l) x"
  by (rule answers_ok) (simp_all add: ret_def)

lemma kill_alone:
  assumes "l_answer l = None"
  shows "answers_alone (kill_steps vmid) (c, l) (success (kill vmid) c)"
  unfolding kill_steps_def kill_def
proof (rule answers_look_up [OF assms])
  fix i
  assume i: "map_find (instances c) vmid = Some i"
  show "answers_alone [kill_check vmid, kill_signal vmid, finish (Success True)] (c, l)
     (success (bnd (gets (\<lambda>s. isRunning (i_process i) (c_world s))) (\<lambda>running.
        if \<not> running then ret True
        else seq (onw (Process_kill (i_process i))) (ret True))) c)"
  proof (cases "isRunning (i_process i) (c_world c)")
    case True
    have "answers_alone [kill_signal vmid, finish (Success True)] (c, l)
        (bnd (onw (Process_kill (i_process i))) (\<lambda>_. ret (Success True)) c)"
      using i assms
      by (intro answers_call [where h = "\<lambda>_ l. l"])
        (auto simp: kill_signal_def bnd_gets with_inst_def in_ctl_run split: sum.split intro: answers_finish)
    with True i assms show ?thesis
      by (simp add: bnd_gets seq_def) (rule answers_on, assumption, simp add: kill_check_def bnd_gets with_inst_def, simp)
  next
    case False
    with i assms show ?thesis
      by (simp add: bnd_gets) (rule answers_yes, assumption, simp add: kill_check_def bnd_gets with_inst_def)
  qed
qed

lemma answers_start:
  assumes "l_answer l = None" "map_find (instances c) vmid = Some i"
  shows "answers_alone (start_steps os vmid) (c, l)
    (success (bnd (onw (Process_run os True (i_process i))) (\<lambda>(pid, process).
       seq (set_inst vmid (i\<lparr>i_process := process\<rparr>))
       (seq (onw (cookie_write_int (mkInstDir (workingDir c) vmid @ ''/.pid'') (getPid process))) (ret True)))) c)"
proof (cases "isRunning (i_process i) (c_world c)")
  case True
  then have run: "onw (Process_run os True (i_process i)) c = (Inl (Throws already_running), c)"
    by (simp add: onw_run Process_run_eq)
  show ?thesis
    unfolding start_steps_def success_simps bnd_Inl [of "onw _", OF run]
    by (rule answers_fail, rule assms, simp add: run_recheck_def bnd_gets with_inst_def throw_def fail_def assms True)
next
  case False
  let ?p = "i_process i"
  obtain pid w where spawn: "os_spawn os True (c_str (p_path ?p)) (exec_args (p_opts ?p)) (c_world c) = (pid, w)"
    by fastforce
  let ?c1 = "c\<lparr>c_world := w\<rparr>" and ?l = "l\<lparr>l_pid := pid\<rparr>" and ?i = "i\<lparr>i_process := ?p\<lparr>p_pid := pid\<rparr>\<rparr>"
  let ?c2 = "?c1\<lparr>instances := map_put vmid ?i (instances c)\<rparr>"
  have "answers_alone [run_pid vmid, finish (Success True)] (?c2, ?l)
      (bnd (onw (cookie_write_int (mkInstDir (workingDir c) vmid @ ''/.pid'') pid)) (\<lambda>_. ret (Success True)) ?c2)"
    using assms(1)
    by (intro answers_call [where h = "\<lambda>_ l. l"])
      (auto simp: run_pid_def bnd_gets with_inst_def in_ctl_run map_find_put_eq getPid_def split: sum.split intro: answers_finish)
  then have "answers_alone (start_steps os vmid) (c, l)
      (bnd (onw (cookie_write_int (mkInstDir (workingDir c) vmid @ ''/.pid'') pid)) (\<lambda>_. ret (Success True)) ?c2)"
    unfolding start_steps_def
    apply -
    apply (rule answers_on, rule assms, simp add: run_recheck_def bnd_gets with_inst_def assms False)
    apply (rule answers_ok [of _ _ _ ?c1 ?l], rule assms,
        simp add: run_fork_def bnd_gets with_inst_def assms in_ctl_run onw_run spawn bnd_def assign_def modify_def gets_def)
    apply (rule answers_ok [of _ _ _ ?c2 ?l], simp add: assms,
        simp add: run_remember_def update_inst_def bnd_gets with_inst_def assms in_ctl_run set_inst_def modify_def)
    apply assumption
    done
  moreover have "onw (Process_run os True ?p) c = (Inr (pid, ?p\<lparr>p_pid := pid\<rparr>), ?c1)"
    using False spawn by (simp add: onw_run Process_run_eq)
  moreover have "set_inst vmid ?i ?c1 = (Inr (), ?c2)" by (simp add: set_inst_def modify_def)
  ultimately show ?thesis by (simp add: bnd_Inr seq_Inr getPid_def) (simp add: seq_def)
qed

lemma answers_skip:
  "l_answer l = None \<Longrightarrow> l_free l \<Longrightarrow> answers_alone ms (c, l) x \<Longrightarrow> answers_alone (if_taken m # ms) (c, l) x"
  by (rule answers_on) (simp_all add: if_taken_def bnd_gets)

lemma answers_plain:
  "l_answer l = None \<Longrightarrow> (\<And>r c'. q c = (r, c') \<Longrightarrow> m (c, l) = (r, c', l)) \<Longrightarrow>
   (\<And>u c'. q c = (Inr u, c') \<Longrightarrow> answers_alone ms (c', l) (k u c')) \<Longrightarrow>
   answers_alone (m # ms) (c, l) (bnd q k c)"
  by (rule answers_call [where h = "\<lambda>_ l. l"]) (auto split: sum.split)

lemma onw_state: "onw m c = (r, c') \<Longrightarrow> \<exists>w. c' = c\<lparr>c_world := w\<rparr>"
  by (auto simp: onw_run split: prod.splits)

lemma modify_state: "modify f c = (r, c') \<Longrightarrow> c' = f c"
  by (auto simp: modify_def)

lemma port_steps_append:
  "port_steps vmid @ ms = if_taken run_warn # if_taken pick_port # if_taken store_port #
     if_taken (run_cookie vmid) # if_taken (run_assign vmid) # if_taken run_info # ms"
  by (simp add: port_steps_def)

text \<open>A port that is taken: the search, and the new port in the controller, the cookie and the instance.\<close>

lemma answers_new_port:
  assumes "l_answer l = None" "\<not> l_free l" "l_port l = i_sshPort i" "map_find (instances c) vmid = Some i"
    and dir: "mkInstDir (workingDir c) vmid = dir"
    and start: "\<And>c l i. l_answer l = None \<Longrightarrow> map_find (instances c) vmid = Some i \<Longrightarrow>
      mkInstDir (workingDir c) vmid = dir \<Longrightarrow> answers_alone ms (c, l) (f i c)"
  shows "answers_alone (port_steps vmid @ ms) (c, l)
    (seq (onw (log_warn (''port '' @ to_string (i_sshPort i) @ '' is already in use. searching for other port'')))
      (bnd advancePort (\<lambda>port.
       seq (onw (cookie_write_int (dir @ ''/.ssh'') port))
       (seq (set_inst vmid (setSshPort port i))
       (seq (onw (log_info (''assigned new port '' @ to_string port))) (f (setSshPort port i)))))) c)"
proof -
  note st = if_taken_def bnd_gets in_ctl_run assms(1,2)
  show ?thesis
    unfolding seq_def advancePort_def bnd_assoc port_steps_append
    apply (rule answers_plain, rule assms, simp add: st assms run_warn_def del: append.simps append_assoc)
    apply (drule onw_state, elim exE, hypsubst, unfold bnd_gets bnd_ret)
    apply (rule answers_call [where h = "\<lambda>port l. l\<lparr>l_port := port\<rparr>"], rule assms)
     apply (simp add: pick_port_def st bnd_def gets_def assign_def modify_def split: sum.split)
    apply (drule onw_state, elim exE, hypsubst)
    apply (rule answers_plain, simp add: st, simp add: st store_port_def)
    apply (drule modify_state, hypsubst)
    apply (rule answers_plain, simp add: st, simp add: st run_cookie_def dir)
    apply (drule onw_state, elim exE, hypsubst)
    apply (rule answers_plain, simp add: st, simp add: st run_assign_def update_inst_def with_inst_def assms(4))
    apply (unfold set_inst_def, drule modify_state, hypsubst)
    apply (rule answers_plain, simp add: st, simp add: st run_info_def del: append.simps append_assoc)
    apply (drule onw_state, elim exE, hypsubst)
    apply (rule start)
      apply (simp_all add: st map_find_put_eq dir)
    done
qed

definition new_port :: "int \<Rightarrow> string \<Rightarrow> inst \<Rightarrow> (controller, inst) M" where
  "new_port vmid dir i =
    seq (onw (log_warn (''port '' @ to_string (i_sshPort i) @ '' is already in use. searching for other port'')))
      (bnd advancePort (\<lambda>port.
       seq (onw (cookie_write_int (dir @ ''/.ssh'') port))
       (seq (set_inst vmid (setSshPort port i))
       (seq (onw (log_info (''assigned new port '' @ to_string port))) (ret (setSshPort port i))))))"

lemma answers_probe:
  assumes "l_answer l = None" and i: "map_find (instances c) vmid = Some i"
    and dir: "mkInstDir (workingDir c) vmid = dir"
    and start: "\<And>c l i. l_answer l = None \<Longrightarrow> map_find (instances c) vmid = Some i \<Longrightarrow>
      mkInstDir (workingDir c) vmid = dir \<Longrightarrow> answers_alone ms (c, l) (f i c)"
  shows "answers_alone (run_probe vmid # port_steps vmid @ ms) (c, l)
    (bnd (onw (isPortFree (i_sshPort i))) (\<lambda>free. bnd (if free then ret i else new_port vmid dir i) f) c)"
proof (rule answers_call [where h = "\<lambda>free l. l\<lparr>l_port := i_sshPort i, l_free := free\<rparr>"], rule assms)
  fix r c'
  assume "onw (isPortFree (i_sshPort i)) c = (r, c')"
  then show "run_probe vmid (c, l)
    = (case r of Inl f \<Rightarrow> (Inl f, c', l) | Inr free \<Rightarrow> (Inr (), c', l\<lparr>l_port := i_sshPort i, l_free := free\<rparr>))"
    by (simp add: run_probe_def with_inst_def gets_def i in_ctl_run bnd_def assign_def modify_def split: sum.split)
next
  fix free c'
  let ?l = "l\<lparr>l_port := i_sshPort i, l_free := free\<rparr>"
  assume "onw (isPortFree (i_sshPort i)) c = (Inr free, c')"
  then obtain w where c': "c' = c\<lparr>c_world := w\<rparr>" using onw_state by blast
  show "answers_alone (port_steps vmid @ ms) (c', ?l) (bnd (if free then ret i else new_port vmid dir i) f c')"
  proof (cases free)
    case True
    then show ?thesis
      using assms by (simp add: c' answers_skip port_steps_append)
  next
    case False
    then show ?thesis
      using answers_new_port [of ?l i c' vmid dir ms f] assms
      by (simp add: c' new_port_def seq_def bnd_assoc del: append.simps append_assoc)
  qed
qed

text \<open>Handled by one thread alone, the steps of a request are the operation of the controller.\<close>

lemma run_alone:
  assumes "l_answer l = None"
  shows "answers_alone (run_steps os vmid) (c, l) (success (run os vmid) c)"
  unfolding run_steps_def run_def
proof (rule answers_look_up [OF assms], fold new_port_def)
  fix i
  assume i: "map_find (instances c) vmid = Some i"
  let ?refuse = "seq (onw (log_error (''vm with id '' @ to_string vmid @ '' is already running''))) (ret False)"
  let ?start = "\<lambda>dir i. bnd (onw (Process_run os True (i_process i))) (\<lambda>(pid, process).
      seq (set_inst vmid (i\<lparr>i_process := process\<rparr>))
      (seq (onw (cookie_write_int (dir @ ''/.pid'') (getPid process))) (ret True)))"
  show "answers_alone (run_check vmid # run_probe vmid # port_steps vmid @ start_steps os vmid) (c, l)
    (success (bnd (gets (\<lambda>s. isRunning (i_process i) (c_world s))) (\<lambda>running.
       if running then ?refuse
       else bnd (gets (\<lambda>s. mkInstDir (workingDir s) vmid)) (\<lambda>dir.
            bnd (onw (isPortFree (i_sshPort i))) (\<lambda>free.
            bnd (if free then ret i else new_port vmid dir i) (?start dir))))) c)"
  proof (cases "isRunning (i_process i) (c_world c)")
    case True
    then show ?thesis
      unfolding success_simps bnd_gets if_P [OF True]
      by (intro answers_refuse assms) (simp add: run_check_def bnd_gets with_inst_def i del: append.simps append_assoc)
  next
    case False
    show ?thesis
      unfolding success_simps(2) bnd_gets if_not_P [OF False]
    proof (rule answers_on, rule assms, simp add: run_check_def bnd_gets with_inst_def i False,
        rule answers_probe [OF assms i refl], goal_cases)
      case (1 c1 l1 i1)
      then show ?case using answers_start [of l1 c1 vmid i1 os] by simp
    qed
  qed
qed

text \<open>A step that is one call under \<open>with_dir\<close>.\<close>

lemma answers_with_dir:
  "l_answer l = None \<Longrightarrow> l_dir l = dir \<Longrightarrow> (\<And>a c'. onw (f dir) c = (Inr a, c') \<Longrightarrow> answers_alone ms (c', l) (k a c')) \<Longrightarrow>
   answers_alone (with_dir f # ms) (c, l) (bnd (onw (f dir)) k c)"
  by (rule answers_call [where h = "\<lambda>_ l. l"])
    (auto simp: with_dir_def gets_def bnd_def in_ctl_run ret_def split: sum.split)

definition made :: "(controller, inst) M \<Rightarrow> (controller, answer) M" where
  "made m = bnd m (\<lambda>i. ret (Made i))"

lemma onw_ret: "onw (ret a) = ret a"
  by (rule ext) (simp add: onw_run ret_def)

lemma kernel_copy:
  "(if t_kernelPath t \<noteq> ''-none-'' then onw (copyFile (t_kernelPath t) (dir @ ''/kernel'')) else ret ())
    = onw (if t_kernelPath t \<noteq> ''-none-'' then copyFile (t_kernelPath t) (dir @ ''/kernel'') else ret ())"
  by (simp add: onw_ret)

lemma bnd_cong1: "m s = m' s \<Longrightarrow> bnd m f s = bnd m' f s"
  by (simp add: bnd_def)

text \<open>The statements of \<open>restore\<close>.\<close>

lemma metadata_bnd: "metadata (bnd m f) = bnd (metadata m) (\<lambda>a. metadata (f a))"
proof
  fix s
  obtain r s' where m: "m s = (r, s')" by fastforce
  show "metadata (bnd m f) s = bnd (metadata m) (\<lambda>a. metadata (f a)) s"
  proof (cases r)
    case (Inl e)
    with m show ?thesis by (cases e) (simp_all add: metadata_def try_catch_def bnd_def throw_def fail_def)
  qed (use m in \<open>simp add: metadata_def try_catch_def bnd_def\<close>)
qed

lemma metadata_ret: "metadata (ret a) = ret a"
  by (simp add: metadata_def try_catch_def ret_def)

lemma onw_bnd: "onw (bnd m f) = bnd (onw m) (\<lambda>a. onw (f a))"
  by (rule ext) (simp add: onw_run bnd_def split: prod.split sum.split)

lemma read_metadata_split:
  "onw (read_metadata dir) =
    bnd (onw (metadata (cookie_read_string (dir @ ''/.template'')))) (\<lambda>tempName.
    bnd (onw (metadata (cookie_read_int (dir @ ''/.memory'')))) (\<lambda>memory.
    bnd (onw (metadata (cookie_read_int (dir @ ''/.cpus'')))) (\<lambda>cpus.
    bnd (onw (metadata (cookie_read_int (dir @ ''/.ssh'')))) (\<lambda>sshPort.
    bnd (onw (metadata (cookie_read_int (dir @ ''/.pid'')))) (\<lambda>pid.
      ret (tempName, memory, cpus, sshPort, pid))))))"
  unfolding read_metadata_def metadata_def [symmetric] by (simp only: metadata_bnd metadata_ret onw_bnd onw_ret)

lemma answers_read:
  assumes "l_answer l = None" "l_id l = vmid" "mkInstDir (workingDir c) vmid = dir"
    and "\<And>a c'. onw (metadata (f dir)) c = (Inr a, c') \<Longrightarrow> answers_alone ms (c', store a l) (k a c')"
  shows "answers_alone (restore_read f store # ms) (c, l) (bnd (onw (metadata (f dir))) k c)"
  by (rule answers_call [where h = store])
    (use assms in \<open>auto simp: restore_read_def with_own_def gets_def bnd_def in_ctl_run assign_def modify_def split: sum.split\<close>)

definition file_new :: "int \<Rightarrow> string \<Rightarrow> bool \<Rightarrow> string \<Rightarrow> int \<Rightarrow> int \<Rightarrow> string \<Rightarrow> int \<Rightarrow> (controller, inst) M" where
  "file_new vmid dir withKernel tempName memory cpus appendStr sshPort =
    bnd (gets (\<lambda>s. map_find (templates s) tempName)) (\<lambda>templ.
      case templ of
        None \<Rightarrow> throw (restore_error (''template '' @ tempName @ '' is missing''))
      | Some t \<Rightarrow>
          (let process = Process_new ''/bin/bash''
                 (vmArgs memory cpus sshPort withKernel (dir @ ''/kernel'') (dir @ ''/rootfs.img'') appendStr);
               i = \<lparr>i_id = vmid, i_memory = memory, i_cpus = cpus, i_sshPort = sshPort, i_template = t, i_process = process\<rparr>
           in seq (set_inst vmid i)
              (seq (onw (log_info (''instantiating '' @ t_name t @ '' (id '' @ to_string vmid
                      @ '') at port '' @ to_string sshPort)))
               (ret i))))"

lemma answers_file_new:
  assumes "l_answer l = None" "l_id l = vmid" "mkInstDir (workingDir c) vmid = dir" "l_ssh l = sshPort"
    and same: "l_name l = tempName" "l_memory l = memory" "l_cpus l = cpus" "l_kernel l = withKernel" "l_append l = appendStr"
  shows "answers_alone [restore_template, restore_insert, restore_log, restore_return] (c, l) (made (file_new vmid dir withKernel tempName memory cpus appendStr sshPort) c)"
proof (cases "map_find (templates c) (l_name l)")
  case None
  then have "made (file_new vmid dir withKernel tempName memory cpus appendStr sshPort) c = (Inl (Throws (restore_error (''template '' @ l_name l @ '' is missing''))), c)"
    using same(1) by (simp add: made_def file_new_def bnd_gets bnd_Inl throw_def fail_def del: append.simps append_assoc)
  with None show ?thesis
    by (simp del: append.simps append_assoc)
      (rule answers_fail, rule assms, simp add: restore_template_def bnd_gets mapExists_def throw_def fail_def del: append.simps append_assoc)
next
  case (Some t)
  let ?i = "\<lparr>i_id = vmid, i_memory = l_memory l, i_cpus = l_cpus l, i_sshPort = sshPort, i_template = t,
    i_process = Process_new ''/bin/bash'' (vmArgs (l_memory l) (l_cpus l) sshPort (l_kernel l)
       (dir @ ''/kernel'') (dir @ ''/rootfs.img'') (l_append l))\<rparr>"
  let ?l = "l\<lparr>l_inst := Some vmid\<rparr>" and ?c = "c\<lparr>instances := map_put vmid ?i (instances c)\<rparr>"
  let ?log = "log_info (''instantiating '' @ t_name t @ '' (id '' @ to_string vmid @ '') at port '' @ to_string sshPort)"
  have log: "answers_alone [restore_log, restore_return] (?c, ?l) (bnd (onw ?log) (\<lambda>_. ret (Made ?i)) ?c)"
  proof (rule answers_plain)
    show "l_answer ?l = None" using assms by simp
    show "restore_log (?c, ?l) = (r, c', ?l)" if "onw ?log ?c = (r, c')" for r c'
      using that assms(2) by (simp add: restore_log_def with_new_def with_own_def with_inst_def bnd_gets in_ctl_run map_find_put_eq
          del: append.simps append_assoc)
    show "answers_alone [restore_return] (c', ?l) (ret (Made ?i) c')" if "onw ?log ?c = (Inr u, c')" for u c'
      using onw_state [OF that] assms(1)
      by (elim exE, intro answers_yes) (simp_all add: restore_return_def with_new_def with_inst_def bnd_gets map_find_put_eq)
  qed
  have insert: "restore_insert (c, l) = (Inr (), ?c, ?l)"
    using Some assms by (simp add: restore_insert_def with_own_def gets_def seq_def bnd_def in_ctl_run set_inst_def modify_def assign_def)
  have found: "restore_template (c, l) = ret () (c, l)"
    using Some by (simp add: restore_template_def bnd_gets mapExists_def)
  have "answers_alone [restore_template, restore_insert, restore_log, restore_return] (c, l) (bnd (onw ?log) (\<lambda>_. ret (Made ?i)) ?c)"
    by (rule answers_on, rule assms, rule found, rule answers_ok, rule assms, rule insert, rule log)
  moreover have "made (file_new vmid dir withKernel tempName memory cpus appendStr sshPort) c = bnd (onw ?log) (\<lambda>_. ret (Made ?i)) ?c"
    using Some same
    by (simp add: made_def file_new_def bnd_gets seq_def bnd_assoc Let_def bnd_Inr set_inst_def modify_def del: append.simps append_assoc)
  ultimately show ?thesis by simp
qed

text \<open>The port of the cookie, or the next free one, which the cookie then gets.\<close>

lemma answers_own_port:
  assumes "l_answer l = None" "l_id l = vmid" "mkInstDir (workingDir c) vmid = dir" "l_ssh l = sshPort"
    and rest: "\<And>c l'. l_answer l' = None \<Longrightarrow> l_id l' = vmid \<Longrightarrow> mkInstDir (workingDir c) vmid = dir \<Longrightarrow>
      l_name l' = l_name l \<Longrightarrow> l_memory l' = l_memory l \<Longrightarrow> l_cpus l' = l_cpus l \<Longrightarrow> l_kernel l' = l_kernel l \<Longrightarrow>
      l_append l' = l_append l \<Longrightarrow> answers_alone ms (c, l') (k (l_ssh l') c)"
  shows "answers_alone (restore_probe # if_taken pick_port # if_taken store_port # if_taken restore_cookie # if_taken restore_assign # ms) (c, l)
    (bnd (onw (isPortFree sshPort)) (\<lambda>free.
     bnd (if free then ret sshPort
          else bnd advancePort (\<lambda>port. seq (onw (cookie_write_int (dir @ ''/.ssh'') port)) (ret port))) k) c)"
proof (rule answers_call [where h = "\<lambda>free l. l\<lparr>l_free := free\<rparr>"], rule assms)
  show "restore_probe (c, l) = (case r of Inl f \<Rightarrow> (Inl f, c', l) | Inr free \<Rightarrow> (Inr (), c', l\<lparr>l_free := free\<rparr>))"
    if "onw (isPortFree sshPort) c = (r, c')" for r c'
    using that assms(4) by (simp add: restore_probe_def gets_def in_ctl_run bnd_def assign_def modify_def split: sum.split)
next
  fix free c'
  let ?l = "l\<lparr>l_free := free\<rparr>"
  assume "onw (isPortFree sshPort) c = (Inr free, c')"
  then obtain w where c': "c' = c\<lparr>c_world := w\<rparr>" using onw_state by blast
  show "answers_alone (if_taken pick_port # if_taken store_port # if_taken restore_cookie # if_taken restore_assign # ms) (c', ?l)
    (bnd (if free then ret sshPort
          else bnd advancePort (\<lambda>port. seq (onw (cookie_write_int (dir @ ''/.ssh'') port)) (ret port))) k c')"
  proof (cases free)
    case True
    then show ?thesis using assms(1-4) rest [of ?l c'] by (simp add: c' answers_skip)
  next
    case False
    note st = assms(1,2) False and st' = if_taken_def bnd_gets in_ctl_run assms(1,2) False
    show ?thesis
      unfolding if_not_P [OF False] seq_def advancePort_def bnd_assoc bnd_ret bnd_gets
      apply (rule answers_call [where h = "\<lambda>port l. l\<lparr>l_port := port\<rparr>"], simp add: st)
       apply (simp add: pick_port_def st' bnd_def gets_def assign_def modify_def split: sum.split)
      apply (drule onw_state, elim exE, hypsubst)
      apply (rule answers_plain, simp add: st, simp add: st' store_port_def)
      apply (drule modify_state, hypsubst)
      apply (rule answers_plain, simp add: st, simp add: st' restore_cookie_def with_own_def c' assms(3))
      apply (drule onw_state, elim exE, hypsubst)
      subgoal for port
        apply (rule answers_ok [of _ _ _ _ "?l\<lparr>l_port := port, l_ssh := port\<rparr>"], simp add: st)
         apply (simp add: st' restore_assign_def assign_def modify_def)
        using rest [of "?l\<lparr>l_port := port, l_ssh := port\<rparr>"] assms(1-4)
        apply (fastforce simp: c')
        done
      done
  qed
qed

lemma answers_restore:
  assumes "l_answer l = None" "nextId c = vmid"
  shows "answers_alone restore_steps (c, l) (made (restore vmid) c)"
proof -
  let ?dir = "mkInstDir (workingDir c) vmid" and ?l = "l\<lparr>l_id := vmid\<rparr>"
  note st = with_own_def bnd_gets in_ctl_run
  have "answers_alone (restore_middle @ [restore_insert, restore_log, restore_return]) (c, ?l) (made (restore vmid) c)"
  proof (cases "dirExists ?dir (c_world c)")
    case False
    then have "made (restore vmid) c = (Inl (Throws (restore_error ''instnace with given id does not exist'')), c)"
      by (simp add: made_def restore_def bnd_gets bnd_Inl throw_def fail_def)
    with False assms show ?thesis
      by (simp add: restore_middle_def) (rule answers_fail, simp, simp add: restore_dir_def st throw_def fail_def)
  next
    case isdir: True
    show ?thesis
    proof (cases "map_find (instances c) vmid")
      case (Some i)
      with isdir have "made (restore vmid) c = (Inr (Made i), c)"
        by (simp add: made_def restore_def bnd_gets bnd_Inr ret_def)
      with Some isdir assms show ?thesis
        by (simp add: restore_middle_def)
          (rule answers_on, simp, simp add: restore_dir_def st,
           rule answers_done, simp, simp add: restore_found_def st finish_def assign_def modify_def, simp)
    next
      case None
      let ?withKernel = "w_file (c_world c) (?dir @ ''/kernel'') \<noteq> None"
      let ?l1 = "?l\<lparr>l_kernel := ?withKernel\<rparr>"
      have restore: "restore vmid c =
        bnd (onw (metadata (cookie_read_string (?dir @ ''/.template'')))) (\<lambda>tempName.
        bnd (onw (metadata (cookie_read_int (?dir @ ''/.memory'')))) (\<lambda>memory.
        bnd (onw (metadata (cookie_read_int (?dir @ ''/.cpus'')))) (\<lambda>cpus.
        bnd (onw (metadata (cookie_read_int (?dir @ ''/.ssh'')))) (\<lambda>sshPort.
        bnd (onw (metadata (cookie_read_int (?dir @ ''/.pid'')))) (\<lambda>pid.
        bnd (onw (read_append ?dir)) (\<lambda>appendStr.
        bnd (onw (isPortFree sshPort)) (\<lambda>free.
        bnd (if free then ret sshPort
             else bnd advancePort (\<lambda>port. seq (onw (cookie_write_int (?dir @ ''/.ssh'') port)) (ret port))) (\<lambda>sshPort.
          file_new vmid ?dir ?withKernel tempName memory cpus appendStr sshPort)))))))) c"
        using isdir None unfolding restore_def file_new_def Let_def
        by (simp add: bnd_gets read_metadata_split bnd_assoc bnd_ret del: append.simps append_assoc)
      have "made (restore vmid) c =
        bnd (onw (metadata (cookie_read_string (?dir @ ''/.template'')))) (\<lambda>tempName.
        bnd (onw (metadata (cookie_read_int (?dir @ ''/.memory'')))) (\<lambda>memory.
        bnd (onw (metadata (cookie_read_int (?dir @ ''/.cpus'')))) (\<lambda>cpus.
        bnd (onw (metadata (cookie_read_int (?dir @ ''/.ssh'')))) (\<lambda>sshPort.
        bnd (onw (metadata (cookie_read_int (?dir @ ''/.pid'')))) (\<lambda>pid.
        bnd (onw (read_append ?dir)) (\<lambda>appendStr.
        bnd (onw (isPortFree sshPort)) (\<lambda>free.
        bnd (if free then ret sshPort
             else bnd advancePort (\<lambda>port. seq (onw (cookie_write_int (?dir @ ''/.ssh'') port)) (ret port))) (\<lambda>sshPort.
          made (file_new vmid ?dir ?withKernel tempName memory cpus appendStr sshPort))))))))) c"
        unfolding made_def by (rule trans [OF bnd_cong1], rule restore, simp only: bnd_assoc)
      then show ?thesis
        unfolding restore_middle_def restore_reads_def append.simps
        apply (simp only:)
        apply (rule answers_on, simp add: assms, simp add: restore_dir_def st isdir)
        apply (rule answers_on, simp add: assms, simp add: restore_found_def st None)
        apply (rule answers_ok [of _ _ _ c ?l1], simp add: assms, simp add: restore_kernel_def st assign_def modify_def)
        apply (rule answers_read, simp add: assms, simp, simp, drule onw_state, elim exE, hypsubst)
        apply (rule answers_read, simp add: assms, simp, simp, drule onw_state, elim exE, hypsubst)
        apply (rule answers_read, simp add: assms, simp, simp, drule onw_state, elim exE, hypsubst)
        apply (rule answers_read, simp add: assms, simp, simp, drule onw_state, elim exE, hypsubst)
        apply (rule answers_read, simp add: assms, simp, simp, drule onw_state, elim exE, hypsubst)
        apply (rule answers_call [where h = "\<lambda>x l. l\<lparr>l_append := x\<rparr>"], simp add: assms)
         apply (simp add: restore_append_def with_own_def gets_def in_ctl_run bnd_def assign_def modify_def split: sum.split)
        apply (drule onw_state, elim exE, hypsubst)
        apply (rule answers_own_port, simp add: assms, simp, simp, simp)
        apply (rule answers_file_new; simp)
        done
    qed
  qed
  then show ?thesis
    unfolding restore_steps_def using assms
    by (intro answers_ok [of _ _ _ c ?l]) (simp_all add: restore_call_def bnd_gets assign_def modify_def)
qed

text \<open>The part of \<open>instantiate\<close> after the id is found: one call after the other in the new directory.\<close>

lemma answers_files:
  assumes "l_answer l = None" "nextPort c = port" "nextId c = vmid"
  shows "answers_alone (file_steps os t memory cpus @ restore_steps) (c, l)
    (made (bnd (gets (\<lambda>s. mkInstDir (workingDir s) vmid)) (\<lambda>dir.
       bnd (onw (runAndWait os (Process_new ''/bin/mkdir'' [dir]))) (\<lambda>_.
       seq (if t_kernelPath t \<noteq> ''-none-'' then onw (copyFile (t_kernelPath t) (dir @ ''/kernel'')) else ret ())
       (seq (onw (copyFile (t_rootfsPath t) (dir @ ''/rootfs.img'')))
       (seq (onw (cookie_write_string (dir @ ''/.template'') (t_name t)))
       (seq (onw (cookie_write_int (dir @ ''/.memory'') memory))
       (seq (onw (cookie_write_int (dir @ ''/.cpus'') cpus))
       (seq (onw (cookie_write_int (dir @ ''/.ssh'') port))
       (seq (onw (cookie_write_int (dir @ ''/.pid'') 0)) (restore vmid)))))))))) c)"
proof -
  let ?dir = "mkInstDir (workingDir c) vmid"
  let ?l = "l\<lparr>l_dir := ?dir\<rparr>"
  have port: "answers_alone (new_port_cookie # ms) (c', ?l) (bnd (onw (cookie_write_int (?dir @ ''/.ssh'') port)) k c')"
    if "nextPort c' = port" "\<And>u c1. onw (cookie_write_int (?dir @ ''/.ssh'') port) c' = (Inr u, c1) \<Longrightarrow> answers_alone ms (c1, ?l) (k u c1)"
    for ms c' and k :: "unit \<Rightarrow> (controller, answer) M"
    using that assms(1)
    by (intro answers_plain) (auto simp: new_port_cookie_def with_dir_def bnd_gets in_ctl_run bnd_def ret_def gets_def split: sum.split)
  show ?thesis
    unfolding made_def seq_def bnd_assoc kernel_copy bnd_gets file_steps_def append.simps
    apply (rule answers_ok [of _ _ _ c ?l], rule assms, simp add: new_dir_def bnd_gets assign_def modify_def assms(3))
    apply (rule answers_with_dir, simp add: assms, simp, drule onw_state, elim exE, hypsubst)
    apply (rule answers_with_dir, simp add: assms, simp, drule onw_state, elim exE, hypsubst)
    apply (rule answers_with_dir, simp add: assms, simp, drule onw_state, elim exE, hypsubst)
    apply (rule answers_with_dir, simp add: assms, simp, drule onw_state, elim exE, hypsubst)
    apply (rule answers_with_dir, simp add: assms, simp, drule onw_state, elim exE, hypsubst)
    apply (rule answers_with_dir, simp add: assms, simp, drule onw_state, elim exE, hypsubst)
    apply (rule port, simp add: assms, drule onw_state, elim exE, hypsubst)
    apply (rule answers_with_dir, simp add: assms, simp, drule onw_state, elim exE, hypsubst)
    apply (rule answers_restore [unfolded made_def]; simp add: assms)
    done
qed

lemma new_alone:
  assumes "l_answer l = None"
  shows "answers_alone (new_steps os t memory cpus) (c, l) (made (instantiate os t memory cpus) c)"
proof -
  note st = in_ctl_run bnd_gets assms
  show ?thesis
    unfolding made_def instantiate_def advancePort_def seq_def bnd_assoc bnd_gets new_steps_def
    apply (rule answers_call [where h = "\<lambda>port l. l\<lparr>l_port := port\<rparr>"], rule assms)
     apply (simp add: pick_port_def st bnd_def gets_def assign_def modify_def split: sum.split)
    apply (drule onw_state, elim exE, hypsubst)
    apply (rule answers_plain, simp add: st, simp add: st store_port_def)
    apply (drule modify_state, hypsubst, unfold bnd_ret bnd_gets)
    subgoal for port c2 w u
      apply (cases "findNextId (c\<lparr>c_world := w, nextPort := port\<rparr>) (nextId c)")
       apply (simp add: bnd_Inl del: append.simps append_assoc)
       apply (rule answers_fail, simp add: assms, simp add: new_id_def bnd_gets)
      apply (simp del: append.simps append_assoc)
      apply (rule answers_plain, simp add: st, simp add: st new_id_def)
      apply (drule modify_state, hypsubst)
      apply (rule answers_files [unfolded made_def seq_def bnd_assoc bnd_gets])
      apply (simp_all add: assms)
      done
    done
qed

section \<open>Properties\<close>


end
