(* ===== verification/Concurrent_Node.thy ===== *)
theory Concurrent_Node
  imports Node_Threads Vm_Controller_Ops
begin

text \<open>
  A controller node whose handler threads are interleaved in any way, while the host changes around
  them: every statement of every thread keeps the invariant of the controller.
\<close>

section \<open>The invariant of the controller\<close>

text \<open>
  Every statement keeps the invariant of the controller, also \<open>restore\<close>'s, which work on local
  variables: what these hold of type \<open>int\<close> stays of that type.
\<close>

definition step_inv :: "string \<Rightarrow> controller \<times> locals \<Rightarrow> bool" where
  "step_inv wdir = (\<lambda>(c, l). ctl_inv wdir c \<and> in_int (l_port l) \<and> in_int (l_id l) \<and> in_int (l_memory l)
     \<and> in_int (l_cpus l) \<and> in_int (l_ssh l))"

lemma step_inv_ctl: "yields (ctl_inv wdir) m \<phi> \<Longrightarrow> yields (step_inv wdir) (in_ctl m) \<phi>"
  unfolding in_ctl_def by (rule yields_zoom) (auto simp: step_inv_def dest: yieldsD)

lemma step_inv_onw: "yields (\<lambda>_. True) m \<phi> \<Longrightarrow> yields (step_inv wdir) (in_ctl (onw m)) \<phi>"
  by (rule step_inv_ctl, rule yields_onw)

lemmas step_inv_onw_any [triples] = step_inv_onw [OF keeps_True]

lemma step_inv_assign:
  "(\<And>c l. step_inv wdir (c, l) \<Longrightarrow> step_inv wdir (c, f l)) \<Longrightarrow> keeps (step_inv wdir) (assign f)"
  unfolding assign_def by (rule yields_modify) auto

lemma step_inv_finish [triples]: "keeps (step_inv wdir) (finish a)"
  unfolding finish_def by (rule step_inv_assign) (simp add: step_inv_def)

lemma step_inv_with_inst [triples]:
  "(\<And>i. inst_inv wdir vmid i \<Longrightarrow> keeps (step_inv wdir) (k i)) \<Longrightarrow> keeps (step_inv wdir) (with_inst vmid k)"
  unfolding with_inst_def
  by (rule yields_bnd_gets, rule yields_case_option, rule yields_fail) (force simp: step_inv_def ctl_inv_def)

lemma step_inv_update_inst:
  "(\<And>i. inst_inv wdir vmid i \<Longrightarrow> inst_inv wdir vmid (f i)) \<Longrightarrow> keeps (step_inv wdir) (update_inst vmid f)"
  unfolding update_inst_def by (intro step_inv_with_inst step_inv_ctl keeps_set_inst) auto

lemma step_inv_if_taken [triples]: "keeps (step_inv wdir) m \<Longrightarrow> keeps (step_inv wdir) (if_taken m)"
  unfolding if_taken_def by (rule yields_bnd_gets) (auto intro: yields_ret)

lemma step_inv_with_dir [triples]: "keeps (step_inv wdir) (with_dir f)"
  unfolding with_dir_def by (intro yields_bnd_gets keeps_bnd triples TrueI)

lemma step_inv_with_own [triples]:
  "(\<And>vmid. in_int vmid \<Longrightarrow> keeps (step_inv wdir) (k vmid (mkInstDir wdir vmid))) \<Longrightarrow> keeps (step_inv wdir) (with_own k)"
  unfolding with_own_def by (rule yields_bnd_gets) (auto simp: step_inv_def ctl_inv_def)

lemma step_inv_with_new [triples]:
  "(\<And>vmid i. inst_inv wdir vmid i \<Longrightarrow> keeps (step_inv wdir) (k i)) \<Longrightarrow> keeps (step_inv wdir) (with_new k)"
  unfolding with_new_def by (intro yields_bnd_gets yields_case_option yields_fail step_inv_with_inst) auto

lemma step_inv_in_int: "step_inv wdir (c, l) \<Longrightarrow> in_int (nextPort c) \<and> in_int (nextId c) \<and> in_int (l_port l)"
  by (simp add: step_inv_def ctl_inv_def)

lemma step_inv_look_up: "keeps (step_inv wdir) (look_up vmid)"
  unfolding look_up_def by (intro yields_bnd_gets yields_if triples TrueI)

lemma step_inv_pick_port: "keeps (step_inv wdir) pick_port"
  unfolding pick_port_def
proof (rule yields_bnd_gets, clarify)
  fix c l
  assume "step_inv wdir (c, l)"
  then have "in_int (nextPort c)" by (simp add: step_inv_in_int)
  then have "yields (\<lambda>_. True) (findNextPort (nextPort c)) in_int"
    by (intro yieldsI) (auto dest!: findNextPort_result simp: in_int_def)
  then show "keeps (step_inv wdir)
      (bnd (in_ctl (onw (findNextPort (nextPort c)))) (\<lambda>port. assign (\<lambda>l. l\<lparr>l_port := port\<rparr>)))"
    by (intro yields_bnd [OF step_inv_onw] step_inv_assign) (auto simp: step_inv_def)
qed

lemma step_inv_modify: "(\<And>c. ctl_inv wdir c \<Longrightarrow> ctl_inv wdir (f c)) \<Longrightarrow> keeps (step_inv wdir) (in_ctl (modify f))"
  by (rule step_inv_ctl, rule yields_modify) auto

lemma step_inv_store_port: "keeps (step_inv wdir) store_port"
  unfolding store_port_def
  by (rule yields_bnd_gets, clarify, rule step_inv_modify) (auto simp: step_inv_def ctl_inv_def)

lemma step_inv_run_steps:
  assumes "m \<in> set (run_steps os vmid)"
  shows "keeps (step_inv wdir) m"
proof -
  have "keeps (step_inv wdir) (run_check vmid)"
    unfolding run_check_def by (intro step_inv_with_inst yields_bnd_gets yields_if triples TrueI)
  moreover have "keeps (step_inv wdir) (run_probe vmid)"
    unfolding run_probe_def
    by (intro step_inv_with_inst keeps_bnd step_inv_onw_any step_inv_assign) (simp add: inst_inv_def step_inv_def)
  moreover have "keeps (step_inv wdir) (if_taken run_warn)"
    unfolding run_warn_def by (intro step_inv_if_taken yields_bnd_gets triples)
  moreover have "keeps (step_inv wdir) (if_taken (run_cookie vmid))"
    unfolding run_cookie_def by (intro step_inv_if_taken yields_bnd_gets triples)
  moreover have "keeps (step_inv wdir) (if_taken (run_assign vmid))"
    unfolding run_assign_def
    by (intro step_inv_if_taken, rule yields_bnd_gets, clarify, rule step_inv_update_inst)
      (auto dest: step_inv_in_int simp: inst_inv_updates)
  moreover have "keeps (step_inv wdir) (if_taken run_info)"
    unfolding run_info_def by (intro step_inv_if_taken yields_bnd_gets triples)
  moreover have "keeps (step_inv wdir) (run_recheck vmid)"
    unfolding run_recheck_def by (intro step_inv_with_inst yields_bnd_gets triples TrueI)
  moreover have "keeps (step_inv wdir) (run_fork os vmid)"
    unfolding run_fork_def by (intro step_inv_with_inst keeps_bnd step_inv_onw_any step_inv_assign) (simp add: step_inv_def)
  moreover have "keeps (step_inv wdir) (run_remember vmid)"
    unfolding run_remember_def by (rule yields_bnd_gets, rule step_inv_update_inst) (simp add: inst_inv_updates)
  moreover have "keeps (step_inv wdir) (run_pid vmid)"
    unfolding run_pid_def by (intro step_inv_with_inst yields_bnd_gets triples)
  ultimately show ?thesis
    using assms step_inv_look_up step_inv_finish step_inv_if_taken [OF step_inv_pick_port]
      step_inv_if_taken [OF step_inv_store_port]
    by (auto simp: run_steps_def port_steps_def start_steps_def)
qed

lemma step_inv_kill_steps: "m \<in> set (kill_steps vmid) \<Longrightarrow> keeps (step_inv wdir) m"
  unfolding kill_steps_def kill_check_def kill_signal_def
  by (auto intro!: step_inv_look_up step_inv_finish step_inv_with_inst yields_bnd_gets yields_if step_inv_onw_any yields_ret)

lemma yields_metadata: "yields (\<lambda>_. True) m \<phi> \<Longrightarrow> yields (\<lambda>_. True) (metadata m) \<phi>"
  unfolding metadata_def by (intro yields_try yields_throw)

lemma step_inv_read:
  assumes "\<And>dir. yields (\<lambda>_. True) (f dir) \<phi>"
    and "\<And>x c l. \<phi> x \<Longrightarrow> step_inv wdir (c, l) \<Longrightarrow> step_inv wdir (c, store x l)"
  shows "keeps (step_inv wdir) (restore_read f store)"
  unfolding restore_read_def
  by (rule step_inv_with_own, rule yields_bnd [OF step_inv_onw [OF yields_metadata [OF assms(1)]]],
      rule step_inv_assign, rule assms(2))

lemma step_inv_updates [simp]:
  "step_inv wdir (c, l\<lparr>l_name := x\<rparr>) = step_inv wdir (c, l)"
  "step_inv wdir (c, l\<lparr>l_kernel := b\<rparr>) = step_inv wdir (c, l)"
  "step_inv wdir (c, l\<lparr>l_append := x\<rparr>) = step_inv wdir (c, l)"
  "step_inv wdir (c, l\<lparr>l_copy := r\<rparr>) = step_inv wdir (c, l)"
  by (simp_all add: step_inv_def)

lemma step_inv_ints:
  "in_int x \<Longrightarrow> step_inv wdir (c, l) \<Longrightarrow> step_inv wdir (c, l\<lparr>l_memory := x\<rparr>)"
  "in_int x \<Longrightarrow> step_inv wdir (c, l) \<Longrightarrow> step_inv wdir (c, l\<lparr>l_cpus := x\<rparr>)"
  "in_int x \<Longrightarrow> step_inv wdir (c, l) \<Longrightarrow> step_inv wdir (c, l\<lparr>l_ssh := x\<rparr>)"
  by (simp_all add: step_inv_def)

lemma step_inv_reads: "m \<in> set restore_reads \<Longrightarrow> keeps (step_inv wdir) m"
proof -
  have string: "keeps (step_inv wdir) (restore_read f (\<lambda>x l. l\<lparr>l_name := x\<rparr>))" for f
    by (rule step_inv_read [OF keeps_True]) simp
  have int: "keeps (step_inv wdir) (restore_read (\<lambda>dir. cookie_read_int (g dir)) store)"
    if "\<And>x c l. in_int x \<Longrightarrow> step_inv wdir (c, l) \<Longrightarrow> step_inv wdir (c, store x l)" for g store
    by (rule step_inv_read [OF yields_read_int that])
  show "m \<in> set restore_reads \<Longrightarrow> keeps (step_inv wdir) m"
    unfolding restore_reads_def using string by (elim set_ConsD [elim_format] disjE) (auto intro!: int step_inv_ints)
qed

lemma step_inv_insert: "keeps (step_inv wdir) restore_insert"
  unfolding restore_insert_def with_own_def
  by (intro yields_bnd_gets yields_case_prod yields_case_option yields_fail yields_seq step_inv_assign step_inv_ctl keeps_set_inst)
    (auto simp: step_inv_def new_inst_inv)

lemma step_inv_restore_steps:
  assumes "m \<in> set restore_steps"
  shows "keeps (step_inv wdir) m"
proof -
  have "keeps (step_inv wdir) restore_call"
    unfolding restore_call_def by (rule yields_bnd_gets, rule step_inv_assign) (auto simp: step_inv_def ctl_inv_def)
  moreover have "keeps (step_inv wdir) restore_dir"
    unfolding restore_dir_def by (intro triples yields_bnd_gets TrueI)
  moreover have "keeps (step_inv wdir) restore_found"
    unfolding restore_found_def by (intro triples yields_bnd_gets TrueI)
  moreover have "keeps (step_inv wdir) restore_kernel"
    unfolding restore_kernel_def by (intro step_inv_with_own yields_bnd_gets step_inv_assign) (simp add: step_inv_def)
  moreover have "keeps (step_inv wdir) restore_append"
    unfolding restore_append_def by (intro step_inv_with_own keeps_bnd step_inv_onw_any step_inv_assign) (simp add: step_inv_def)
  moreover have "keeps (step_inv wdir) restore_probe"
    unfolding restore_probe_def by (intro yields_bnd_gets keeps_bnd step_inv_onw_any step_inv_assign) (simp add: step_inv_def)
  moreover have "keeps (step_inv wdir) (if_taken restore_cookie)"
    unfolding restore_cookie_def by (intro step_inv_if_taken step_inv_with_own yields_bnd_gets triples)
  moreover have "keeps (step_inv wdir) (if_taken restore_assign)"
    unfolding restore_assign_def
    by (rule step_inv_if_taken, rule yields_bnd_gets, rule step_inv_assign) (auto simp: step_inv_def ctl_inv_def)
  moreover have "keeps (step_inv wdir) restore_template"
    unfolding restore_template_def by (intro yields_bnd_gets triples TrueI)
  moreover have "keeps (step_inv wdir) restore_log"
    unfolding restore_log_def by (intro triples)
  moreover have "keeps (step_inv wdir) restore_return"
    unfolding restore_return_def by (intro triples)
  ultimately show ?thesis
    using assms step_inv_reads step_inv_insert step_inv_if_taken [OF step_inv_pick_port] step_inv_if_taken [OF step_inv_store_port]
    by (auto simp: restore_steps_def restore_middle_def)
qed

lemma step_inv_new_steps:
  assumes "m \<in> set (new_steps os templ memory cpus)"
  shows "keeps (step_inv wdir) m"
proof -
  have "keeps (step_inv wdir) new_id"
    unfolding new_id_def
    by (intro yields_bnd_gets yields_bnd_of_res step_inv_modify)
      (auto dest!: findNextId_least dest: step_inv_in_int simp: ctl_inv_def in_int_def)
  moreover have "keeps (step_inv wdir) new_dir"
    unfolding new_dir_def by (intro yields_bnd_gets step_inv_assign) (simp add: step_inv_def)
  moreover have "keeps (step_inv wdir) new_port_cookie"
    unfolding new_port_cookie_def by (intro yields_bnd_gets triples)
  ultimately show ?thesis
    using assms step_inv_pick_port step_inv_store_port step_inv_restore_steps
    by (auto simp: new_steps_def file_steps_def intro: step_inv_with_dir)
qed

lemma step_inv_list_next: "keeps (step_inv wdir) list_next"
  unfolding list_next_def
  by (intro yields_bnd_gets yields_case_option yields_case_prod yields_ret TrueI)
    (auto intro!: yields_ret step_inv_with_inst yields_bnd_gets step_inv_assign split: list.split)

lemma step_inv_list_done: "keeps (step_inv wdir) list_done"
  unfolding list_done_def
  by (intro yields_bnd_gets yields_case_option yields_case_prod yields_fail)
    (auto intro!: yields_fail step_inv_finish split: list.split)

lemma step_inv_list_steps:
  "keeps (step_inv wdir) list_size" "keeps (step_inv wdir) list_copy"
  unfolding list_size_def list_copy_def by (intro yields_bnd_gets yields_if yields_ret step_inv_finish step_inv_assign; simp)+

subsection \<open>All threads\<close>

definition node_inv :: "string \<Rightarrow> nthreads \<Rightarrow> bool" where
  "node_inv wdir s \<longleftrightarrow> ctl_inv wdir (nt_ctl s) \<and> (\<forall>t. step_inv wdir (nt_ctl s, nt_locals s t))"

lemma node_inv_step:
  assumes "keeps (step_inv wdir) m" "node_inv wdir s"
  shows "node_inv wdir (in_thread t m s)"
proof -
  obtain c l where x: "apply_step m (nt_ctl s, nt_locals s t) = (c, l)" by fastforce
  have "step_inv wdir (nt_ctl s, nt_locals s t)" using assms(2) by (simp add: node_inv_def)
  with yieldsD [OF assms(1)] x have "step_inv wdir (c, l)"
    by (fastforce simp: apply_step_def step_inv_def split: if_splits prod.splits sum.splits)
  with x assms(2) show ?thesis by (simp add: in_thread_def node_inv_def step_inv_def)
qed

text \<open>What the acts of a handler thread are.\<close>

lemma program_cases:
  assumes "Do f \<in> set (node_program os reqs t)"
  obtains (step) m where "f = in_thread t m" "\<And>wdir. keeps (step_inv wdir) m"
    | (leaves) "f = leave t"
    | (world) g where "f = (\<lambda>s. s\<lparr>nt_ctl := (nt_ctl s)\<lparr>c_world := g (c_world (nt_ctl s))\<rparr>\<rparr>)"
proof -
  from assms obtain r where r: "r \<in> set (reqs t)" "Do f \<in> set (acts os t r)" by (auto simp: node_program_def)
  then consider m where "f = in_thread t m" "\<And>wdir. keeps (step_inv wdir) m" | "f = leave t"
    | g where "f = (\<lambda>s. s\<lparr>nt_ctl := (nt_ctl s)\<lparr>c_world := g (c_world (nt_ctl s))\<rparr>\<rparr>)"
    by (cases r rule: req.exhaust)
      (auto simp: ScopedLock_def dest: step_inv_run_steps step_inv_kill_steps step_inv_new_steps intro: step_inv_list_steps step_inv_list_next step_inv_list_done split: if_splits)
  then show thesis by cases (rule step, assumption+, rule leaves, assumption, rule world, assumption)
qed

lemma no_locals_inv: "ctl_inv wdir c \<Longrightarrow> step_inv wdir (c, no_locals)"
  by (simp add: step_inv_def no_locals_def in_int_def int_min_def int_max_def)

lemma node_inv_program:
  assumes "Do f \<in> set (node_program os reqs t)" "node_inv wdir s"
  shows "node_inv wdir (f s)"
  using assms(1)
proof (cases rule: program_cases)
  case (step m)
  with assms(2) show ?thesis by (simp add: node_inv_step)
next
  case leaves
  with assms(2) no_locals_inv show ?thesis by (auto simp: leave_def node_inv_def)
next
  case (world g)
  with assms(2) show ?thesis by (simp add: node_inv_def step_inv_def)
qed

text \<open>A node with one machine that two clients run, after one of the two requests.\<close>

lemma vm_node_inv: "ctl_inv ''/tmp/s1'' (vm_node 2200)"
proof -
  have "map_find the_templates (t_name cirros) = Some cirros"
    by (simp add: the_templates_def cirros_def wheezy_def map_find_def)
  moreover have "mkInstDir ''/tmp/s1'' 1000 = ''/tmp/s1/1000''" by (rule dir_1000)
  ultimately have "inst_inv ''/tmp/s1'' 1000 (one_vm 2200)"
    by (auto simp: inst_inv_def one_vm_def Process_new_def in_int_def int_min_def int_max_def intro!: exI [of _ 2200])
  then show ?thesis
    by (auto simp: ctl_inv_def vm_node_def node_def map_ok_def map_find_def in_int_def int_min_def int_max_def split: if_splits)
qed

end
