(* ===== verification/Node_Scenes.thy ===== *)
theory Node_Scenes
  imports Node_Threads
begin

text \<open>
  Rules for running the handler threads of a node by hand: some statements of one thread, a whole
  request under the lock, and two threads side by side.
\<close>

section \<open>Running a thread's steps\<close>

lemma effect_in_thread:
  "effect (map (in_thread t) ms) s
    = s\<lparr>nt_ctl := fst (alone ms (nt_ctl s, nt_locals s t)),
        nt_locals := (nt_locals s)(t := snd (alone ms (nt_ctl s, nt_locals s t)))\<rparr>"
proof (induction ms arbitrary: s)
  case (Cons m ms)
  obtain c l where x: "apply_step m (nt_ctl s, nt_locals s t) = (c, l)" by fastforce
  have "effect (map (in_thread t) (m # ms)) s
      = effect (map (in_thread t) ms) (s\<lparr>nt_ctl := c, nt_locals := (nt_locals s)(t := l)\<rparr>)"
    using x by (simp add: effect_def in_thread_def [of t m])
  with x show ?case by (simp add: Cons.IH alone_Cons fun_upd_same del: fun_upd_apply)
qed (simp add: effect_def alone_def)

lemma alone_append: "alone (ms @ ms') x = alone ms' (alone ms x)"
  by (simp add: alone_def)

lemma alone_ok: "l_answer l = None \<Longrightarrow> m (c, l) = (Inr (), c1, l1) \<Longrightarrow> alone (m # ms) (c, l) = alone ms (c1, l1)"
  by (simp add: alone_def apply_step_def)

lemma alone_Nil: "alone [] x = x"
  by (simp add: alone_def)

text \<open>Some steps of one thread, without the lock, and a whole request under the lock.\<close>

lemma thread_runs:
  assumes "todo s t = map (\<lambda>m. Do (in_thread t m)) ms @ p"
    and "alone ms (nt_ctl (shared s), nt_locals (shared s) t) = (c, l)"
  shows "tstep\<^sup>*\<^sup>* s (s\<lparr>todo := (todo s)(t := p),
      shared := (shared s)\<lparr>nt_ctl := c, nt_locals := (nt_locals (shared s))(t := l)\<rparr>\<rparr>)"
  using run_body [of s t "map (in_thread t) ms" p] assms by (simp add: effect_in_thread comp_def)

lemma thread_leaves:
  "todo s t = Do (leave t) # p \<Longrightarrow> l_answer (nt_locals (shared s) t) = Some a \<Longrightarrow>
   tstep\<^sup>*\<^sup>* s (s\<lparr>todo := (todo s)(t := p), shared := (shared s)\<lparr>nt_locals := (nt_locals (shared s))(t := no_locals),
      nt_answers := (nt_answers (shared s))(t := nt_answers (shared s) t @ [a])\<rparr>\<rparr>)"
  using step_do [of s t "leave t" p] by (simp add: leave_def)

lemma thread_instantiates:
  assumes "mtx s = Mutex_new" "todo s t = acts os t (New templ memory cpus) @ p" "nt_locals (shared s) t = no_locals"
    and "instantiate os templ memory cpus (nt_ctl (shared s)) = (Inr i, c)"
  shows "\<exists>l. tstep\<^sup>*\<^sup>* s (s\<lparr>todo := (todo s)(t := Do (leave t) # p),
      shared := (shared s)\<lparr>nt_ctl := c, nt_locals := (nt_locals (shared s))(t := l)\<rparr>\<rparr>)
    \<and> l_answer l = Some (Inr (Made i))"
proof -
  have "made (instantiate os templ memory cpus) (nt_ctl (shared s)) = (Inr (Made i), c)"
    using assms(4) by (simp add: made_def bnd_Inr ret_def)
  then obtain l where l: "alone (new_steps os templ memory cpus) (nt_ctl (shared s), no_locals) = (c, l)"
    "l_answer l = Some (Inr (Made i))"
    using new_alone [of no_locals os templ memory cpus "nt_ctl (shared s)"] by (auto simp: answers_alone_def no_locals_def)
  then show ?thesis
    using run_request [of s t "map (in_thread t) (new_steps os templ memory cpus)" "Do (leave t) # p"] assms(1-3)
    by (auto simp: effect_in_thread ScopedLock_def)
qed

section \<open>Two threads\<close>

text \<open>
  Between requests nobody holds the mutex: two threads with what they have left to do, their local
  variables and their answers.
\<close>

definition scene :: "nthreads act list \<Rightarrow> nthreads act list \<Rightarrow> controller \<Rightarrow> locals \<Rightarrow> locals \<Rightarrow>
    answer res list \<Rightarrow> answer res list \<Rightarrow> nthreads sys" where
  "scene p q c l l' as as' =
    \<lparr>mtx = Mutex_new, todo = (\<lambda>t. if t = 0 then p else if t = 1 then q else []),
     shared = \<lparr>nt_ctl = c, nt_locals = (\<lambda>t. if t = 0 then l else if t = 1 then l' else no_locals),
       nt_answers = (\<lambda>t. if t = 0 then as else if t = 1 then as' else [])\<rparr>\<rparr>"

abbreviation does :: "nat \<Rightarrow> step list \<Rightarrow> nthreads act list" where
  "does t ms \<equiv> map (\<lambda>m. Do (in_thread t m)) ms"

lemma scene_simps [simp]:
  "mtx (scene p q c l l' as as') = Mutex_new" "nt_ctl (shared (scene p q c l l' as as')) = c"
  "todo (scene p q c l l' as as') 0 = p" "todo (scene p q c l l' as as') (Suc 0) = q"
  "nt_locals (shared (scene p q c l l' as as')) 0 = l" "nt_locals (shared (scene p q c l l' as as')) (Suc 0) = l'"
  "nt_answers (shared (scene p q c l l' as as')) 0 = as" "nt_answers (shared (scene p q c l l' as as')) (Suc 0) = as'"
  by (simp_all add: scene_def)

lemma scene_updates:
  "(scene p q c l l' as as')\<lparr>todo := (todo (scene p q c l l' as as'))(0 := p1),
     shared := (shared (scene p q c l l' as as'))\<lparr>nt_ctl := c1, nt_locals := (nt_locals (shared (scene p q c l l' as as')))(0 := l1)\<rparr>\<rparr>
   = scene p1 q c1 l1 l' as as'"
  "(scene p q c l l' as as')\<lparr>todo := (todo (scene p q c l l' as as'))(Suc 0 := q1),
     shared := (shared (scene p q c l l' as as'))\<lparr>nt_ctl := c1, nt_locals := (nt_locals (shared (scene p q c l l' as as')))(Suc 0 := l1)\<rparr>\<rparr>
   = scene p q1 c1 l l1 as as'"
  "(scene p q c l l' as as')\<lparr>todo := (todo (scene p q c l l' as as'))(0 := p1),
     shared := (shared (scene p q c l l' as as'))\<lparr>nt_locals := (nt_locals (shared (scene p q c l l' as as')))(0 := l1),
       nt_answers := (nt_answers (shared (scene p q c l l' as as')))(0 := bs)\<rparr>\<rparr>
   = scene p1 q c l1 l' bs as'"
  "(scene p q c l l' as as')\<lparr>todo := (todo (scene p q c l l' as as'))(Suc 0 := q1),
     shared := (shared (scene p q c l l' as as'))\<lparr>nt_locals := (nt_locals (shared (scene p q c l l' as as')))(Suc 0 := l1),
       nt_answers := (nt_answers (shared (scene p q c l l' as as')))(Suc 0 := bs)\<rparr>\<rparr>
   = scene p q1 c l l1 as bs"
  by (auto simp: scene_def)

lemma scene_runs:
  "alone ms (c, l) = (c1, l1) \<Longrightarrow> tstep\<^sup>*\<^sup>* (scene (does 0 ms @ p) q c l l' as as') (scene p q c1 l1 l' as as')"
  "alone ms (c, l') = (c1, l1) \<Longrightarrow> tstep\<^sup>*\<^sup>* (scene p (does (Suc 0) ms @ q) c l l' as as') (scene p q c1 l l1 as as')"
  using thread_runs [of "scene (does 0 ms @ p) q c l l' as as'" 0 ms p c1 l1]
    thread_runs [of "scene p (does (Suc 0) ms @ q) c l l' as as'" "Suc 0" ms q c1 l1]
  by (simp_all only: scene_simps scene_updates simp_thms)

lemma scene_leaves:
  "l_answer l = Some a \<Longrightarrow> tstep\<^sup>*\<^sup>* (scene (Do (leave 0) # p) q c l l' as as') (scene p q c no_locals l' (as @ [a]) as')"
  "l_answer l' = Some a \<Longrightarrow> tstep\<^sup>*\<^sup>* (scene p (Do (leave (Suc 0)) # q) c l l' as as') (scene p q c l no_locals as (as' @ [a]))"
  using thread_leaves [of "scene (Do (leave 0) # p) q c l l' as as'" 0 p a]
    thread_leaves [of "scene p (Do (leave (Suc 0)) # q) c l l' as as'" "Suc 0" q a]
  by (simp_all only: scene_simps scene_updates simp_thms)

lemma scene_instantiates:
  assumes "instantiate os templ memory cpus c = (Inr i, c1)"
  shows "\<exists>l1. tstep\<^sup>*\<^sup>* (scene (acts os 0 (New templ memory cpus) @ p) q c no_locals l as as')
      (scene (Do (leave 0) # p) q c1 l1 l as as') \<and> l_answer l1 = Some (Inr (Made i))"
    and "\<exists>l1. tstep\<^sup>*\<^sup>* (scene p (acts os (Suc 0) (New templ memory cpus) @ q) c l no_locals as as')
      (scene p (Do (leave (Suc 0)) # q) c1 l l1 as as') \<and> l_answer l1 = Some (Inr (Made i))"
  using thread_instantiates [of "scene (acts os 0 (New templ memory cpus) @ p) q c no_locals l as as'" 0
      os templ memory cpus p i c1]
    thread_instantiates [of "scene p (acts os (Suc 0) (New templ memory cpus) @ q) c l no_locals as as'" "Suc 0"
      os templ memory cpus q i c1] assms
  by (simp_all only: scene_simps scene_updates simp_thms)

lemma scene_begins:
  "system (node_program os (\<lambda>t. if t = 0 then rs else if t = 1 then rs' else [])) (node_threads c)
   = scene (concat (map (acts os 0) rs)) (concat (map (acts os (Suc 0)) rs')) c no_locals no_locals [] []"
  by (auto simp: system_def node_program_def node_threads_def scene_def)

lemma scene_finished: "finished (scene [] [] c l l' as as')"
  by (simp add: finished_def scene_def)

end
