(* ===== verification/Node_Locking.thy ===== *)
theory Node_Locking
  imports Concurrent_Node Node_Scenes
begin

text \<open>
  What the mutex of a node does achieve: \<open>instantiate\<close> searches an id and, many statements later,
  \<open>restore\<close> files the machine under it. With unlocked \<open>run\<close>, \<open>kill\<close> and listing requests in between, no
  machine is ever lost or overwritten, and handlers that create machines at the same time never
  end up with the same one.
\<close>

section \<open>The machines of a node\<close>

text \<open>What a machine keeps for its whole life, and the machines of a node with it.\<close>

type_synonym ident = "int \<times> int \<times> int \<times> templ \<times> string \<times> string list"

definition identity :: "inst \<Rightarrow> ident" where
  "identity i = (i_id i, i_memory i, i_cpus i, i_template i, p_path (i_process i), p_opts (i_process i))"

definition known :: "controller \<Rightarrow> int \<Rightarrow> ident option" where
  "known c k = map_option identity (map_find (instances c) k)"

lemma identity_updates [simp]:
  "identity (setSshPort port i) = identity i"
  "identity (i\<lparr>i_process := (i_process i)\<lparr>p_pid := pid\<rparr>\<rparr>) = identity i"
  by (simp_all add: identity_def setSshPort_def)

lemma known_simps [simp]:
  "known (c\<lparr>c_world := w\<rparr>) = known c" "known (c\<lparr>nextPort := p\<rparr>) = known c" "known (c\<lparr>nextId := k\<rparr>) = known c"
  by (simp_all add: known_def fun_eq_iff)

lemma known_put: "map_ok (instances c) \<Longrightarrow> known (c\<lparr>instances := map_put k i (instances c)\<rparr>) = (known c)(k \<mapsto> identity i)"
  by (simp add: known_def fun_eq_iff)

lemma known_SomeD: "known c k = Some d \<Longrightarrow> \<exists>i. map_find (instances c) k = Some i \<and> identity i = d"
  by (simp add: known_def)

section \<open>Steps that neither create nor search\<close>

text \<open>
  \<open>quiet_inv J v a n\<close>: the machines are \<open>J\<close>, \<open>v\<close> is the next id, and the request works on the id \<open>a\<close>
  and has filed \<open>n\<close>, but has not answered with a machine. A quiet step leaves all of this as it is;
  a calm one does where \<open>a\<close> is the id of no machine.
\<close>

definition quiet_inv :: "(int \<Rightarrow> ident option) \<Rightarrow> int \<Rightarrow> int \<Rightarrow> int option \<Rightarrow> controller \<times> locals \<Rightarrow> bool" where
  "quiet_inv J v a n = (\<lambda>(c, l). (map_ok (instances c) \<and> known c = J \<and> nextId c = v)
     \<and> l_id l = a \<and> l_inst l = n \<and> (\<forall>i. l_answer l \<noteq> Some (Inr (Made i))))"

definition quiet_step :: "step \<Rightarrow> bool" where
  "quiet_step m \<longleftrightarrow> (\<forall>J v a n. keeps (quiet_inv J v a n) m)"

definition calm_step :: "step \<Rightarrow> bool" where
  "calm_step m \<longleftrightarrow> (\<forall>J v a n. J a = None \<longrightarrow> keeps (quiet_inv J v a n) m)"

lemma quiet_calm: "quiet_step m \<Longrightarrow> calm_step m"
  by (simp add: quiet_step_def calm_step_def)

lemma quiet_onw [triples]: "keeps (quiet_inv J v a n) (in_ctl (onw m))"
  unfolding in_ctl_def onw_def by (intro yields_zoom) (auto simp: quiet_inv_def zoom_def split: prod.splits)

lemma quiet_assign:
  "(\<And>l. l_answer (f l) = l_answer l \<and> l_id (f l) = l_id l \<and> l_inst (f l) = l_inst l) \<Longrightarrow> keeps (quiet_inv J v a n) (assign f)"
  unfolding assign_def by (rule yields_modify) (auto simp: quiet_inv_def)

lemma quiet_finish [triples]: "(\<And>i. b \<noteq> Made i) \<Longrightarrow> keeps (quiet_inv J v a n) (finish b)"
  unfolding finish_def assign_def by (rule yields_modify) (auto simp: quiet_inv_def)

lemma quiet_with_inst:
  "(\<And>i. J vmid = Some (identity i) \<Longrightarrow> keeps (quiet_inv J v a n) (k i)) \<Longrightarrow> keeps (quiet_inv J v a n) (with_inst vmid k)"
  unfolding with_inst_def
  by (rule yields_bnd_gets, rule yields_case_option, rule yields_fail) (force simp: quiet_inv_def known_def split: prod.splits)

lemma quiet_update_inst: "(\<And>i. identity (f i) = identity i) \<Longrightarrow> keeps (quiet_inv J v a n) (update_inst vmid f)"
  unfolding update_inst_def in_ctl_def set_inst_def
  by (rule quiet_with_inst, rule yields_zoom) (auto simp: quiet_inv_def modify_def known_put fun_upd_idem)

lemma quiet_if_taken: "keeps (quiet_inv J v a n) m \<Longrightarrow> keeps (quiet_inv J v a n) (if_taken m)"
  unfolding if_taken_def by (rule yields_bnd_gets) (auto intro: yields_ret)

lemma quiet_with_dir: "keeps (quiet_inv J v a n) (with_dir f)"
  unfolding with_dir_def by (intro yields_bnd_gets keeps_bnd triples TrueI)

lemma quiet_with_own: "(\<And>dir. keeps (quiet_inv J v a n) (k a dir)) \<Longrightarrow> keeps (quiet_inv J v a n) (with_own k)"
  unfolding with_own_def by (rule yields_bnd_gets) (auto simp: quiet_inv_def)

lemma quiet_pick_port: "keeps (quiet_inv J v a n) pick_port"
  unfolding pick_port_def by (intro yields_bnd_gets keeps_bnd quiet_onw quiet_assign) simp

lemma quiet_store_port: "keeps (quiet_inv J v a n) store_port"
  unfolding store_port_def in_ctl_def
  by (rule yields_bnd_gets, rule yields_zoom) (auto simp: quiet_inv_def modify_def)

lemma quiet_look_up: "keeps (quiet_inv J v a n) (look_up vmid)"
  unfolding look_up_def by (intro yields_bnd_gets yields_if triples TrueI) simp

lemmas quiet_parts = quiet_onw quiet_finish quiet_with_inst quiet_update_inst quiet_if_taken quiet_with_dir quiet_with_own
  quiet_pick_port quiet_store_port quiet_look_up yields_bnd_gets yields_if yields_ret yields_throw yields_seq

lemma quiet_run_steps: "m \<in> set (run_steps os vmid) \<Longrightarrow> quiet_step m"
  unfolding run_steps_def port_steps_def start_steps_def quiet_step_def run_check_def run_probe_def run_warn_def
    run_cookie_def run_assign_def run_info_def run_recheck_def run_fork_def run_remember_def run_pid_def
  by (auto intro!: quiet_parts keeps_bnd quiet_assign)

lemma quiet_kill_steps: "m \<in> set (kill_steps vmid) \<Longrightarrow> quiet_step m"
  unfolding kill_steps_def quiet_step_def kill_check_def kill_signal_def
  by (auto intro!: quiet_parts)

lemma quiet_file_steps: "m \<in> set (file_steps os templ memory cpus) \<Longrightarrow> quiet_step m"
  unfolding file_steps_def quiet_step_def new_dir_def new_port_cookie_def
  by (auto intro!: quiet_parts quiet_assign)

lemma quiet_list_steps: "quiet_step list_size" "quiet_step list_copy" "quiet_step list_next" "quiet_step list_done"
proof -
  show "quiet_step list_size" "quiet_step list_copy"
    unfolding quiet_step_def list_size_def list_copy_def by (auto intro!: quiet_parts quiet_assign)
  show "quiet_step list_next"
    unfolding quiet_step_def list_next_def
    by (intro allI yields_bnd_gets yields_case_option yields_case_prod yields_ret TrueI)
      (auto intro!: quiet_parts quiet_assign split: list.split)
  show "quiet_step list_done"
    unfolding quiet_step_def list_done_def
    by (intro allI yields_bnd_gets yields_case_option yields_case_prod yields_fail)
      (auto intro!: quiet_finish yields_fail split: list.split)
qed

lemma quiet_read: "(\<And>x l. l_answer (store x l) = l_answer l \<and> l_id (store x l) = l_id l \<and> l_inst (store x l) = l_inst l) \<Longrightarrow>
    keeps (quiet_inv J v a n) (restore_read f store)"
  unfolding restore_read_def by (intro quiet_with_own keeps_bnd quiet_onw quiet_assign)

text \<open>\<open>restore\<close> finds no machine under the id that \<open>instantiate\<close> has searched.\<close>

lemma calm_found: "calm_step restore_found"
  unfolding calm_step_def
proof (intro allI impI)
  fix J :: "int \<Rightarrow> ident option" and v a n
  assume J: "J a = None"
  show "keeps (quiet_inv J v a n) restore_found"
  proof (rule yieldsI)
    fix s r s'
    assume s: "quiet_inv J v a n s" "restore_found s = (r, s')"
    then have "map_find (instances (fst s)) a = None" using J by (auto simp: quiet_inv_def known_def split: prod.splits)
    with s show "quiet_inv J v a n s' \<and> (\<forall>x. r = Inr x \<longrightarrow> True)"
      by (auto simp: restore_found_def with_own_def bnd_gets quiet_inv_def ret_def split: prod.splits)
  qed
qed

lemma calm_middle: "m \<in> set restore_middle \<Longrightarrow> calm_step m"
proof -
  have "quiet_step restore_dir" "quiet_step restore_kernel" "quiet_step restore_append" "quiet_step restore_probe"
    "quiet_step (if_taken restore_cookie)" "quiet_step (if_taken restore_assign)" "quiet_step restore_template"
    "quiet_step (if_taken pick_port)" "quiet_step (if_taken store_port)"
    unfolding quiet_step_def restore_dir_def restore_kernel_def restore_append_def restore_probe_def restore_cookie_def
      restore_assign_def restore_template_def
    by (auto intro!: quiet_parts keeps_bnd quiet_assign yields_case_prod)
  moreover have "m \<in> set restore_reads \<Longrightarrow> quiet_step m"
    unfolding restore_reads_def quiet_step_def by (auto intro!: quiet_read)
  ultimately show "m \<in> set restore_middle \<Longrightarrow> calm_step m"
    using calm_found quiet_calm by (auto simp: restore_middle_def)
qed

section \<open>The machines that were made\<close>

definition answer_ids :: "answer res list \<Rightarrow> int list" where
  "answer_ids as = concat (map (\<lambda>a. case a of Inr (Made i) \<Rightarrow> [i_id i] | _ \<Rightarrow> []) as)"

definition made_of :: "locals \<Rightarrow> int list" where
  "made_of l =
    (case l_answer l of
       None \<Rightarrow> (case l_inst l of None \<Rightarrow> [] | Some k \<Rightarrow> [k])
     | Some a \<Rightarrow> answer_ids [a])"

definition ids_made :: "nthreads \<Rightarrow> nat \<Rightarrow> int list" where
  "ids_made x t = answer_ids (nt_answers x t) @ made_of (nt_locals x t)"

text \<open>Every machine that a request of any thread has made is a new one and no two are the same.\<close>

definition ids_ok :: "controller \<Rightarrow> nthreads \<Rightarrow> bool" where
  "ids_ok c0 x \<longleftrightarrow>
    (\<forall>t. distinct (ids_made x t) \<and> (\<forall>k \<in> set (ids_made x t). known c0 k = None \<and> known (nt_ctl x) k \<noteq> None))
    \<and> (\<forall>t u. t \<noteq> u \<longrightarrow> set (ids_made x t) \<inter> set (ids_made x u) = {})
    \<and> known c0 \<subseteq>\<^sub>m known (nt_ctl x)"

lemma answer_ids_append [simp]: "answer_ids (as @ bs) = answer_ids as @ answer_ids bs"
  by (simp add: answer_ids_def)

lemma answer_ids_Nil [simp]: "answer_ids [] = []"
  by (simp add: answer_ids_def)

text \<open>What a step may do to the machine of its request: nothing, give it up, or file a new one.\<close>

definition may_make :: "controller \<Rightarrow> controller \<Rightarrow> int list \<Rightarrow> int list \<Rightarrow> bool" where
  "may_make c c' ks ks' \<longleftrightarrow>
    ks' = ks \<or> ks' = [] \<or> ks = [] \<and> (\<exists>k. ks' = [k] \<and> known c k = None \<and> known c' k \<noteq> None)"

lemma may_make_refl [simp]: "may_make c c' ks ks"
  by (simp add: may_make_def)

lemma knownD: "known c \<subseteq>\<^sub>m known c' \<Longrightarrow> known c k \<noteq> None \<Longrightarrow> known c' k = known c k"
  by (auto simp: map_le_def dom_def)

lemma ids_ok_fewer:
  assumes "ids_ok c0 x" "known (nt_ctl x) \<subseteq>\<^sub>m known (nt_ctl x')"
    and "\<And>u. set (ids_made x' u) \<subseteq> set (ids_made x u)" "\<And>u. distinct (ids_made x u) \<Longrightarrow> distinct (ids_made x' u)"
  shows "ids_ok c0 x'"
  unfolding ids_ok_def
proof (intro conjI allI ballI impI)
  note ok = assms(1) [unfolded ids_ok_def]
  show "distinct (ids_made x' t)" for t using ok assms(4) by simp
  fix t k
  assume "k \<in> set (ids_made x' t)"
  then have "k \<in> set (ids_made x t)" using assms(3) by blast
  then have k: "known c0 k = None" "known (nt_ctl x) k \<noteq> None" using ok by auto
  show "known c0 k = None" by (rule k)
  show "known (nt_ctl x') k \<noteq> None" using knownD [OF assms(2) k(2)] k(2) by simp
next
  fix t u :: nat
  assume "t \<noteq> u"
  then have "set (ids_made x t) \<inter> set (ids_made x u) = {}" using assms(1) by (simp add: ids_ok_def)
  then show "set (ids_made x' t) \<inter> set (ids_made x' u) = {}" using assms(3) [of t] assms(3) [of u] by blast
next
  show "known c0 \<subseteq>\<^sub>m known (nt_ctl x')" using assms(1,2) by (auto simp: ids_ok_def intro: map_le_trans)
qed

lemma ids_ok_step:
  assumes ok: "ids_ok c0 x" and grows: "known (nt_ctl x) \<subseteq>\<^sub>m known c"
    and made: "may_make (nt_ctl x) c (made_of (nt_locals x t)) (made_of l)"
  shows "ids_ok c0 (x\<lparr>nt_ctl := c, nt_locals := (nt_locals x)(t := l)\<rparr>)"
proof -
  let ?x = "x\<lparr>nt_ctl := c, nt_locals := (nt_locals x)(t := l)\<rparr>"
  have other: "ids_made ?x u = ids_made x u" if "u \<noteq> t" for u using that by (simp add: ids_made_def)
  have on: "known (nt_ctl x) k \<noteq> None \<Longrightarrow> known c k \<noteq> None" for k using knownD [OF grows, of k] by simp
  have le: "known c0 \<subseteq>\<^sub>m known c" using ok grows by (auto simp: ids_ok_def intro: map_le_trans)
  have used: "\<forall>k \<in> set (ids_made x u). known c0 k = None \<and> known (nt_ctl x) k \<noteq> None" for u using ok by (simp add: ids_ok_def)
  from made consider "set (ids_made ?x t) \<subseteq> set (ids_made x t)" "distinct (ids_made x t) \<longrightarrow> distinct (ids_made ?x t)"
    | k where "ids_made ?x t = ids_made x t @ [k]" "known (nt_ctl x) k = None" "known c k \<noteq> None"
    unfolding may_make_def by (force simp: ids_made_def)
  then show ?thesis
  proof cases
    case 1
    then have "set (ids_made ?x u) \<subseteq> set (ids_made x u)" "distinct (ids_made x u) \<longrightarrow> distinct (ids_made ?x u)" for u
      using other by (cases "u = t"; simp)+
    with grows show ?thesis by (intro ids_ok_fewer [OF ok]) auto
  next
    case (2 k)
    have "k \<notin> set (ids_made x u)" for u using used [of u] 2(2) by auto
    moreover have "known c0 k = None"
      using ok 2(2) knownD [of c0 "nt_ctl x" k] by (cases "known c0 k") (auto simp: ids_ok_def)
    moreover have "ids_made ?x u = (if u = t then ids_made x t @ [k] else ids_made x u)" for u using other 2(1) by simp
    ultimately show ?thesis
      using ok on le 2(3) unfolding ids_ok_def by (simp add: disjoint_iff) metis
  qed
qed

lemma ids_ok_leave: "ids_ok c0 x \<Longrightarrow> ids_ok c0 (leave t x)"
proof (rule ids_ok_fewer [of c0 x])
  fix u
  show "set (ids_made (leave t x) u) \<subseteq> set (ids_made x u)" "distinct (ids_made x u) \<Longrightarrow> distinct (ids_made (leave t x) u)"
    by (auto simp: ids_made_def leave_def made_of_def no_locals_def split: option.split)
qed (simp_all add: leave_def)

section \<open>What the steps do to them\<close>

lemma made_of_none: "\<forall>i. l_answer l \<noteq> Some (Inr (Made i)) \<Longrightarrow> l_answer l \<noteq> None \<Longrightarrow> made_of l = []"
  by (cases "l_answer l") (auto simp: made_of_def answer_ids_def split: sum.split answer.split)

lemma calm_apply:
  assumes m: "calm_step m" "quiet_step m \<or> (l_answer l = None \<longrightarrow> known c (l_id l) = None)"
    and "apply_step m (c, l) = (c', l')" "map_ok (instances c)"
  shows "known c' = known c \<and> nextId c' = nextId c \<and> l_id l' = l_id l
    \<and> (l_answer l \<noteq> None \<longrightarrow> l' = l) \<and> (made_of l' = made_of l \<or> made_of l' = [])"
proof (cases "l_answer l")
  case (Some a)
  with assms(3) show ?thesis by (simp add: apply_step_def)
next
  case None
  obtain r l1 where m1: "m (c, l) = (r, c', l1)" and l': "l' = (case r of Inl f \<Rightarrow> l1\<lparr>l_answer := Some (Inl f)\<rparr> | Inr _ \<Rightarrow> l1)"
    using assms(3) None by (auto simp: apply_step_def split: prod.splits)
  let ?I = "quiet_inv (known c) (nextId c) (l_id l) (l_inst l)"
  have "?I (c, l)" using assms(4) None by (simp add: quiet_inv_def)
  moreover have "keeps ?I m" using m None unfolding quiet_step_def calm_step_def by blast
  ultimately have I: "?I (c', l1)" using yieldsD [where m = m] m1 by blast
  have "made_of l' = made_of l \<or> made_of l' = []"
  proof (cases "l_answer l'")
    case n: None
    with l' have "l' = l1" by (cases r) auto
    with I None n show ?thesis by (simp add: quiet_inv_def made_of_def)
  next
    case (Some b)
    with I l' show ?thesis by (cases r) (auto intro!: made_of_none simp: quiet_inv_def)
  qed
  moreover have "l_id l' = l_id l" using I l' by (cases r) (auto simp: quiet_inv_def)
  ultimately show ?thesis using I None by (simp add: quiet_inv_def)
qed

lemma new_id_apply:
  assumes "apply_step new_id (c, l) = (c', l')" "ctl_inv wdir c"
  shows "known c' = known c \<and> (made_of l' = made_of l \<or> made_of l' = []) \<and> (l_answer l' = None \<longrightarrow> known c' (nextId c') = None)"
proof (cases "l_answer l = None")
  case True
  have "nextId c \<le> int_max" using assms(2) by (simp add: ctl_inv_def in_int_def)
  then have "findNextId c (nextId c) = Inr k \<Longrightarrow> fresh_id c k" for k using findNextId_least by blast
  then show ?thesis
    using assms(1) True
    by (cases "findNextId c (nextId c)")
      (auto simp: apply_step_def new_id_def bnd_gets in_ctl_run modify_def known_def fresh_id_def made_of_def
         answer_ids_def)
qed (use assms(1) in \<open>auto simp: apply_step_def\<close>)

lemma call_apply:
  "apply_step restore_call (c, l) = (c', l') \<Longrightarrow>
   c' = c \<and> made_of l' = made_of l \<and> l_answer l' = l_answer l \<and> (l_answer l = None \<longrightarrow> l_id l' = nextId c)"
  by (auto simp: apply_step_def restore_call_def bnd_gets assign_def modify_def made_of_def split: if_splits)

lemma insert_apply:
  assumes "apply_step restore_insert (c, l) = (c', l')" "map_ok (instances c)" "made_of l = []"
    and "l_answer l = None \<longrightarrow> known c (l_id l) = None"
  shows "known c \<subseteq>\<^sub>m known c' \<and> may_make c c' (made_of l) (made_of l')"
proof (cases "l_answer l = None")
  case True
  show ?thesis
  proof (cases "map_find (templates c) (l_name l)")
    case None
    with assms(1) True show ?thesis
      by (auto simp: apply_step_def restore_insert_def with_own_def bnd_gets fail_def may_make_def made_of_def answer_ids_def)
  next
    case (Some t)
    then obtain i where "c' = c\<lparr>instances := map_put (l_id l) i (instances c)\<rparr>" "l' = l\<lparr>l_inst := Some (l_id l)\<rparr>"
      using assms(1) True
      by (auto simp: apply_step_def restore_insert_def with_own_def seq_def bnd_def gets_def in_ctl_run set_inst_def modify_def assign_def)
    with assms(2-4) True show ?thesis by (auto simp: known_put may_make_def made_of_def map_le_def identity_def)
  qed
qed (use assms(1) in \<open>auto simp: apply_step_def\<close>)

lemma log_apply:
  assumes "apply_step restore_log (c, l) = (c', l')" "ctl_inv wdir c"
  shows "known c' = known c \<and> (made_of l' = made_of l \<or> made_of l' = [])"
proof -
  have "quiet_step restore_log"
    unfolding quiet_step_def restore_log_def with_new_def
    by (intro allI yields_bnd_gets yields_case_option yields_fail quiet_with_inst quiet_with_own quiet_onw)
  with calm_apply [OF quiet_calm _ assms(1)] assms(2) show ?thesis by (simp add: ctl_inv_def)
qed

lemma return_apply:
  assumes "apply_step restore_return (c, l) = (c', l')" "ctl_inv wdir c"
  shows "known c' = known c \<and> (made_of l' = made_of l \<or> made_of l' = [])"
proof (cases "l_answer l = None")
  case True
  show ?thesis
  proof (cases "l_inst l")
    case None
    with assms(1) True show ?thesis
      by (auto simp: apply_step_def restore_return_def with_new_def bnd_gets fail_def made_of_def answer_ids_def)
  next
    case (Some k)
    show ?thesis
    proof (cases "map_find (instances c) k")
      case None
      with assms(1) True Some show ?thesis
        by (auto simp: apply_step_def restore_return_def with_new_def with_inst_def bnd_gets fail_def made_of_def answer_ids_def)
    next
      case i: (Some i)
      then have "i_id i = k" using assms(2) by (simp add: ctl_inv_def inst_inv_def)
      with i assms(1) True Some show ?thesis
        by (auto simp: apply_step_def restore_return_def with_new_def with_inst_def bnd_gets finish_def assign_def modify_def
            made_of_def answer_ids_def)
    qed
  qed
qed (use assms(1) in \<open>auto simp: apply_step_def\<close>)

section \<open>Where a thread is\<close>

text \<open>
  A locked section of a request: \<open>Searching\<close> for an id, the id \<open>Found\<close> and the directory being filled,
  \<open>Called\<close> \<open>restore\<close>, or the machine \<open>Filed\<close> (and every section that creates no machine).
  \<open>proceeds ph ms\<close>: the statements left take the section on from phase \<open>ph\<close>.
\<close>

datatype phase = Searching | Found | Called | Filed

inductive phase_step :: "phase \<Rightarrow> step \<Rightarrow> phase \<Rightarrow> bool" where
  on_quiet: "quiet_step m \<Longrightarrow> phase_step ph m ph"
| on_calm: "calm_step m \<Longrightarrow> phase_step Called m Called"
| on_found: "phase_step Searching new_id Found"
| on_call: "phase_step Found restore_call Called"
| on_insert: "phase_step Called restore_insert Filed"
| on_log: "phase_step Filed restore_log Filed"
| on_return: "phase_step Filed restore_return Filed"

inductive proceeds :: "phase \<Rightarrow> step list \<Rightarrow> bool" where
  proceeds_Nil: "proceeds ph []"
| proceeds_Cons: "phase_step ph m ph' \<Longrightarrow> proceeds ph' ms \<Longrightarrow> proceeds ph (m # ms)"

inductive_cases proceeds_ConsE: "proceeds ph (m # ms)"

definition phase_inv :: "phase \<Rightarrow> controller \<Rightarrow> locals \<Rightarrow> bool" where
  "phase_inv ph c l \<longleftrightarrow>
    (case ph of
       Searching \<Rightarrow> made_of l = []
     | Found \<Rightarrow> made_of l = [] \<and> (l_answer l = None \<longrightarrow> known c (nextId c) = None)
     | Called \<Rightarrow> made_of l = [] \<and> (l_answer l = None \<longrightarrow> known c (l_id l) = None)
     | Filed \<Rightarrow> True)"

lemma proceeds_quiet: "(\<And>m. m \<in> set ms \<Longrightarrow> quiet_step m) \<Longrightarrow> proceeds ph ms' \<Longrightarrow> proceeds ph (ms @ ms')"
  by (induction ms) (auto intro: proceeds_Cons on_quiet)

lemma proceeds_calm: "(\<And>m. m \<in> set ms \<Longrightarrow> calm_step m) \<Longrightarrow> proceeds Called ms' \<Longrightarrow> proceeds Called (ms @ ms')"
  by (induction ms) (auto intro: proceeds_Cons on_calm)

lemma new_section: "proceeds Searching (new_steps os templ memory cpus)"
proof -
  have "proceeds Called (restore_middle @ [restore_insert, restore_log, restore_return])"
    by (rule proceeds_calm) (auto intro: calm_middle proceeds_Cons proceeds_Nil on_insert on_log on_return)
  then have "proceeds Found (file_steps os templ memory cpus @ restore_steps)"
    unfolding restore_steps_def
    by (intro proceeds_quiet) (auto intro: quiet_file_steps proceeds_Cons on_call)
  then show ?thesis
    unfolding new_steps_def using quiet_pick_port quiet_store_port
    by (auto intro!: proceeds_Cons [OF on_quiet] proceeds_Cons [OF on_found] simp: quiet_step_def)
qed

text \<open>A step under the lock.\<close>

lemma phase_apply:
  assumes "phase_step ph m ph'" "phase_inv ph c l" "apply_step m (c, l) = (c', l')" "ctl_inv wdir c"
  shows "phase_inv ph' c' l' \<and> known c \<subseteq>\<^sub>m known c' \<and> may_make c c' (made_of l) (made_of l')"
proof -
  have ok: "map_ok (instances c)" using assms(4) by (simp add: ctl_inv_def)
  show ?thesis
    using assms(1)
  proof cases
    case on_quiet
    then have "phase_inv ph c' l'"
      using calm_apply [OF quiet_calm [OF on_quiet(2)] _ assms(3) ok] assms(2)
      by (cases "l_answer l") (auto simp: phase_inv_def split: phase.splits)
    with on_quiet calm_apply [OF quiet_calm [OF on_quiet(2)] _ assms(3) ok] show ?thesis by (auto simp: may_make_def)
  next
    case on_calm
    have q: "quiet_step m \<or> (l_answer l = None \<longrightarrow> known c (l_id l) = None)" using assms(2) on_calm by (simp add: phase_inv_def)
    from calm_apply [OF on_calm(3) q assms(3) ok] assms(2) on_calm show ?thesis
      by (cases "l_answer l") (auto simp: phase_inv_def may_make_def)
  next
    case on_found
    from new_id_apply [OF assms(3) [unfolded on_found] assms(4)] assms(2) on_found show ?thesis
      by (auto simp: phase_inv_def may_make_def)
  next
    case on_call
    from call_apply [OF assms(3) [unfolded on_call]] assms(2) on_call show ?thesis
      by (auto simp: phase_inv_def may_make_def)
  next
    case on_insert
    from insert_apply [OF assms(3) [unfolded on_insert] ok] assms(2) on_insert show ?thesis
      by (auto simp: phase_inv_def)
  next
    case on_log
    from log_apply [OF assms(3) [unfolded on_log] assms(4)] on_log show ?thesis by (auto simp: phase_inv_def may_make_def)
  next
    case on_return
    from return_apply [OF assms(3) [unfolded on_return] assms(4)] on_return show ?thesis
      by (auto simp: phase_inv_def may_make_def)
  qed
qed

text \<open>
  Between requests; in a request, outside its locked sections (its answer may be there already): what
  is left of it are quiet statements and locked sections that create no machine; or inside one.
\<close>

definition later :: "os \<Rightarrow> nat \<Rightarrow> req list \<Rightarrow> nthreads act list" where
  "later os t rs = concat (map (acts os t) rs)"

inductive in_request :: "nat \<Rightarrow> nthreads act list \<Rightarrow> bool" for t where
  request_Nil: "in_request t []"
| request_step: "quiet_step m \<Longrightarrow> in_request t q \<Longrightarrow> in_request t (Do (in_thread t m) # q)"
| request_lock: "(\<And>m. m \<in> set ms \<Longrightarrow> quiet_step m) \<Longrightarrow> in_request t q \<Longrightarrow>
    in_request t (Lock # map Do (map (in_thread t) ms) @ Unlock # q)"

definition outside :: "os \<Rightarrow> nat \<Rightarrow> nthreads act list \<Rightarrow> locals \<Rightarrow> bool" where
  "outside os t p l \<longleftrightarrow>
    (\<exists>rs. p = later os t rs \<and> l = no_locals)
    \<or> (\<exists>q rs. p = q @ Do (leave t) # later os t rs \<and> in_request t q)"

definition section_left :: "step list \<Rightarrow> controller \<Rightarrow> locals \<Rightarrow> bool" where
  "section_left ms c l \<longleftrightarrow> (\<exists>ph. proceeds ph ms \<and> phase_inv ph c l)"

definition inside :: "os \<Rightarrow> nat \<Rightarrow> nthreads act list \<Rightarrow> controller \<Rightarrow> locals \<Rightarrow> bool" where
  "inside os t p c l \<longleftrightarrow>
    (\<exists>ms q rs. p = map Do (map (in_thread t) ms) @ Unlock # q @ Do (leave t) # later os t rs
       \<and> section_left ms c l \<and> in_request t q)"

lemma later_Cons: "later os t (r # rs) = acts os t r @ later os t rs"
  by (simp add: later_def)

lemma request_steps: "(\<And>m. m \<in> set ms \<Longrightarrow> quiet_step m) \<Longrightarrow> in_request t (map (\<lambda>m. Do (in_thread t m)) ms)"
  by (induction ms) (auto intro: request_Nil request_step)

lemma quiet_section: "(\<And>m. m \<in> set ms \<Longrightarrow> quiet_step m) \<Longrightarrow> section_left ms c l"
  unfolding section_left_def using proceeds_quiet [of ms Filed "[]"]
  by (intro exI [of _ Filed]) (simp add: phase_inv_def proceeds_Nil)

lemma list_request:
  "in_request t (ScopedLock [in_thread t list_size] @ ScopedLock [in_thread t list_copy]
     @ map (\<lambda>m. Do (in_thread t m)) (replicate n list_next @ [list_done]))"
proof -
  have "in_request t (map (\<lambda>m. Do (in_thread t m)) (replicate n list_next @ [list_done]))"
    by (rule request_steps) (auto simp: quiet_list_steps)
  from request_lock [of "[list_size]", OF _ request_lock [of "[list_copy]", OF _ this]] show ?thesis
    by (simp add: ScopedLock_def quiet_list_steps)
qed

text \<open>The first act of a thread that is not under the lock.\<close>

lemma in_request_cases:
  assumes "in_request t q" "a # p = q @ Do (leave t) # later os t rs"
  obtains (enter) "a = Lock" "\<And>c l. inside os t p c l"
    | (work) m where "a = Do (in_thread t m)" "quiet_step m" "\<And>l. outside os t p l"
    | (leaves) "a = Do (leave t)" "outside os t p no_locals"
  using assms(1)
proof cases
  case request_Nil
  with assms(2) show thesis by (intro leaves) (auto simp: outside_def)
next
  case (request_step m q')
  with assms(2) show thesis by (intro work [of m]) (auto simp: outside_def)
next
  case (request_lock ms q')
  with assms(2) have "a = Lock" "p = map Do (map (in_thread t) ms) @ Unlock # q' @ Do (leave t) # later os t rs" by simp_all
  with request_lock show thesis by (intro enter) (auto simp: inside_def intro: quiet_section)
qed

lemma outside_cases:
  assumes "outside os t (a # p) l"
  obtains (enter) "a = Lock" "\<And>c. inside os t p c l"
    | (work) m where "a = Do (in_thread t m)" "quiet_step m" "\<And>l'. outside os t p l'"
    | (leaves) "a = Do (leave t)" "outside os t p no_locals"
    | (world) f where "a = Do (\<lambda>s. s\<lparr>nt_ctl := (nt_ctl s)\<lparr>c_world := f (c_world (nt_ctl s))\<rparr>\<rparr>)" "outside os t p l"
proof -
  have request: thesis if "in_request t q" "a # p = q @ Do (leave t) # later os t rs" for q rs
    by (rule in_request_cases [OF that]) (rule enter, assumption, simp, rule work, assumption, assumption, simp, rule leaves)
  from assms consider rs where "a # p = later os t rs" "l = no_locals"
    | q rs where "a # p = q @ Do (leave t) # later os t rs" "in_request t q"
    unfolding outside_def by blast
  then show thesis
  proof cases
    case 1
    then obtain r rs' where rs: "a # p = acts os t r @ later os t rs'"
      by (cases rs) (auto simp: later_Cons, simp add: later_def)
    show thesis
    proof (cases r)
      case (Run vmid)
      with rs quiet_run_steps show thesis by (intro request [OF request_steps [of "run_steps os vmid"], of rs']) auto
    next
      case (Kill vmid)
      with rs quiet_kill_steps show thesis by (intro request [OF request_steps [of "kill_steps vmid"], of rs']) auto
    next
      case (New templ memory cpus)
      have "section_left (new_steps os templ memory cpus) c l" for c
        unfolding section_left_def
        by (intro exI [of _ Searching]) (simp add: new_section phase_inv_def 1 no_locals_def made_of_def)
      with rs New request_Nil have "a = Lock" "\<And>c. inside os t p c l"
        by (auto simp: inside_def ScopedLock_def intro!: exI [of _ "[]"] exI [of _ rs'] exI [of _ "new_steps os templ memory cpus"])
      then show thesis by (rule enter)
    next
      case (List n)
      with rs show thesis by (intro request [OF list_request, of n rs']) auto
    next
      case (Outside f)
      with rs 1(2) have "a = Do (\<lambda>s. s\<lparr>nt_ctl := (nt_ctl s)\<lparr>c_world := f (c_world (nt_ctl s))\<rparr>\<rparr>)" "outside os t p l"
        by (auto simp: outside_def)
      then show thesis by (rule world)
    qed
  qed (rule request)
qed

text \<open>The first act of the thread that holds the lock.\<close>

lemma inside_cases:
  assumes "inside os t (a # p) c l"
  obtains (unlock) "a = Unlock" "\<And>l. outside os t p l"
    | (step) m ms ph ph' where "a = Do (in_thread t m)" "phase_step ph m ph'" "phase_inv ph c l"
        "\<And>c l. phase_inv ph' c l \<Longrightarrow> inside os t p c l"
proof -
  obtain ms q rs where p: "a # p = map Do (map (in_thread t) ms) @ Unlock # q @ Do (leave t) # later os t rs"
      "section_left ms c l" "in_request t q"
    using assms by (auto simp: inside_def)
  show thesis
  proof (cases ms)
    case Nil
    with p show thesis by (intro unlock) (auto simp: outside_def)
  next
    case (Cons m ms')
    with p(2) obtain ph ph' where "phase_step ph m ph'" "proceeds ph' ms'" "phase_inv ph c l"
      by (auto simp: section_left_def elim: proceeds_ConsE)
    with Cons p show thesis by (intro step [of m ph ph']) (auto simp: inside_def section_left_def)
  qed
qed

section \<open>All threads\<close>

definition held :: "nat option \<Rightarrow> mutex" where
  "held h = (case h of None \<Rightarrow> Mutex_new | Some u \<Rightarrow> \<lparr>owner = Some u, depth = 1\<rparr>)"

definition placed :: "os \<Rightarrow> nat option \<Rightarrow> (nat \<Rightarrow> nthreads act list) \<Rightarrow> nthreads \<Rightarrow> nat \<Rightarrow> bool" where
  "placed os h td x t \<longleftrightarrow>
    (if h = Some t then inside os t (td t) (nt_ctl x) (nt_locals x t) else outside os t (td t) (nt_locals x t))"

definition locking :: "os \<Rightarrow> controller \<Rightarrow> nthreads sys \<Rightarrow> bool" where
  "locking os c0 s \<longleftrightarrow> ids_ok c0 (shared s) \<and> (\<exists>h. mtx s = held h \<and> (\<forall>t. placed os h (todo s) (shared s) t))"

lemma inside_frame: "inside os t p c l \<Longrightarrow> known c' = known c \<Longrightarrow> nextId c' = nextId c \<Longrightarrow> inside os t p c' l"
proof -
  assume same: "known c' = known c" "nextId c' = nextId c"
  then have "phase_inv ph c' l = phase_inv ph c l" for ph by (cases ph) (simp_all add: phase_inv_def)
  then show "inside os t p c l \<Longrightarrow> inside os t p c' l" by (simp only: inside_def section_left_def)
qed

lemma placedD:
  "\<forall>t. placed os h td x t \<Longrightarrow> h = Some t \<Longrightarrow> td t = p \<Longrightarrow> inside os t p (nt_ctl x) (nt_locals x t)"
  "\<forall>t. placed os h td x t \<Longrightarrow> h \<noteq> Some t \<Longrightarrow> td t = p \<Longrightarrow> outside os t p (nt_locals x t)"
  by (drule spec [of _ t], simp add: placed_def)+

lemma placed_other:
  "placed os h td x u \<Longrightarrow> u \<noteq> t \<Longrightarrow> h = Some u \<longrightarrow> known c = known (nt_ctl x) \<and> nextId c = nextId (nt_ctl x) \<Longrightarrow>
   placed os h (td(t := p)) (x\<lparr>nt_ctl := c, nt_locals := (nt_locals x)(t := l)\<rparr>) u"
  by (auto simp: placed_def intro: inside_frame)

lemma mutex_held:
  "Mutex_lock t (held h) = Some m \<Longrightarrow> h \<noteq> Some t \<Longrightarrow> h = None \<and> m = held (Some t)"
  "Mutex_unlock t (held (Some t)) = held None"
  by (auto simp: Mutex_lock_def Mutex_unlock_def held_def Mutex_new_def split: option.splits if_splits)

lemma locking_do:
  assumes s: "ids_ok c0 x" "\<forall>t. placed os h td x t" and td: "td t = Do f # p" and inv: "ctl_inv wdir (nt_ctl x)"
  shows "ids_ok c0 (f x) \<and> (\<forall>u. placed os h (td(t := p)) (f x) u) \<and> known (nt_ctl x) \<subseteq>\<^sub>m known (nt_ctl (f x))"
proof (cases "h = Some t")
  case True
  then have "inside os t (Do f # p) (nt_ctl x) (nt_locals x t)" using placedD(1) [OF s(2) _ td] by simp
  then obtain m ph ph' where m: "f = in_thread t m" "phase_step ph m ph'" "phase_inv ph (nt_ctl x) (nt_locals x t)"
    "\<And>c l. phase_inv ph' c l \<Longrightarrow> inside os t p c l"
    by (elim inside_cases) auto
  obtain c l where x: "apply_step m (nt_ctl x, nt_locals x t) = (c, l)" by fastforce
  then have fx: "f x = x\<lparr>nt_ctl := c, nt_locals := (nt_locals x)(t := l)\<rparr>" by (simp add: m(1) in_thread_def)
  note left = phase_apply [OF m(2,3) x inv]
  have "placed os h (td(t := p)) (f x) u" for u
  proof (cases "u = t")
    case False
    with True s(2) show ?thesis unfolding fx by (intro placed_other) auto
  qed (use True left m(4) in \<open>simp add: placed_def fx\<close>)
  moreover have "ids_ok c0 (f x)" unfolding fx by (rule ids_ok_step [OF s(1)]) (use left in auto)
  ultimately show ?thesis using left by (simp add: fx)
next
  case False
  then have "outside os t (Do f # p) (nt_locals x t)" using placedD(2) [OF s(2) _ td] by simp
  then show ?thesis
  proof (cases rule: outside_cases)
    case (work m)
    obtain c l where x: "apply_step m (nt_ctl x, nt_locals x t) = (c, l)" by fastforce
    then have fx: "f x = x\<lparr>nt_ctl := c, nt_locals := (nt_locals x)(t := l)\<rparr>" using work(1) by (simp add: in_thread_def)
    have q: "known c = known (nt_ctl x)" "nextId c = nextId (nt_ctl x)" "may_make (nt_ctl x) c (made_of (nt_locals x t)) (made_of l)"
      using calm_apply [OF quiet_calm [OF work(2)] _ x] work(2) inv by (auto simp: ctl_inv_def may_make_def)
    have "placed os h (td(t := p)) (f x) u" for u
    proof (cases "u = t")
      case False
      with s(2) q show ?thesis unfolding fx by (intro placed_other) auto
    qed (use \<open>h \<noteq> Some t\<close> work(3) in \<open>simp add: placed_def fx\<close>)
    with ids_ok_step [OF s(1), of c t l] q show ?thesis by (simp add: fx)
  next
    case leaves
    then have fx: "f = leave t" by simp
    have "placed os h (td(t := p)) (f x) u" for u
      using s(2) False leaves(2) by (auto simp: placed_def fx leave_def)
    with ids_ok_leave [OF s(1)] show ?thesis by (simp add: fx leave_def)
  next
    case (world g)
    then have fx: "f x = x\<lparr>nt_ctl := (nt_ctl x)\<lparr>c_world := g (c_world (nt_ctl x))\<rparr>\<rparr>" by simp
    have "ids_ok c0 (f x)" using s(1) by (simp add: fx ids_ok_def ids_made_def)
    moreover have "placed os h (td(t := p)) (f x) u" for u
    proof (cases "u = t")
      case False
      with s(2) placed_other [of os h td x u t "(nt_ctl x)\<lparr>c_world := g (c_world (nt_ctl x))\<rparr>" p "nt_locals x t"]
      show ?thesis by (simp add: fx)
    qed (use \<open>h \<noteq> Some t\<close> world(2) in \<open>simp add: placed_def fx\<close>)
    ultimately show ?thesis by (simp add: fx)
  qed simp
qed

lemma locking_step:
  assumes "tstep s s'" "locking os c0 s" "ctl_inv wdir (nt_ctl (shared s))"
  shows "locking os c0 s' \<and> known (nt_ctl (shared s)) \<subseteq>\<^sub>m known (nt_ctl (shared s'))"
proof -
  obtain h where h: "ids_ok c0 (shared s)" "mtx s = held h" "\<forall>t. placed os h (todo s) (shared s) t"
    using assms(2) by (auto simp: locking_def)
  show ?thesis
    using assms(1)
  proof cases
    case (step_lock t p m)
    have "h \<noteq> Some t"
    proof
      assume "h = Some t"
      with placedD(1) [OF h(3) _ step_lock(2)] have "inside os t (Lock # p) (nt_ctl (shared s)) (nt_locals (shared s) t)" .
      then show False by (elim inside_cases) auto
    qed
    moreover from placedD(2) [OF h(3) this step_lock(2)] have "outside os t (Lock # p) (nt_locals (shared s) t)" .
    then have "\<And>c. inside os t p c (nt_locals (shared s) t)" by (elim outside_cases) auto
    ultimately show ?thesis
      using h mutex_held(1) [of t h m] step_lock
      by (auto simp: locking_def placed_def intro!: exI [of _ "Some t"])
  next
    case (step_unlock t p)
    have "h = Some t"
    proof (rule ccontr)
      assume "h \<noteq> Some t"
      with placedD(2) [OF h(3) _ step_unlock(2)] have "outside os t (Unlock # p) (nt_locals (shared s) t)" .
      then show False by (elim outside_cases) auto
    qed
    moreover from placedD(1) [OF h(3) this step_unlock(2)] have "inside os t (Unlock # p) (nt_ctl (shared s)) (nt_locals (shared s) t)" .
    then have "\<And>l. outside os t p l" by (elim inside_cases) auto
    ultimately show ?thesis
      using h mutex_held(2) [of t] step_unlock
      by (auto simp: locking_def placed_def intro!: exI [of _ "None"])
  next
    case (step_do t f p)
    from locking_do [OF h(1,3) step_do(2) assms(3)] h(2) step_do(1) show ?thesis
      by (auto simp: locking_def intro!: exI [of _ h])
  qed
qed

text \<open>What holds in every state that the threads of a node reach.\<close>

definition sound :: "os \<Rightarrow> (nat \<Rightarrow> req list) \<Rightarrow> string \<Rightarrow> controller \<Rightarrow> nthreads sys \<Rightarrow> bool" where
  "sound os reqs wdir c0 s \<longleftrightarrow>
    (\<forall>t. set (todo s t) \<subseteq> set (node_program os reqs t)) \<and> node_inv wdir (shared s) \<and> locking os c0 s"

lemma sound_start:
  assumes "ctl_inv wdir c"
  shows "sound os reqs wdir c (system (node_program os reqs) (node_threads c))"
proof -
  have "placed os None (node_program os reqs) (node_threads c) t" for t
    by (auto simp: placed_def outside_def node_program_def later_def node_threads_def)
  moreover have "ids_ok c (node_threads c)"
    by (simp add: ids_ok_def node_threads_def ids_made_def made_of_def no_locals_def)
  ultimately show ?thesis
    using assms no_locals_inv
    by (auto simp: sound_def locking_def system_def held_def node_inv_def node_threads_def intro!: exI [of _ None])
qed

lemma sound_step:
  assumes "tstep s s'" "sound os reqs wdir c0 s"
  shows "sound os reqs wdir c0 s' \<and> known (nt_ctl (shared s)) \<subseteq>\<^sub>m known (nt_ctl (shared s'))"
proof -
  have "node_inv wdir (shared s')"
  proof (rule tstep_shared [where P = "node_inv wdir", OF assms(1)])
    fix t f x
    assume "Do f \<in> set (todo s t)" "node_inv wdir x"
    with assms(2) show "node_inv wdir (f x)" by (intro node_inv_program [of f os reqs t]) (auto simp: sound_def)
  qed (use assms(2) in \<open>simp add: sound_def\<close>)
  moreover have "set (todo s' t) \<subseteq> set (todo s t)" for t
    using tsteps_todo [OF r_into_rtranclp [of tstep, OF assms(1)]] .
  moreover have "ctl_inv wdir (nt_ctl (shared s))" using assms(2) by (simp add: sound_def node_inv_def)
  ultimately show ?thesis using assms(2) locking_step [OF assms(1)] unfolding sound_def by blast
qed

lemma sound_steps:
  assumes "tstep\<^sup>*\<^sup>* s s'" "sound os reqs wdir c0 s"
  shows "sound os reqs wdir c0 s' \<and> known (nt_ctl (shared s)) \<subseteq>\<^sub>m known (nt_ctl (shared s'))"
  using assms(1)
proof (induction rule: rtranclp_induct)
  case (step y z)
  with sound_step [OF step.hyps(2), of os reqs wdir c0] show ?case by (blast intro: map_le_trans)
qed (use assms(2) in simp)

lemmas sound_reachable = sound_steps [OF _ sound_start]

lemma in_answer_ids: "Inr (Made j) \<in> set as \<Longrightarrow> i_id j \<in> set (answer_ids as)"
  by (force simp: answer_ids_def)

lemma answer_ids_Cons: "answer_ids (Inr (Made i) # as) = i_id i # answer_ids as"
  by (simp add: answer_ids_def)

lemma distinct_answers:
  assumes "distinct (answer_ids as)" "m < n" "n < length as" "as ! m = Inr (Made i)" "as ! n = Inr (Made j)"
  shows "i_id i \<noteq> i_id j"
proof -
  have as: "as = take m as @ Inr (Made i) # drop (Suc m) as" using assms(2-4) id_take_nth_drop [of m as] by simp
  have "answer_ids as = answer_ids (take m as) @ i_id i # answer_ids (drop (Suc m) as)"
    using arg_cong [OF as, of answer_ids] by (simp add: answer_ids_Cons)
  moreover have "Inr (Made j) \<in> set (drop (Suc m) as)"
    using nth_mem [of "n - Suc m" "drop (Suc m) as"] assms(2,3,5) by simp
  ultimately show ?thesis using assms(1) in_answer_ids by fastforce
qed

section \<open>Properties\<close>

text \<open>
  C8. Whatever requests the handlers of a node work on, however their statements are interleaved and
  however the host changes meanwhile: no machine is ever lost, each stays under its id with its
  memory, processors, template and command line, its numbers are of type \<open>int\<close>, and machines
  that appear are well-formed too.
\<close>

theorem interleaved_machines_kept:
  assumes "ctl_inv wdir c" and "tstep\<^sup>*\<^sup>* (system (node_program os reqs) (node_threads c)) s" and "tstep\<^sup>*\<^sup>* s s'"
  shows "(\<forall>k i'. map_find (instances (nt_ctl (shared s'))) k = Some i' \<longrightarrow> inst_inv wdir k i')
    \<and> (\<forall>k i. map_find (instances (nt_ctl (shared s))) k = Some i \<longrightarrow>
         (\<exists>i'. map_find (instances (nt_ctl (shared s'))) k = Some i' \<and> i_id i' = k
            \<and> i_memory i' = i_memory i \<and> i_cpus i' = i_cpus i \<and> i_template i' = i_template i
            \<and> p_opts (i_process i') = p_opts (i_process i) \<and> in_int (i_sshPort i')))"
proof -
  have "sound os reqs wdir c s" using sound_reachable [OF assms(2,1)] by blast
  with sound_steps [OF assms(3)] have s': "sound os reqs wdir c s'"
    "known (nt_ctl (shared s)) \<subseteq>\<^sub>m known (nt_ctl (shared s'))" by blast+
  have inv: "inst_inv wdir k i'" if "map_find (instances (nt_ctl (shared s'))) k = Some i'" for k i'
    using s'(1) that by (simp add: sound_def node_inv_def ctl_inv_def)
  have "\<exists>i'. map_find (instances (nt_ctl (shared s'))) k = Some i' \<and> identity i' = identity i"
    if "map_find (instances (nt_ctl (shared s))) k = Some i" for k i
    using that knownD [OF s'(2), of k] by (simp add: known_def)
  then show ?thesis by (fastforce simp: identity_def dest: inv simp: inst_inv_def intro: inv)
qed

theorem interleaved_machines_kept_witness:
  "\<exists>s'. tstep\<^sup>*\<^sup>* (system (node_program plain_os (\<lambda>t. if t < 2 then [Run 1000] else [])) (node_threads (vm_node 2200))) s'
    \<and> todo s' 0 = [] \<and> todo s' 1 \<noteq> []
    \<and> (\<exists>i'. map_find (instances (nt_ctl (shared s'))) 1000 = Some i' \<and> i_id i' = 1000
         \<and> i_memory i' = 64 \<and> i_cpus i' = 2 \<and> i_template i' = cirros
         \<and> p_opts (i_process i') = p_opts (i_process (one_vm 2200)) \<and> in_int (i_sshPort i'))"
proof -
  let ?reqs = "\<lambda>t :: nat. if t < 2 then [Run 1000] else []"
  let ?s = "system (node_program plain_os ?reqs) (node_threads (vm_node 2200))"
  let ?fs = "map (in_thread 0) (run_steps plain_os 1000) @ [leave 0]"
  let ?s' = "?s\<lparr>todo := (todo ?s)(0 := []), shared := effect ?fs (shared ?s)\<rparr>"
  have "todo ?s 0 = map Do ?fs @ []" by (simp add: system_def node_program_def comp_def)
  then have run: "tstep\<^sup>*\<^sup>* ?s ?s'" by (rule run_body)
  have found: "map_find (instances (nt_ctl (shared ?s))) 1000 = Some (one_vm 2200)"
    by (simp add: system_def node_threads_def)
  obtain i' where "map_find (instances (nt_ctl (shared ?s'))) 1000 = Some i'" "i_id i' = 1000"
    "i_memory i' = i_memory (one_vm 2200)" "i_cpus i' = i_cpus (one_vm 2200)" "i_template i' = i_template (one_vm 2200)"
    "p_opts (i_process i') = p_opts (i_process (one_vm 2200))" "in_int (i_sshPort i')"
    using interleaved_machines_kept [OF vm_node_inv rtranclp.rtrancl_refl run] found by blast
  moreover have "todo ?s' 0 = []" "todo ?s' 1 \<noteq> []"
    by (simp_all add: system_def node_program_def)
  ultimately show ?thesis
    using run by (intro exI [of _ ?s'] conjI exI [of _ i']) (simp_all add: one_vm_def)
qed

text \<open>
  C7. However many clients create machines at the same time, and whatever the unlocked \<open>run\<close> and \<open>kill\<close>
  requests and the host do in between, no two requests are answered with the same machine: the
  ids of all machines made are different, none was there before, and each is filed at the node.
\<close>

theorem concurrent_instantiates_distinct:
  assumes "ctl_inv wdir c" and "tstep\<^sup>*\<^sup>* (system (node_program os reqs) (node_threads c)) s"
    and "nt_answers (shared s) t ! m = Inr (Made i)" and "m < length (nt_answers (shared s) t)"
    and "nt_answers (shared s) u ! n = Inr (Made j)" and "n < length (nt_answers (shared s) u)"
    and "(t, m) \<noteq> (u, n)"
  shows "i_id i \<noteq> i_id j \<and> map_find (instances c) (i_id i) = None
    \<and> map_find (instances (nt_ctl (shared s))) (i_id i) \<noteq> None"
proof -
  have ok: "ids_ok c (shared s)" using sound_reachable [OF assms(2,1)] by (simp add: sound_def locking_def)
  have ids: "distinct (answer_ids (nt_answers (shared s) v))"
    "k \<in> set (answer_ids (nt_answers (shared s) v)) \<Longrightarrow> k \<in> set (ids_made (shared s) v)" for v k
    using ok by (auto simp: ids_ok_def ids_made_def)
  have i: "i_id i \<in> set (ids_made (shared s) t)" and j: "i_id j \<in> set (ids_made (shared s) u)"
    using nth_mem [OF assms(4)] nth_mem [OF assms(6)] assms(3,5) by (auto intro!: ids(2) in_answer_ids)
  have "i_id i \<noteq> i_id j"
  proof (cases "t = u")
    case True
    with assms(7) consider "m < n" | "n < m" by fastforce
    then show ?thesis
      using distinct_answers [OF ids(1) [of t], of m n i j] distinct_answers [OF ids(1) [of t], of n m j i] assms(3-6) True
      by cases auto
  next
    case False
    with ok have "set (ids_made (shared s) t) \<inter> set (ids_made (shared s) u) = {}" by (simp add: ids_ok_def)
    with i j show ?thesis by auto
  qed
  with ok i show ?thesis by (fastforce simp: ids_ok_def known_def)
qed

text \<open>
  Two clients that each create a machine at a node without any; in between the host is put back
  to where it was.
\<close>

lemma node_creates_first:
  "\<exists>i. instantiate plain_os cirros 64 2 node = (Inr i, node\<lparr>nextPort := 2202, nextId := 1000,
      instances := [(1000, i)], c_world := c_world (snd (instantiate plain_os cirros 64 2 node))\<rparr>)"
proof -
  have c: "map_find the_templates (t_name cirros) = Some cirros"
    by (simp add: the_templates_def cirros_def wheezy_def map_find_def)
  have n: "templates node = the_templates" "in_int (nextPort node)" "in_int 64" "in_int 2"
    by (simp_all add: node_def in_int_def int_min_def int_max_def)
  obtain k p i w where new: "instantiate plain_os cirros 64 2 node =
      (Inr i, node\<lparr>nextPort := p, nextId := k, instances := map_put k i (instances node), c_world := w\<rparr>)"
    "nextId node \<le> k" "\<forall>j. nextId node \<le> j \<and> j < k \<longrightarrow> \<not> fresh_id node j"
    "nextPort node < p" "\<not> busy (c_world node) p" "\<forall>q. nextPort node < q \<and> q < p \<longrightarrow> busy (c_world node) q"
    using instantiate_hosted [OF node_can_host n(1) c n(3,4,2)] unfolding Let_def by blast
  have "fresh_id node 1000"
    by (simp add: fresh_id_def node_def taken_world_def idle_world_def mkInstDir_def)
  then have "k = 1000" using new(2) new(3) [rule_format, of 1000] by (force simp: node_def)
  moreover have "p = 2202"
  proof (rule ccontr)
    assume "p \<noteq> 2202"
    moreover have "p \<noteq> 2201" using new(5) by (auto simp: node_def)
    moreover have "p > 2200" using new(4) by (simp add: node_def)
    ultimately have "2202 < p" by simp
    with new(6) [rule_format, of 2202] show False by (simp add: node_def)
  qed
  ultimately show ?thesis using new(1) by (simp add: node_def)
qed

lemma second_creates:
  "\<exists>j c. instantiate plain_os cirros 64 2 (node\<lparr>nextPort := 2202, nextId := 1000, instances := [(1000, i)]\<rparr>) = (Inr j, c)"
proof -
  let ?c = "node\<lparr>nextPort := 2202, nextId := 1000, instances := [(1000, i)]\<rparr>"
  have "\<not> w_connects taken_world ''127.0.0.1'' 22" by (simp add: taken_world_def)
  moreover have "fresh_id ?c 1001"
    by (simp add: fresh_id_def node_def taken_world_def idle_world_def mkInstDir_def map_find_def)
  moreover have "fs_ok taken_world" using idle_fs_ok by (simp add: taken_world_def)
  ultimately have host: "can_host plain_os ?c"
    unfolding can_host_def
    by (auto simp: node_def mkdir_works_def plain_os_def in_int_def int_min_def int_max_def
        clock_ok_def taken_world_def idle_world_def Let_def intro!: exI [of _ 1001])
  have c: "map_find the_templates (t_name cirros) = Some cirros"
    by (simp add: the_templates_def cirros_def wheezy_def map_find_def)
  have n: "templates ?c = the_templates" "in_int (nextPort ?c)" "in_int 64" "in_int 2"
    by (simp_all add: node_def in_int_def int_min_def int_max_def)
  show ?thesis using instantiate_hosted [OF host n(1) c n(3,4,2)] unfolding Let_def by blast
qed

lemma outside_step:
  "tstep\<^sup>*\<^sup>* (scene (acts os 0 (Outside f) @ p) q c l l' as as') (scene p q (c\<lparr>c_world := f (c_world c)\<rparr>) l l' as as')"
proof -
  let ?f = "\<lambda>s. s\<lparr>nt_ctl := (nt_ctl s)\<lparr>c_world := f (c_world (nt_ctl s))\<rparr>\<rparr>"
  have "tstep (scene (Do ?f # p) q c l l' as as') (scene p q (c\<lparr>c_world := f (c_world c)\<rparr>) l l' as as')"
    using step_do [of "scene (Do ?f # p) q c l l' as as'" 0 ?f p]
      scene_updates(1) [where p = "Do ?f # p" and q = q and c = c and l = l and l' = l' and as = as and as' = as'
        and ?p1.0 = p and ?c1.0 = "c\<lparr>c_world := f (c_world c)\<rparr>" and ?l1.0 = l]
    by (simp add: fun_upd_idem del: fun_upd_apply)
  then show ?thesis by simp
qed

theorem concurrent_instantiates_distinct_witness:
  "\<exists>s i j. tstep\<^sup>*\<^sup>* (system (node_program plain_os (\<lambda>t. if t = 0 then [New cirros 64 2, Outside (\<lambda>_. taken_world)]
        else if t = 1 then [New cirros 64 2] else [])) (node_threads node)) s
    \<and> nt_answers (shared s) 0 = [Inr (Made i)] \<and> nt_answers (shared s) 1 = [Inr (Made j)]
    \<and> i_id i \<noteq> i_id j \<and> map_find (instances node) (i_id i) = None \<and> map_find (instances (nt_ctl (shared s))) (i_id i) \<noteq> None"
proof -
  obtain i w where i: "instantiate plain_os cirros 64 2 node
      = (Inr i, node\<lparr>nextPort := 2202, nextId := 1000, instances := [(1000, i)], c_world := w\<rparr>)"
    using node_creates_first by blast
  let ?c1 = "node\<lparr>nextPort := 2202, nextId := 1000, instances := [(1000, i)], c_world := w\<rparr>"
  let ?c2 = "node\<lparr>nextPort := 2202, nextId := 1000, instances := [(1000, i)]\<rparr>"
  obtain j c3 where j: "instantiate plain_os cirros 64 2 ?c2 = (Inr j, c3)" using second_creates by blast
  let ?out = "acts plain_os 0 (Outside (\<lambda>_. taken_world))" and ?new = "acts plain_os (Suc 0) (New cirros 64 2)"
  obtain l1 where l1: "tstep\<^sup>*\<^sup>* (scene (acts plain_os 0 (New cirros 64 2) @ ?out) ?new node no_locals no_locals [] [])
      (scene (Do (leave 0) # ?out) ?new ?c1 l1 no_locals [] [])" "l_answer l1 = Some (Inr (Made i))"
    using scene_instantiates(1) [OF i] by blast
  have out: "tstep\<^sup>*\<^sup>* (scene ?out ?new ?c1 no_locals no_locals ([] @ [Inr (Made i)]) [])
      (scene [] ?new ?c2 no_locals no_locals ([] @ [Inr (Made i)]) [])"
    using outside_step [where os = plain_os and f = "\<lambda>_. taken_world" and p = "[]" and q = ?new and c = ?c1
        and l = no_locals and l' = no_locals and as = "[Inr (Made i)]" and as' = "[]"] by (simp add: node_def)
  obtain l2 where l2: "tstep\<^sup>*\<^sup>* (scene [] ?new ?c2 no_locals no_locals ([] @ [Inr (Made i)]) [])
      (scene [] [Do (leave (Suc 0))] c3 no_locals l2 ([] @ [Inr (Made i)]) [])" "l_answer l2 = Some (Inr (Made j))"
    using scene_instantiates(2) [OF j, of "[]" "[]"] unfolding append_Nil2 by blast
  let ?s = "scene [] [] c3 no_locals no_locals ([] @ [Inr (Made i)]) ([] @ [Inr (Made j)])"
  have "tstep\<^sup>*\<^sup>* (scene (acts plain_os 0 (New cirros 64 2) @ ?out) ?new node no_locals no_locals [] []) ?s"
    by (intro rtranclp_trans [OF l1(1)] rtranclp_trans [OF scene_leaves(1) [OF l1(2)]] rtranclp_trans [OF out]
        rtranclp_trans [OF l2(1)] scene_leaves(2) [OF l2(2)])
  then have run: "tstep\<^sup>*\<^sup>* (system (node_program plain_os (\<lambda>t. if t = 0 then [New cirros 64 2, Outside (\<lambda>_. taken_world)]
      else if t = 1 then [New cirros 64 2] else [])) (node_threads node)) ?s"
    unfolding scene_begins by simp
  have inv: "ctl_inv ''/tmp/s1'' node"
    by (simp add: ctl_inv_def node_def in_int_def int_min_def int_max_def)
  have "i_id i \<noteq> i_id j \<and> map_find (instances node) (i_id i) = None \<and> map_find (instances (nt_ctl (shared ?s))) (i_id i) \<noteq> None"
    using concurrent_instantiates_distinct [OF inv run, of 0 0 i 1 0 j] by simp
  with run show ?thesis by (intro exI [of _ ?s] exI [of _ i] exI [of _ j]) simp
qed

end
