(* ===== verification/Node_Listing.thy ===== *)
theory Node_Listing
  imports Node_Locking
begin

text \<open>
  A listing that is interleaved with other requests: it takes the lock twice, to see whether there
  are machines and to copy them, and describes the copied machines without it, while others are
  created, run and killed.
\<close>

section \<open>Rows\<close>

text \<open>A row for the id of a machine, and the rows for the ids \<open>ks\<close> of a copy of which \<open>rest\<close> is left.\<close>

fun row_of :: "int \<Rightarrow> ident \<Rightarrow> instanceInfo \<Rightarrow> bool" where
  "row_of k (i, memory, cpus, templ, path, opts) r \<longleftrightarrow>
    ii_id r = to_string k \<and> ii_templ r = t_name templ \<and> ii_memory r = memory \<and> ii_cpus r = cpus"

definition listed :: "(int \<Rightarrow> ident option) \<Rightarrow> controller \<Rightarrow> int list \<Rightarrow> instanceInfo list \<Rightarrow> int list \<Rightarrow> bool" where
  "listed J c ks rows rest \<longleftrightarrow>
    sorted_wrt (<) (ks @ rest) \<and> dom J \<subseteq> set (ks @ rest) \<and> (\<forall>k \<in> set rest. known c k \<noteq> None)
    \<and> list_all2 (\<lambda>k r. \<exists>d. known c k = Some d \<and> row_of k d r) ks rows"

lemma listed_known:
  assumes "listed J c ks rows rest"
  shows "set (ks @ rest) \<subseteq> dom (known c)"
proof -
  have "known c k \<noteq> None" if "k \<in> set ks" for k
    using assms that list_all2_nthD [of "\<lambda>k r. \<exists>d. known c k = Some d \<and> row_of k d r" ks rows]
    unfolding listed_def in_set_conv_nth by (metis option.discI)
  moreover have "known c k \<noteq> None" if "k \<in> set rest" for k using assms that by (simp add: listed_def)
  ultimately show ?thesis by (auto simp only: set_append domIff Un_iff)
qed

lemma listed_mono:
  assumes "listed J c ks rows rest" "known c \<subseteq>\<^sub>m known c'"
  shows "listed J c' ks rows rest"
proof -
  have on: "known c k = Some d \<Longrightarrow> known c' k = Some d" for k d using knownD [OF assms(2), of k] by auto
  have "list_all2 (\<lambda>k r. \<exists>d. known c k = Some d \<and> row_of k d r) ks rows" using assms(1) by (simp add: listed_def)
  then have "list_all2 (\<lambda>k r. \<exists>d. known c' k = Some d \<and> row_of k d r) ks rows"
    by (rule list_all2_mono) (blast intro: on)
  with assms(1) knownD [OF assms(2)] show ?thesis unfolding listed_def by (metis)
qed

lemma known_dom: "dom (known c) = set (map fst (instances c))"
proof -
  have "dom (known c) = dom (map_of (instances c))" by (simp only: known_def [abs_def] map_find_def dom_map_option_comp [unfolded comp_def])
  then show ?thesis by (simp add: dom_map_of_conv_image_fst)
qed

lemma known_card: "map_ok (instances c) \<Longrightarrow> card (dom (known c)) = length (instances c)"
  unfolding known_dom by (subst distinct_card) (auto simp: map_ok_def strict_sorted_iff)

lemma known_finite: "finite (dom (known c))"
  by (simp add: known_dom)

lemma listed_length:
  assumes "listed J c ks rows rest"
  shows "length ks + length rest \<le> card (dom (known c))"
proof -
  have "distinct (ks @ rest)" using assms by (simp add: listed_def strict_sorted_iff)
  from distinct_card [OF this] card_mono [OF known_finite listed_known [OF assms]] show ?thesis by simp
qed

text \<open>A machine that is being described is the one under its id: the invariant of the controller.\<close>

lemma info_row: "i_id i = k \<Longrightarrow> row_of k (identity i) (getInstanceInfo i w)"
  by (simp add: identity_def getInstanceInfo_def)

section \<open>The statements of a listing\<close>

text \<open>
  The answer of a listing that was asked for when the machines were \<open>J\<close>: rows for machines of the
  node, at least those, in the order of their ids; or none, if the loop was not unrolled far enough.
\<close>

definition listing_answer :: "(int \<Rightarrow> ident option) \<Rightarrow> nat \<Rightarrow> controller \<Rightarrow> answer res \<Rightarrow> bool" where
  "listing_answer J n c a \<longleftrightarrow>
    (\<exists>ks rows. a = Inr (Listed rows) \<and> listed J c ks rows []) \<or> a = Inl Loops \<and> n < card (dom (known c))"

lemma listing_answer_mono:
  assumes "listing_answer J n c a" "known c \<subseteq>\<^sub>m known c'"
  shows "listing_answer J n c' a"
  using assms(1) card_mono [OF known_finite map_le_implies_dom_le [OF assms(2)]] listed_mono [OF _ assms(2)]
  unfolding listing_answer_def by (elim disjE exE) (blast, simp)

text \<open>Before the copy, and in the loop, with \<open>j\<close> rounds left of \<open>n\<close>.\<close>

definition before_copy :: "(int \<Rightarrow> ident option) \<Rightarrow> nat \<Rightarrow> controller \<Rightarrow> locals \<Rightarrow> bool" where
  "before_copy J n c l \<longleftrightarrow> (\<forall>a. l_answer l = Some a \<longrightarrow> listing_answer J n c a)"

definition in_loop :: "(int \<Rightarrow> ident option) \<Rightarrow> nat \<Rightarrow> nat \<Rightarrow> controller \<Rightarrow> locals \<Rightarrow> bool" where
  "in_loop J n j c l \<longleftrightarrow> before_copy J n c l \<and> (l_answer l = None \<longrightarrow>
    (\<exists>ks rows rest. l_copy l = Some (rest, rows) \<and> listed J c ks rows rest \<and> (rest \<noteq> [] \<longrightarrow> length ks + j = n)))"

lemma before_copy_mono: "before_copy J n c l \<Longrightarrow> known c \<subseteq>\<^sub>m known c' \<Longrightarrow> before_copy J n c' l"
  unfolding before_copy_def using listing_answer_mono by blast

lemma in_loop_mono:
  assumes "in_loop J n j c l" "known c \<subseteq>\<^sub>m known c'"
  shows "in_loop J n j c' l"
  using assms(1) before_copy_mono [OF _ assms(2)] listed_mono [OF _ assms(2)] unfolding in_loop_def by blast

lemma size_step:
  assumes "before_copy J n c l" "J \<subseteq>\<^sub>m known c"
  shows "\<exists>l'. apply_step list_size (c, l) = (c, l') \<and> before_copy J n c l'"
proof (cases "l_answer l = None \<and> getInstances c = []")
  case True
  then have "dom (known c) = {}" by (simp add: known_dom getInstances_def)
  then have "dom J = {}" using map_le_implies_dom_le [OF assms(2)] by simp
  then have "listed J c [] [] []" by (simp add: listed_def)
  with True show ?thesis
    by (auto simp: apply_step_def list_size_def bnd_gets finish_def assign_def modify_def before_copy_def listing_answer_def)
next
  case False
  with assms(1) show ?thesis
    by (auto simp: apply_step_def list_size_def bnd_gets ret_def)
qed

lemma copy_step:
  assumes "before_copy J n c l" "J \<subseteq>\<^sub>m known c" "map_ok (instances c)"
  shows "\<exists>l'. apply_step list_copy (c, l) = (c, l') \<and> in_loop J n n c l'"
proof -
  let ?ks = "map fst (instances c)"
  have "listed J c [] [] ?ks"
    using assms(3) map_le_implies_dom_le [OF assms(2)] known_dom [of c]
    by (simp add: listed_def map_ok_def del: not_None_eq) (metis domIff imageI)
  with assms(1) show ?thesis
    by (auto simp: apply_step_def list_copy_def bnd_gets assign_def modify_def getInstances_def in_loop_def before_copy_def
        intro!: exI [of _ "[]"])
qed

lemma listed_next:
  assumes "listed J c ks rows (k # rest)" "ctl_inv wdir c"
  shows "\<exists>i. map_find (instances c) k = Some i \<and> listed J c (ks @ [k]) (rows @ [getInstanceInfo i w]) rest"
proof -
  have "known c k \<noteq> None" using assms(1) by (simp add: listed_def)
  then obtain i where i: "map_find (instances c) k = Some i" by (auto simp: known_def)
  then have "i_id i = k" using assms(2) by (simp add: ctl_inv_def inst_inv_def)
  with i have "known c k = Some (identity i)" "row_of k (identity i) (getInstanceInfo i w)"
    by (simp_all add: known_def info_row)
  with assms(1) i show ?thesis unfolding listed_def
    by (intro exI [of _ i]) (auto intro!: list_all2_appendI simp del: row_of.simps)
qed

lemma next_step:
  assumes "in_loop J n (Suc j) c l" "ctl_inv wdir c"
  shows "\<exists>l'. apply_step list_next (c, l) = (c, l') \<and> in_loop J n j c l'"
proof (cases "l_answer l")
  case (Some a)
  with assms(1) show ?thesis by (auto simp: apply_step_def in_loop_def)
next
  case None
  with assms(1) obtain ks rows rest where l: "l_copy l = Some (rest, rows)" "listed J c ks rows rest"
      "rest \<noteq> [] \<longrightarrow> length ks + Suc j = n" "before_copy J n c l"
    by (auto simp: in_loop_def)
  show ?thesis
  proof (cases rest)
    case Nil
    with l None show ?thesis by (auto simp: apply_step_def list_next_def bnd_gets ret_def in_loop_def)
  next
    case (Cons k rest')
    from listed_next [OF l(2) [unfolded Cons] assms(2), of "c_world c"] obtain i where
      i: "map_find (instances c) k = Some i" "listed J c (ks @ [k]) (rows @ [getInstanceInfo i (c_world c)]) rest'" by blast
    let ?l = "l\<lparr>l_copy := Some (rest', rows @ [getInstanceInfo i (c_world c)])\<rparr>"
    have "apply_step list_next (c, l) = (c, ?l)"
      using None l(1) Cons i(1) by (simp add: apply_step_def list_next_def bnd_gets with_inst_def assign_def modify_def)
    moreover have "in_loop J n j c ?l"
      using i(2) l(3,4) Cons None unfolding in_loop_def before_copy_def
      by (intro conjI impI exI [of _ "ks @ [k]"]) auto
    ultimately show ?thesis by blast
  qed
qed

lemma done_step:
  assumes "in_loop J n 0 c l"
  shows "\<exists>l' a. apply_step list_done (c, l) = (c, l') \<and> l_answer l' = Some a \<and> listing_answer J n c a"
proof (cases "l_answer l")
  case (Some a)
  with assms show ?thesis by (auto simp: apply_step_def in_loop_def before_copy_def)
next
  case None
  with assms obtain ks rows rest where l: "l_copy l = Some (rest, rows)" "listed J c ks rows rest"
      "rest \<noteq> [] \<longrightarrow> length ks = n"
    by (auto simp: in_loop_def)
  show ?thesis
  proof (cases rest)
    case Nil
    with l None show ?thesis
      by (auto simp: apply_step_def list_done_def bnd_gets finish_def assign_def modify_def listing_answer_def)
  next
    case (Cons k rest')
    then have "n < card (dom (known c))" using listed_length [OF l(2)] l(3) by simp
    with Cons l(1) None show ?thesis
      by (simp add: apply_step_def list_done_def bnd_gets fail_def listing_answer_def)
  qed
qed

section \<open>A listing among other requests\<close>

abbreviation rounds :: "nat \<Rightarrow> nat \<Rightarrow> nthreads act list" where
  "rounds t j \<equiv> map (\<lambda>m. Do (in_thread t m)) (replicate j list_next @ [list_done])"

text \<open>What is left of the listing, and what holds then.\<close>

inductive list_stage :: "nat \<Rightarrow> nat \<Rightarrow> (int \<Rightarrow> ident option) \<Rightarrow> controller \<Rightarrow> locals \<Rightarrow> nthreads act list \<Rightarrow> bool" for t n J c l where
  stage_size: "before_copy J n c l \<Longrightarrow> q = Lock # q' \<or> q = q' \<Longrightarrow>
    q' = [Do (in_thread t list_size), Unlock, Lock, Do (in_thread t list_copy), Unlock] @ rounds t n \<Longrightarrow> list_stage t n J c l q"
| stage_copy: "before_copy J n c l \<Longrightarrow> q = [Unlock, Lock] @ q' \<or> q = Lock # q' \<or> q = q' \<Longrightarrow>
    q' = [Do (in_thread t list_copy), Unlock] @ rounds t n \<Longrightarrow> list_stage t n J c l q"
| stage_loop: "in_loop J n j c l \<Longrightarrow> q = Unlock # rounds t j \<or> q = rounds t j \<Longrightarrow> list_stage t n J c l q"
| stage_done: "l_answer l = Some a \<Longrightarrow> listing_answer J n c a \<Longrightarrow> list_stage t n J c l []"

lemma list_stage_mono: "list_stage t n J c l q \<Longrightarrow> known c \<subseteq>\<^sub>m known c' \<Longrightarrow> list_stage t n J c' l q"
  by (erule list_stage.cases) (blast intro: list_stage.intros before_copy_mono in_loop_mono listing_answer_mono)+

lemma list_stage_act:
  assumes "list_stage t n J c l (a # q)" "J \<subseteq>\<^sub>m known c" "ctl_inv wdir c"
  shows "a \<in> {Lock, Unlock} \<and> list_stage t n J c l q
    \<or> (\<exists>m l'. a = Do (in_thread t m) \<and> apply_step m (c, l) = (c, l') \<and> list_stage t n J c l' q)"
  using assms(1)
proof cases
  case (stage_size q')
  show ?thesis
  proof (cases "a = Lock")
    case True
    with stage_size show ?thesis by (auto intro: list_stage.stage_size)
  next
    case False
    obtain l' where "apply_step list_size (c, l) = (c, l')" "before_copy J n c l'"
      using size_step [OF stage_size(1) assms(2)] by blast
    with False stage_size show ?thesis
      by (intro disjI2 exI [of _ list_size] exI [of _ l']) (auto intro: list_stage.stage_copy)
  qed
next
  case (stage_copy q')
  show ?thesis
  proof (cases "a \<in> {Lock, Unlock}")
    case True
    with stage_copy show ?thesis by (auto intro: list_stage.stage_copy)
  next
    case False
    have "map_ok (instances c)" using assms(3) by (simp add: ctl_inv_def)
    then obtain l' where "apply_step list_copy (c, l) = (c, l')" "in_loop J n n c l'"
      using copy_step [OF stage_copy(1) assms(2)] by blast
    with False stage_copy show ?thesis
      by (intro disjI2 exI [of _ list_copy] exI [of _ l']) (auto intro: list_stage.stage_loop)
  qed
next
  case (stage_loop j)
  show ?thesis
  proof (cases "a = Unlock")
    case True
    with stage_loop show ?thesis by (cases j) (auto intro: list_stage.stage_loop)
  next
    case False
    show ?thesis
    proof (cases j)
      case 0
      obtain l' b where "apply_step list_done (c, l) = (c, l')" "l_answer l' = Some b" "listing_answer J n c b"
        using done_step [OF stage_loop(1) [unfolded 0]] by blast
      with False stage_loop 0 show ?thesis
        by (intro disjI2 exI [of _ list_done] exI [of _ l']) (auto intro: list_stage.stage_done)
    next
      case (Suc i)
      obtain l' where "apply_step list_next (c, l) = (c, l')" "in_loop J n i c l'"
        using next_step [OF stage_loop(1) [unfolded Suc] assms(3)] by blast
      with False stage_loop Suc show ?thesis
        by (intro disjI2 exI [of _ list_next] exI [of _ l']) (auto intro: list_stage.stage_loop)
    qed
  qed
qed

definition in_listing ::
    "nat \<Rightarrow> nat \<Rightarrow> (int \<Rightarrow> ident option) \<Rightarrow> answer res list \<Rightarrow> nthreads act list \<Rightarrow> nthreads sys \<Rightarrow> bool" where
  "in_listing t n J as p s \<longleftrightarrow>
    (\<exists>q. todo s t = q @ Do (leave t) # p \<and> list_stage t n J (nt_ctl (shared s)) (nt_locals (shared s) t) q
       \<and> nt_answers (shared s) t = as)
    \<or> (\<exists>a bs. nt_answers (shared s) t = as @ a # bs \<and> listing_answer J n (nt_ctl (shared s)) a)"

lemma in_listing_frame:
  assumes "in_listing t n J as p s" "known (nt_ctl (shared s)) \<subseteq>\<^sub>m known (nt_ctl (shared s'))"
    and "todo s' t = todo s t" "nt_locals (shared s') t = nt_locals (shared s) t" "nt_answers (shared s') t = nt_answers (shared s) t"
  shows "in_listing t n J as p s'"
  using assms(1) list_stage_mono [OF _ assms(2)] listing_answer_mono [OF _ assms(2)]
  unfolding in_listing_def assms(3-5) by blast

lemma others_acts:
  "Do f \<in> set (node_program os reqs u) \<Longrightarrow> u \<noteq> t \<Longrightarrow> nt_locals (f x) t = nt_locals x t \<and> nt_answers (f x) t = nt_answers x t"
  by (erule program_cases) (simp_all add: in_thread_def leave_def split: prod.split)

lemma answers_grow: "Do f \<in> set (node_program os reqs u) \<Longrightarrow> \<exists>bs. nt_answers (f x) t = nt_answers x t @ bs"
  by (erule program_cases) (simp_all add: in_thread_def leave_def split: prod.split)

lemma in_listing_own:
  assumes "in_listing t n J as p s" "todo s t = Do f # r" "Do f \<in> set (node_program os reqs t)"
    and "s' = s\<lparr>todo := (todo s)(t := r), shared := f (shared s)\<rparr>"
    and "known (nt_ctl (shared s)) \<subseteq>\<^sub>m known (nt_ctl (f (shared s)))"
    and "J \<subseteq>\<^sub>m known (nt_ctl (shared s))" "ctl_inv wdir (nt_ctl (shared s))"
  shows "in_listing t n J as p s'"
  using assms(1) unfolding in_listing_def [of t n J as p s]
proof (elim disjE exE conjE)
  fix a bs
  assume a: "nt_answers (shared s) t = as @ a # bs" "listing_answer J n (nt_ctl (shared s)) a"
  obtain cs where "nt_answers (f (shared s)) t = nt_answers (shared s) t @ cs" using answers_grow [OF assms(3)] by blast
  with a listing_answer_mono [OF a(2) assms(5)] show ?thesis by (auto simp: in_listing_def assms(4))
next
  fix q
  assume q: "todo s t = q @ Do (leave t) # p" "list_stage t n J (nt_ctl (shared s)) (nt_locals (shared s) t) q"
    "nt_answers (shared s) t = as"
  show ?thesis
  proof (cases q)
    case Nil
    then obtain a where "l_answer (nt_locals (shared s) t) = Some a" "listing_answer J n (nt_ctl (shared s)) a"
      using q(2) by (auto elim: list_stage.cases)
    moreover have "f = leave t" using q(1) Nil assms(2) by simp
    ultimately show ?thesis using q(3) by (simp add: in_listing_def assms(4) leave_def)
  next
    case (Cons b q')
    then have "b = Do f" "r = q' @ Do (leave t) # p" using q(1) assms(2) by simp_all
    with list_stage_act [OF q(2) [unfolded Cons] assms(6,7)] obtain m l' where
      "f = in_thread t m" "apply_step m (nt_ctl (shared s), nt_locals (shared s) t) = (nt_ctl (shared s), l')"
      "list_stage t n J (nt_ctl (shared s)) l' q'" by auto
    with \<open>r = _\<close> q(3) show ?thesis by (auto simp: in_listing_def assms(4) in_thread_def)
  qed
qed

lemma in_listing_step:
  assumes "tstep s s'" "sound os reqs wdir c0 s" "J \<subseteq>\<^sub>m known (nt_ctl (shared s))" "in_listing t n J as p s"
  shows "in_listing t n J as p s'"
proof -
  have inv: "ctl_inv wdir (nt_ctl (shared s))" "set (todo s u) \<subseteq> set (node_program os reqs u)" for u
    using assms(2) by (auto simp: sound_def node_inv_def)
  have grows: "known (nt_ctl (shared s)) \<subseteq>\<^sub>m known (nt_ctl (shared s'))" using sound_step [OF assms(1,2)] by blast
  have lock: "in_listing t n J as p s'"
    if "todo s u = a # r" "a \<in> {Lock, Unlock}" "s' = s\<lparr>mtx := x, todo := (todo s)(u := r)\<rparr>" for u a r x
  proof (cases "u = t")
    case False
    with that(3) show ?thesis by (intro in_listing_frame [OF assms(4) grows]) simp_all
  next
    case True
    from assms(4) show ?thesis
      unfolding in_listing_def [of t n J as p s]
    proof (elim disjE exE conjE)
      fix q
      assume q: "todo s t = q @ Do (leave t) # p" "list_stage t n J (nt_ctl (shared s)) (nt_locals (shared s) t) q"
        "nt_answers (shared s) t = as"
      from q(1) that(1,2) True obtain q' where "q = a # q'" "r = q' @ Do (leave t) # p" by (cases q) auto
      with list_stage_act [OF q(2) [unfolded \<open>q = a # q'\<close>] assms(3) inv(1)] that(2) q(3) that(3) True show ?thesis
        by (auto simp: in_listing_def)
    qed (use that(3) in \<open>auto simp: in_listing_def\<close>)
  qed
  show ?thesis
    using assms(1)
  proof cases
    case (step_lock u r m)
    then show ?thesis by (intro lock [of u Lock r m]) simp_all
  next
    case (step_unlock u r)
    then show ?thesis by (intro lock [of u Unlock r]) auto
  next
    case (step_do u f r)
    then have f: "Do f \<in> set (node_program os reqs u)" using inv(2) [of u] by auto
    show ?thesis
    proof (cases "u = t")
      case True
      with step_do f grows assms(3) inv(1) show ?thesis by (intro in_listing_own [OF assms(4)]) auto
    next
      case False
      with step_do others_acts [OF f False] show ?thesis by (intro in_listing_frame [OF assms(4) grows]) simp_all
    qed
  qed
qed

lemma in_listing_steps:
  assumes "tstep\<^sup>*\<^sup>* s s'" "sound os reqs wdir c0 s" "in_listing t n (known (nt_ctl (shared s))) as p s"
  shows "in_listing t n (known (nt_ctl (shared s))) as p s'"
  using assms(1)
proof (induction rule: rtranclp_induct)
  case (step y z)
  show ?case
    using sound_steps [OF step.hyps(1) assms(2)] by (intro in_listing_step [OF step.hyps(2) _ _ step.IH]) blast+
qed (rule assms(3))

section \<open>A listing alone\<close>

text \<open>Without other threads the rows are those of the machines that there are.\<close>

lemma rounds_alone:
  assumes "l_answer l = None" "l_copy l = Some (map fst rest, rows)" "length rest \<le> j"
    and "\<And>k i. (k, i) \<in> set rest \<Longrightarrow> map_find (instances c) k = Some i"
  shows "\<exists>l'. alone (replicate j list_next @ [list_done]) (c, l) = (c, l')
    \<and> l_answer l' = Some (Inr (Listed (rows @ map (\<lambda>(k, i). getInstanceInfo i (c_world c)) rest)))"
  using assms
proof (induction j arbitrary: l rest rows)
  case 0
  then show ?case
    by (simp add: alone_Cons alone_Nil apply_step_def list_done_def bnd_gets finish_def assign_def modify_def)
next
  case (Suc j)
  show ?case
  proof (cases rest)
    case Nil
    have "apply_step list_next (c, l) = (c, l)"
      using Suc.prems(1,2) Nil by (simp add: apply_step_def list_next_def bnd_gets ret_def)
    with Suc.IH [of l "[]" rows] Suc.prems Nil show ?thesis by (simp add: alone_Cons)
  next
    case (Cons ki rest')
    obtain k i where ki: "ki = (k, i)" by fastforce
    let ?l = "l\<lparr>l_copy := Some (map fst rest', rows @ [getInstanceInfo i (c_world c)])\<rparr>"
    have "map_find (instances c) k = Some i" using Suc.prems(4) Cons ki by simp
    then have "apply_step list_next (c, l) = (c, ?l)"
      using Suc.prems(1,2) Cons ki
      by (simp add: apply_step_def list_next_def bnd_gets with_inst_def assign_def modify_def)
    with Suc.IH [of ?l rest' "rows @ [getInstanceInfo i (c_world c)]"] Suc.prems Cons ki show ?thesis by (simp add: alone_Cons)
  qed
qed

lemma copy_alone:
  assumes "l_answer l = None" "map_ok (instances c)" "length (instances c) \<le> n"
  shows "\<exists>l1 l2. alone [list_copy] (c, l) = (c, l1) \<and> alone (replicate n list_next @ [list_done]) (c, l1) = (c, l2)
    \<and> l_answer l2 = Some (Inr (Listed (map (\<lambda>(k, i). getInstanceInfo i (c_world c)) (instances c))))"
proof -
  let ?l = "l\<lparr>l_copy := Some (map fst (instances c), [])\<rparr>"
  have "alone [list_copy] (c, l) = (c, ?l)"
    using assms(1) by (simp add: alone_Cons alone_Nil apply_step_def list_copy_def bnd_gets assign_def modify_def getInstances_def)
  moreover have "map_find (instances c) k = Some i" if "(k, i) \<in> set (instances c)" for k i
    using assms(2) that by (simp add: map_find_def map_ok_def strict_sorted_iff)
  ultimately show ?thesis
    using rounds_alone [of ?l "instances c" "[]" n c] assms by auto
qed

lemma listing_alone:
  assumes "map_ok (instances c)" "length (instances c) \<le> n"
  shows "\<exists>l. alone (list_size # list_copy # replicate n list_next @ [list_done]) (c, no_locals) = (c, l)
    \<and> l_answer l = Some (Inr (Listed (map (\<lambda>(k, i). getInstanceInfo i (c_world c)) (instances c))))"
proof (cases "instances c = []")
  case True
  then show ?thesis
    by (simp add: alone_Cons apply_step_def list_size_def bnd_gets finish_def assign_def modify_def getInstances_def
        no_locals_def alone_done)
next
  case False
  then have "apply_step list_size (c, no_locals) = (c, no_locals)"
    by (simp add: apply_step_def list_size_def bnd_gets getInstances_def ret_def no_locals_def)
  with copy_alone [OF _ assms, of no_locals] show ?thesis
    by (auto simp: alone_Cons alone_Nil no_locals_def)
qed

lemma instantiate_inv: "instantiate os t memory cpus c = (r, c') \<Longrightarrow> ctl_inv wdir c \<Longrightarrow> ctl_inv wdir c'"
  using yieldsD [where m = "instantiate os t memory cpus" and I = "ctl_inv wdir", OF yields_instantiate] by blast

lemma scene_locked:
  assumes "alone ms (c, l') = (c1, l1)"
  shows "tstep\<^sup>*\<^sup>* (scene p (ScopedLock (map (in_thread (Suc 0)) ms) @ q) c l l' as as') (scene p q c1 l l1 as as')"
  using run_request [of "scene p (ScopedLock (map (in_thread (Suc 0)) ms) @ q) c l l' as as'" "Suc 0"
      "map (in_thread (Suc 0)) ms" q] assms
  by (simp add: ScopedLock_def effect_in_thread scene_updates(2) [unfolded scene_simps] del: fun_upd_apply)

section \<open>Properties\<close>

text \<open>
  C9. A listing that runs while other clients create, run and kill machines, and that started
  in the state \<open>s\<close>: its answer describes machines of the node only, each once and in the order of
  the ids, under its id and with its own template, memory and processors, and it misses no machine
  that was there when the listing began.
\<close>

theorem concurrent_listing:
  assumes "ctl_inv wdir c" and "tstep\<^sup>*\<^sup>* (system (node_program os reqs) (node_threads c)) s"
    and "todo s t = acts os t (List n) @ p" and "nt_locals (shared s) t = no_locals"
    and "tstep\<^sup>*\<^sup>* s s'" and "length (nt_answers (shared s) t) < length (nt_answers (shared s') t)"
    and "length (instances (nt_ctl (shared s'))) \<le> n"
  shows "\<exists>ks rows. nt_answers (shared s') t ! length (nt_answers (shared s) t) = Inr (Listed rows)
    \<and> sorted_wrt (<) ks \<and> length rows = length ks
    \<and> (\<forall>k i. map_find (instances (nt_ctl (shared s))) k = Some i \<longrightarrow> k \<in> set ks)
    \<and> (\<forall>j < length ks. \<exists>i. map_find (instances (nt_ctl (shared s'))) (ks ! j) = Some i
         \<and> ii_id (rows ! j) = to_string (ks ! j) \<and> ii_templ (rows ! j) = t_name (i_template i)
         \<and> ii_memory (rows ! j) = i_memory i \<and> ii_cpus (rows ! j) = i_cpus i)"
proof -
  let ?c = "nt_ctl (shared s)" and ?c' = "nt_ctl (shared s')" and ?as = "nt_answers (shared s) t"
  have sound: "sound os reqs wdir c s" using sound_reachable [OF assms(2,1)] by blast
  have "before_copy (known ?c) n ?c no_locals" by (simp add: before_copy_def no_locals_def)
  then have "list_stage t n (known ?c) ?c no_locals
      (Lock # [Do (in_thread t list_size), Unlock, Lock, Do (in_thread t list_copy), Unlock] @ rounds t n)"
    by (rule stage_size) auto
  then have "in_listing t n (known ?c) ?as p s"
    using assms(3,4) by (auto simp: in_listing_def ScopedLock_def)
  from in_listing_steps [OF assms(5) sound this] assms(6) obtain a bs where
    a: "nt_answers (shared s') t = ?as @ a # bs" "listing_answer (known ?c) n ?c' a"
    by (auto simp: in_listing_def)
  have "map_ok (instances ?c')" using sound_steps [OF assms(5) sound] by (simp add: sound_def node_inv_def ctl_inv_def)
  then have "\<not> n < card (dom (known ?c'))" using assms(7) by (simp add: known_card)
  with a(2) obtain ks rows where rows: "a = Inr (Listed rows)" "listed (known ?c) ?c' ks rows []"
    by (auto simp: listing_answer_def)
  have "\<exists>i. map_find (instances ?c') (ks ! j) = Some i \<and> row_of (ks ! j) (identity i) (rows ! j)" if "j < length ks" for j
    using rows(2) that list_all2_nthD [of _ ks rows j] known_SomeD unfolding listed_def by blast
  moreover have "k \<in> set ks" if "map_find (instances ?c) k = Some i" for k i
    using rows(2) that by (auto simp: listed_def known_def dom_def)
  moreover have "sorted_wrt (<) ks" "length rows = length ks"
    using rows(2) by (auto simp: listed_def simp del: row_of.simps dest: list_all2_lengthD)
  ultimately show ?thesis
    using a(1) rows(1) by (intro exI [of _ ks] exI [of _ rows]) (simp add: identity_def)
qed

text \<open>A client lists the machines of a node while another one creates its second machine.\<close>

theorem concurrent_listing_witness:
  "\<exists>n s s' ks rows. tstep\<^sup>*\<^sup>* (system (node_program plain_os (\<lambda>t. if t = 0 then [New cirros 64 2, Outside (\<lambda>_. taken_world), New cirros 64 2]
        else if t = 1 then [List n] else [])) (node_threads node)) s
    \<and> tstep\<^sup>*\<^sup>* s s' \<and> finished s' \<and> map_find (instances (nt_ctl (shared s))) 1000 \<noteq> None
    \<and> nt_answers (shared s') 1 = [Inr (Listed rows)] \<and> 1000 \<in> set ks \<and> length rows = length ks
    \<and> (\<forall>j < length ks. ii_id (rows ! j) = to_string (ks ! j))"
proof -
  obtain i w where i: "instantiate plain_os cirros 64 2 node
      = (Inr i, node\<lparr>nextPort := 2202, nextId := 1000, instances := [(1000, i)], c_world := w\<rparr>)"
    using node_creates_first by blast
  let ?c1 = "node\<lparr>nextPort := 2202, nextId := 1000, instances := [(1000, i)], c_world := w\<rparr>"
  let ?c2 = "node\<lparr>nextPort := 2202, nextId := 1000, instances := [(1000, i)]\<rparr>"
  obtain j c3 where j: "instantiate plain_os cirros 64 2 ?c2 = (Inr j, c3)" using second_creates by blast
  have inv: "ctl_inv ''/tmp/s1'' node" by (simp add: ctl_inv_def node_def in_int_def int_min_def int_max_def)
  have "ctl_inv ''/tmp/s1'' ?c1" by (rule instantiate_inv [OF i inv])
  then have "ctl_inv ''/tmp/s1'' ?c2" by (simp add: ctl_inv_def)
  then have "ctl_inv ''/tmp/s1'' c3" by (rule instantiate_inv [OF j])
  then have ok: "map_ok (instances c3)" by (simp add: ctl_inv_def)
  let ?n = "length (instances c3)" and ?new = "acts plain_os 0 (New cirros 64 2)" and ?out = "acts plain_os 0 (Outside (\<lambda>_. taken_world))"
  let ?list = "acts plain_os (Suc 0) (List ?n)"
  let ?rounds = "does (Suc 0) (replicate ?n list_next @ [list_done]) @ [Do (leave (Suc 0))]"
  let ?rows = "map (\<lambda>(k, i). getInstanceInfo i (c_world c3)) (instances c3)"
  obtain l1 where l1: "tstep\<^sup>*\<^sup>* (scene (?new @ ?out @ ?new) ?list node no_locals no_locals [] [])
      (scene (Do (leave 0) # ?out @ ?new) ?list ?c1 l1 no_locals [] [])" "l_answer l1 = Some (Inr (Made i))"
    using scene_instantiates(1) [OF i] by blast
  have out: "tstep\<^sup>*\<^sup>* (scene (?out @ ?new) ?list ?c1 no_locals no_locals ([] @ [Inr (Made i)]) [])
      (scene ?new ?list ?c2 no_locals no_locals ([] @ [Inr (Made i)]) [])"
    using outside_step [where os = plain_os and f = "\<lambda>_. taken_world" and p = ?new and q = ?list and c = ?c1
        and l = no_locals and l' = no_locals and as = "[Inr (Made i)]" and as' = "[]"] by (simp add: node_def)
  let ?s = "scene ?new ?list ?c2 no_locals no_locals ([] @ [Inr (Made i)]) []"
  have run: "tstep\<^sup>*\<^sup>* (scene (?new @ ?out @ ?new) ?list node no_locals no_locals [] []) ?s"
    by (intro rtranclp_trans [OF l1(1)] rtranclp_trans [OF scene_leaves(1) [OF l1(2)]] out)
  then have run: "tstep\<^sup>*\<^sup>* (system (node_program plain_os (\<lambda>t. if t = 0 then [New cirros 64 2, Outside (\<lambda>_. taken_world), New cirros 64 2]
      else if t = 1 then [List ?n] else [])) (node_threads node)) ?s"
    unfolding scene_begins by simp
  have size: "alone [list_size] (?c2, no_locals) = (?c2, no_locals)"
    by (simp add: alone_Cons alone_Nil apply_step_def list_size_def bnd_gets getInstances_def ret_def no_locals_def)
  obtain l2 where l2: "tstep\<^sup>*\<^sup>* (scene (?new @ []) (ScopedLock (map (in_thread (Suc 0)) [list_copy]) @ ?rounds) ?c2 no_locals no_locals ([] @ [Inr (Made i)]) [])
      (scene (Do (leave 0) # []) (ScopedLock (map (in_thread (Suc 0)) [list_copy]) @ ?rounds) c3 l2 no_locals ([] @ [Inr (Made i)]) [])"
    "l_answer l2 = Some (Inr (Made j))"
    using scene_instantiates(1) [OF j] by blast
  obtain l3 l4 where l3: "alone [list_copy] (c3, no_locals) = (c3, l3)"
      "alone (replicate ?n list_next @ [list_done]) (c3, l3) = (c3, l4)" "l_answer l4 = Some (Inr (Listed ?rows))"
    using copy_alone [OF _ ok, of no_locals ?n] by (auto simp: no_locals_def)
  let ?s' = "scene [] [] c3 no_locals no_locals (([] @ [Inr (Made i)]) @ [Inr (Made j)]) ([] @ [Inr (Listed ?rows)])"
  have list: "?list = ScopedLock (map (in_thread (Suc 0)) [list_size])
      @ ScopedLock (map (in_thread (Suc 0)) [list_copy]) @ ?rounds" by simp
  have run': "tstep\<^sup>*\<^sup>* ?s ?s'"
    unfolding list
    by (intro rtranclp_trans [OF scene_locked [OF size]] rtranclp_trans [OF l2(1) [unfolded append_Nil2]]
        rtranclp_trans [OF scene_leaves(1) [OF l2(2)]] rtranclp_trans [OF scene_locked [OF l3(1)]]
        rtranclp_trans [OF scene_runs(2) [OF l3(2)]] scene_leaves(2) [OF l3(3)])
  have "todo ?s 1 = acts plain_os 1 (List ?n) @ []" "nt_locals (shared ?s) 1 = no_locals"
    "length (nt_answers (shared ?s) 1) < length (nt_answers (shared ?s') 1)" "length (instances (nt_ctl (shared ?s'))) \<le> ?n"
    by (simp_all add: One_nat_def del: acts.simps)
  from concurrent_listing [OF inv run this(1,2) run' this(3,4)] obtain ks rows where
    r: "nt_answers (shared ?s') 1 ! length (nt_answers (shared ?s) 1) = Inr (Listed rows)" "length rows = length ks"
      "\<forall>k i. map_find (instances (nt_ctl (shared ?s))) k = Some i \<longrightarrow> k \<in> set ks"
      "\<forall>j < length ks. ii_id (rows ! j) = to_string (ks ! j)" by blast
  have "rows = ?rows" using r(1) by simp
  moreover have "1000 \<in> set ks" using r(3) [rule_format, of 1000 i] by (simp add: map_find_def)
  ultimately have "1000 \<in> set ks" "length ?rows = length ks" "\<forall>j < length ks. ii_id (?rows ! j) = to_string (ks ! j)"
    using r(2,4) by simp_all
  with run run' show ?thesis
    by (intro exI [of _ ?n] exI [of _ ?s] exI [of _ ?s'] exI [of _ ks] exI [of _ ?rows]) (simp add: scene_finished map_find_def)
qed

end
