(* ===== verification/Node_Races.thy ===== *)
theory Node_Races
  imports Concurrent_Node Node_Scenes
begin

text \<open>
  Two interleavings of a node's handlers that the mutex would have excluded: two clients that
  start one machine, and a machine that is started while another is created.
\<close>

section \<open>The steps of run\<close>

lemmas step_eqs = with_inst_def update_inst_def if_taken_def bnd_gets in_ctl_run assign_def modify_def ret_def set_inst_def

lemma start_alone:
  assumes "l_answer l = None" "map_find (instances c) vmid = Some i"
    and "os_spawn os True (c_str (p_path (i_process i))) (exec_args (p_opts (i_process i))) (c_world c) = (pid, w)"
  shows "alone [run_fork os vmid, run_remember vmid, run_pid vmid, finish (Success True)] (c, l)
    = (c\<lparr>instances := map_put vmid (i\<lparr>i_process := (i_process i)\<lparr>p_pid := pid\<rparr>\<rparr>) (instances c),
         c_world := file_write (mkInstDir (workingDir c) vmid @ ''/.pid'') (to_string pid) w\<rparr>,
       l\<lparr>l_pid := pid, l_answer := Some (Inr (Success True))\<rparr>)"
proof -
  let ?c1 = "c\<lparr>c_world := w\<rparr>" and ?l = "l\<lparr>l_pid := pid\<rparr>"
  let ?c2 = "?c1\<lparr>instances := map_put vmid (i\<lparr>i_process := (i_process i)\<lparr>p_pid := pid\<rparr>\<rparr>) (instances c)\<rparr>"
  have "run_fork os vmid (c, l) = (Inr (), ?c1, ?l)"
    using assms by (simp add: run_fork_def step_eqs bnd_def gets_def onw_run)
  moreover have "run_remember vmid (?c1, ?l) = (Inr (), ?c2, ?l)"
    using assms by (simp add: run_remember_def step_eqs)
  moreover have "run_pid vmid (?c2, ?l) = (Inr (), ?c2\<lparr>c_world := file_write (mkInstDir (workingDir c) vmid @ ''/.pid'') (to_string pid) w\<rparr>, ?l)"
    by (simp add: run_pid_def step_eqs map_find_put_eq onw_run cookie_write_run getPid_def)
  ultimately show ?thesis
    using assms(1) by (simp add: alone_ok alone_Nil finish_def assign_def modify_def)
qed

text \<open>A machine that was never started, up to the moment before it is.\<close>

definition never_started :: "inst \<Rightarrow> bool" where
  "never_started i \<longleftrightarrow> p_pid (i_process i) = 0"

lemma never_started_offline [simp]: "never_started i \<Longrightarrow> \<not> isRunning (i_process i) w"
  by (simp add: never_started_def isRunning_def)

lemma check_alone:
  assumes "map_find (instances c) vmid = Some i" "never_started i"
  shows "\<exists>n l. alone [look_up vmid, run_check vmid, run_probe vmid] (c, no_locals) = (c\<lparr>c_world := (c_world c)\<lparr>w_fds := n\<rparr>\<rparr>, l)
    \<and> l_answer l = None \<and> l_port l = i_sshPort i \<and> l_free l = (\<not> (socket_left (c_world c) \<and> busy (c_world c) (i_sshPort i)))"
proof -
  obtain n where free: "isPortFree (i_sshPort i) (c_world c)
      = (Inr (\<not> (socket_left (c_world c) \<and> busy (c_world c) (i_sshPort i))), (c_world c)\<lparr>w_fds := n\<rparr>)"
    using isPortFree_fds by blast
  let ?l = "no_locals\<lparr>l_port := i_sshPort i, l_free := \<not> (socket_left (c_world c) \<and> busy (c_world c) (i_sshPort i))\<rparr>"
  have "look_up vmid (c, no_locals) = (Inr (), c, no_locals)"
    using assms by (simp add: look_up_def step_eqs mapExists_def)
  moreover have "run_check vmid (c, no_locals) = (Inr (), c, no_locals)"
    using assms by (simp add: run_check_def step_eqs)
  moreover have "run_probe vmid (c, no_locals) = (Inr (), c\<lparr>c_world := (c_world c)\<lparr>w_fds := n\<rparr>\<rparr>, ?l)"
    using assms free by (simp add: run_probe_def step_eqs bnd_def gets_def onw_run)
  ultimately show ?thesis
    by (intro exI [of _ n] exI [of _ ?l]) (simp add: alone_ok alone_Nil no_locals_def)
qed

section \<open>Starting one machine twice\<close>

definition ready_steps :: "int \<Rightarrow> step list" where
  "ready_steps vmid = look_up vmid # run_check vmid # run_probe vmid # port_steps vmid @ [run_recheck vmid]"

definition fork_steps :: "os \<Rightarrow> int \<Rightarrow> step list" where
  "fork_steps os vmid = [run_fork os vmid, run_remember vmid, run_pid vmid, finish (Success True)]"

lemma run_in_two: "acts os t (Run vmid) = does t (ready_steps vmid) @ does t (fork_steps os vmid) @ [Do (leave t)]"
  by (simp add: run_steps_def start_steps_def ready_steps_def fork_steps_def)

lemma ready_alone:
  assumes "map_find (instances c) vmid = Some i" "never_started i" "\<not> busy (c_world c) (i_sshPort i)"
  shows "\<exists>n l. alone (ready_steps vmid) (c, no_locals) = (c\<lparr>c_world := (c_world c)\<lparr>w_fds := n\<rparr>\<rparr>, l) \<and> l_answer l = None"
proof -
  obtain n l where l: "alone [look_up vmid, run_check vmid, run_probe vmid] (c, no_locals) = (c\<lparr>c_world := (c_world c)\<lparr>w_fds := n\<rparr>\<rparr>, l)"
    "l_answer l = None" "l_free l"
    using check_alone [OF assms(1,2)] assms(3) by blast
  have on: "alone (if_taken m # ms) (c, l) = alone ms (c, l)" for m ms c
    using l by (intro alone_ok) (simp_all add: step_eqs)
  have "run_recheck vmid (c\<lparr>c_world := w\<rparr>, l) = (Inr (), c\<lparr>c_world := w\<rparr>, l)" for w
    using assms by (simp add: run_recheck_def step_eqs)
  then have "alone (port_steps vmid @ [run_recheck vmid]) (c\<lparr>c_world := w\<rparr>, l) = (c\<lparr>c_world := w\<rparr>, l)" for w
    using l(2) by (simp add: port_steps_def on alone_ok alone_Nil)
  moreover have "ready_steps vmid = [look_up vmid, run_check vmid, run_probe vmid] @ (port_steps vmid @ [run_recheck vmid])"
    by (simp add: ready_steps_def)
  ultimately show ?thesis using l by (simp only: alone_append) blast
qed

lemma fork_alone:
  "l_answer l = None \<Longrightarrow> map_find (instances c) vmid = Some i \<Longrightarrow>
   os_spawn os True (c_str (p_path (i_process i))) (exec_args (p_opts (i_process i))) (c_world c) = (pid, w) \<Longrightarrow>
   \<exists>l'. alone (fork_steps os vmid) (c, l)
      = (c\<lparr>instances := map_put vmid (i\<lparr>i_process := (i_process i)\<lparr>p_pid := pid\<rparr>\<rparr>) (instances c),
           c_world := file_write (mkInstDir (workingDir c) vmid @ ''/.pid'') (to_string pid) w\<rparr>, l')
     \<and> l_answer l' = Some (Inr (Success True))"
  unfolding fork_steps_def by (subst start_alone, assumption+, intro exI conjI, rule refl, simp)

lemma started_twice:
  fixes os :: os
  assumes i: "map_find (instances c) vmid = Some i" "never_started i" "\<not> busy (c_world c) (i_sshPort i)"
  defines "launch \<equiv> os_spawn os True (c_str (p_path (i_process i))) (exec_args (p_opts (i_process i)))"
    and "cookie \<equiv> mkInstDir (workingDir c) vmid @ ''/.pid''"
  shows "\<exists>s n pid1 w1 pid2 w2.
      tstep\<^sup>*\<^sup>* (system (node_program os (\<lambda>t. if t = 0 then [Run vmid] else if t = 1 then [Run vmid] else [])) (node_threads c)) s
    \<and> finished s
    \<and> launch ((c_world c)\<lparr>w_fds := n\<rparr>) = (pid1, w1) \<and> launch (file_write cookie (to_string pid1) w1) = (pid2, w2)
    \<and> map_find (instances (nt_ctl (shared s))) vmid = Some (i\<lparr>i_process := (i_process i)\<lparr>p_pid := pid2\<rparr>\<rparr>)
    \<and> c_world (nt_ctl (shared s)) = file_write cookie (to_string pid2) w2
    \<and> nt_answers (shared s) 0 = [Inr (Success True)] \<and> nt_answers (shared s) 1 = [Inr (Success True)]"
proof -
  obtain n l where l: "alone (ready_steps vmid) (c, no_locals) = (c\<lparr>c_world := (c_world c)\<lparr>w_fds := n\<rparr>\<rparr>, l)" "l_answer l = None"
    using ready_alone [OF i] by blast
  let ?c1 = "c\<lparr>c_world := (c_world c)\<lparr>w_fds := n\<rparr>\<rparr>"
  obtain n' l' where l': "alone (ready_steps vmid) (?c1, no_locals) = (c\<lparr>c_world := (c_world c)\<lparr>w_fds := n'\<rparr>\<rparr>, l')" "l_answer l' = None"
    using ready_alone [of ?c1 vmid i] i by auto
  let ?c2 = "c\<lparr>c_world := (c_world c)\<lparr>w_fds := n'\<rparr>\<rparr>"
  obtain pid1 w1 where launch1: "launch ((c_world c)\<lparr>w_fds := n'\<rparr>) = (pid1, w1)" by fastforce
  let ?i1 = "i\<lparr>i_process := (i_process i)\<lparr>p_pid := pid1\<rparr>\<rparr>"
  let ?c3 = "?c2\<lparr>instances := map_put vmid ?i1 (instances c), c_world := file_write cookie (to_string pid1) w1\<rparr>"
  obtain k where k: "alone (fork_steps os vmid) (?c2, l) = (?c3, k)" "l_answer k = Some (Inr (Success True))"
    using fork_alone [OF l(2), of ?c2 vmid i os pid1 w1] i(1) launch1 by (auto simp: launch_def cookie_def)
  obtain pid2 w2 where launch2: "launch (file_write cookie (to_string pid1) w1) = (pid2, w2)" by fastforce
  let ?c4 = "?c3\<lparr>instances := map_put vmid (i\<lparr>i_process := (i_process i)\<lparr>p_pid := pid2\<rparr>\<rparr>) (instances c),
      c_world := file_write cookie (to_string pid2) w2\<rparr>"
  obtain k' where k': "alone (fork_steps os vmid) (?c3, l') = (?c4, k')" "l_answer k' = Some (Inr (Success True))"
    using fork_alone [OF l'(2), of ?c3 vmid ?i1 os pid2 w2] launch2 by (auto simp: launch_def cookie_def map_find_put_eq)
  let ?p = "\<lambda>t. does t (fork_steps os vmid) @ [Do (leave t)]"
  have run: "acts os 0 (Run vmid) = does 0 (ready_steps vmid) @ ?p 0" "acts os (Suc 0) (Run vmid) = does (Suc 0) (ready_steps vmid) @ ?p (Suc 0)"
    by (rule run_in_two)+
  note steps = scene_runs(1) [OF l(1)] scene_runs(2) [OF l'(1)] scene_runs(1) [OF k(1)] scene_runs(2) [OF k'(1)]
    scene_leaves(1) [OF k(2)] scene_leaves(2) [OF k'(2)]
  have "tstep\<^sup>*\<^sup>* (scene (acts os 0 (Run vmid)) (acts os (Suc 0) (Run vmid)) c no_locals no_locals [] [])
      (scene [] [] ?c4 no_locals no_locals ([] @ [Inr (Success True)]) ([] @ [Inr (Success True)]))"
    unfolding run by (intro rtranclp_trans [OF steps(1)] rtranclp_trans [OF steps(2)] rtranclp_trans [OF steps(3)]
        rtranclp_trans [OF steps(4)] rtranclp_trans [OF steps(5)] steps(6))
  then show ?thesis
    using launch1 launch2 scene_begins [of os "[Run vmid]" "[Run vmid]" c]
    by (intro exI [of _ "scene [] [] ?c4 no_locals no_locals [Inr (Success True)] [Inr (Success True)]"]
        exI [of _ n'] exI [of _ pid1] exI [of _ w1] exI [of _ pid2] exI [of _ w2])
      (simp add: scene_finished map_find_put_eq)
qed

section \<open>One port for two machines\<close>

definition pick_steps :: "int \<Rightarrow> step list" where
  "pick_steps vmid = [look_up vmid, run_check vmid, run_probe vmid, if_taken run_warn, if_taken pick_port]"

definition keep_steps :: "int \<Rightarrow> step list" where
  "keep_steps vmid = [if_taken store_port, if_taken (run_cookie vmid), if_taken (run_assign vmid), if_taken run_info, run_recheck vmid]"

lemma run_picks: "acts os t (Run vmid) = does t (pick_steps vmid) @ does t (keep_steps vmid @ fork_steps os vmid) @ [Do (leave t)]"
  by (simp add: run_steps_def port_steps_def start_steps_def pick_steps_def keep_steps_def fork_steps_def)

lemma step_if_taken: "\<not> l_free l \<Longrightarrow> if_taken m (c, l) = m (c, l)"
  by (simp add: if_taken_def bnd_gets)

lemma pick_alone:
  assumes i: "map_find (instances c) vmid = Some i" "never_started i" "busy (c_world c) (i_sshPort i)" "in_int (i_sshPort i)"
    and p: "nextPort c < p" "p \<le> int_max" "\<not> busy (c_world c) p" "\<forall>q. nextPort c < q \<and> q < p \<longrightarrow> busy (c_world c) q"
    and w: "\<forall>n. w_socket (c_world c) n \<noteq> - 1" "clock_ok (c_world c)"
  shows "\<exists>n out l. alone (pick_steps vmid) (c, no_locals) = (c\<lparr>c_world := (c_world c)\<lparr>w_fds := n, w_out := out\<rparr>\<rparr>, l)
    \<and> l_answer l = None \<and> \<not> l_free l \<and> l_port l = p"
proof -
  obtain n l where l: "alone [look_up vmid, run_check vmid, run_probe vmid] (c, no_locals) = (c\<lparr>c_world := (c_world c)\<lparr>w_fds := n\<rparr>\<rparr>, l)"
    "l_answer l = None" "\<not> l_free l" "l_port l = i_sshPort i"
    using check_alone [OF i(1,2)] i(3) w(1) by (auto simp: socket_left_def)
  let ?w = "(c_world c)\<lparr>w_fds := n\<rparr>" and ?m = "''port '' @ to_string (i_sshPort i) @ '' is already in use. searching for other port''"
  have "length ?m \<le> 900" using length_to_string [OF i(4)] by simp
  then obtain out where log: "log_warn ?m ?w = (Inr (), ?w\<lparr>w_out := out\<rparr>)"
    using log_output_short [of ?w ?m INFO WARN] w(2)
    by (auto simp: log_warn_def clock_ok_def simp del: append.simps append_assoc)
  have "busy (?w\<lparr>w_out := out\<rparr>) q = busy (c_world c) q" for q by (simp add: busy_def connects_def)
  then have find: "findNextPort (nextPort c) (?w\<lparr>w_out := out\<rparr>) = (Inr p, ?w\<lparr>w_out := out, w_fds := n + nat (p - nextPort c)\<rparr>)"
    using findNextPort_finds [of "nextPort c" p "?w\<lparr>w_out := out\<rparr>"] p w(1) by (simp add: sockets_def)
  have "if_taken run_warn (c\<lparr>c_world := ?w\<rparr>, l) = (Inr (), c\<lparr>c_world := ?w\<lparr>w_out := out\<rparr>\<rparr>, l)"
    using l(3,4) log by (simp add: step_if_taken run_warn_def bnd_gets in_ctl_run onw_run del: append.simps append_assoc)
  moreover have "if_taken pick_port (c\<lparr>c_world := ?w\<lparr>w_out := out\<rparr>\<rparr>, l)
      = (Inr (), c\<lparr>c_world := (c_world c)\<lparr>w_fds := n + nat (p - nextPort c), w_out := out\<rparr>\<rparr>, l\<lparr>l_port := p\<rparr>)"
    using l(3) find by (simp add: step_if_taken pick_port_def bnd_def gets_def in_ctl_run onw_run assign_def modify_def)
  moreover have "pick_steps vmid = [look_up vmid, run_check vmid, run_probe vmid] @ [if_taken run_warn, if_taken pick_port]"
    by (simp add: pick_steps_def)
  ultimately show ?thesis
    using l(1-3) by (intro exI [of _ "n + nat (p - nextPort c)"] exI [of _ out] exI [of _ "l\<lparr>l_port := p\<rparr>"])
      (simp only: alone_append alone_ok alone_Nil, simp)
qed

lemma keep_alone:
  assumes l: "l_answer l = None" "\<not> l_free l" "l_port l = p"
    and i: "map_find (instances c) vmid = Some i" "never_started i" "clock_ok (c_world c)" "in_int p"
  shows "\<exists>c' l' j. alone (keep_steps vmid @ fork_steps os vmid) (c, l) = (c', l') \<and> l_answer l' = Some (Inr (Success True))
    \<and> instances c' = map_put vmid j (instances c) \<and> i_sshPort j = p"
proof -
  let ?d = "mkInstDir (workingDir c) vmid" and ?m = "''assigned new port '' @ to_string p"
  let ?w = "file_write (?d @ ''/.ssh'') (to_string p) (c_world c)"
  have "length ?m \<le> 900" using length_to_string [OF i(4)] by simp
  then obtain out where log: "log_info ?m ?w = (Inr (), ?w\<lparr>w_out := out\<rparr>)"
    using log_output_short [of ?w ?m INFO INFO] i(3)
    by (auto simp: log_info_def clock_ok_def simp del: append.simps append_assoc)
  let ?c1 = "c\<lparr>nextPort := p\<rparr>" and ?c2 = "c\<lparr>nextPort := p, c_world := ?w\<rparr>"
  let ?c3 = "?c2\<lparr>instances := map_put vmid (setSshPort p i) (instances c)\<rparr>" and ?c4 = "?c2\<lparr>instances := map_put vmid (setSshPort p i) (instances c), c_world := ?w\<lparr>w_out := out\<rparr>\<rparr>"
  note st = step_if_taken [OF l(2)] bnd_gets in_ctl_run
  have "if_taken store_port (c, l) = (Inr (), ?c1, l)" by (simp add: st store_port_def modify_def l)
  moreover have "if_taken (run_cookie vmid) (?c1, l) = (Inr (), ?c2, l)"
    by (simp add: st run_cookie_def onw_run cookie_write_run)
  moreover have "if_taken (run_assign vmid) (?c2, l) = (Inr (), ?c3, l)"
    using i by (simp add: st run_assign_def update_inst_def with_inst_def set_inst_def modify_def)
  moreover have "if_taken run_info (?c3, l) = (Inr (), ?c4, l)"
    using log by (simp add: st run_info_def onw_run del: append.simps append_assoc)
  moreover have "run_recheck vmid (?c4, l) = (Inr (), ?c4, l)"
    using i(2) by (simp add: run_recheck_def with_inst_def bnd_gets map_find_put_eq ret_def isRunning_def setSshPort_def never_started_def)
  ultimately have keep: "alone (keep_steps vmid) (c, l) = (?c4, l)"
    using l(1) by (simp add: keep_steps_def alone_ok alone_Nil)
  obtain pid w where "os_spawn os True (c_str (p_path (i_process (setSshPort p i)))) (exec_args (p_opts (i_process (setSshPort p i)))) (c_world ?c4) = (pid, w)"
    by fastforce
  from fork_alone [OF l(1) _ this, of vmid] show ?thesis
    unfolding alone_append keep by (fastforce simp: map_find_put_eq setSshPort_def)
qed

lemma can_host_world:
  "can_host os (c\<lparr>c_world := (c_world c)\<lparr>w_out := out\<rparr>\<rparr>) \<Longrightarrow> can_host os (c\<lparr>c_world := (c_world c)\<lparr>w_fds := n, w_out := out\<rparr>\<rparr>)"
  by (simp add: can_host_def fs_ok_def clock_ok_def fresh_id_def)

lemma free_port_found:
  assumes "can_host os c"
  shows "\<exists>p. nextPort c < p \<and> p \<le> int_max \<and> \<not> busy (c_world c) p \<and> (\<forall>q. nextPort c < q \<and> q < p \<longrightarrow> busy (c_world c) q)"
proof -
  obtain u where u: "\<not> w_connects (c_world c) ''127.0.0.1'' u" using assms by (auto simp: can_host_def)
  obtain p where "nextPort c < p" "p \<le> nextPort c + 65536" "\<not> busy (c_world c) p" "\<forall>q. nextPort c < q \<and> q < p \<longrightarrow> busy (c_world c) q"
    using free_port_nearby [OF u, of "nextPort c"] least_free_port [of "nextPort c" _ "c_world c"] by (metis order_trans)
  with assms show ?thesis by (intro exI [of _ p]) (auto simp: can_host_def)
qed

lemma instantiate_next_port:
  assumes "can_host os s" "templates s = the_templates" "map_find the_templates (t_name t) = Some t"
    and "in_int memory" "in_int cpus" "in_int (nextPort s)"
  shows "\<exists>i k p w. instantiate os t memory cpus s =
      (Inr i, s\<lparr>nextPort := p, nextId := k, instances := map_put k i (instances s), c_world := w\<rparr>)
    \<and> fresh_id s k \<and> i_sshPort i = p \<and> nextPort s < p \<and> \<not> busy (c_world s) p
    \<and> (\<forall>q. nextPort s < q \<and> q < p \<longrightarrow> busy (c_world s) q) \<and> w_clock w = w_clock (c_world s)"
proof -
  obtain k p w where "instantiate os t memory cpus s =
      (Inr (restored (mkInstDir (workingDir s) k) (t_kernelPath t \<noteq> ''-none-'') k (vm_of t memory cpus p)),
       s\<lparr>nextPort := p, nextId := k, instances := map_put k (restored (mkInstDir (workingDir s) k)
          (t_kernelPath t \<noteq> ''-none-'') k (vm_of t memory cpus p)) (instances s), c_world := w\<rparr>)"
    "fresh_id s k" "nextPort s < p" "\<not> busy (c_world s) p" "\<forall>q. nextPort s < q \<and> q < p \<longrightarrow> busy (c_world s) q"
    "w_clock w = w_clock (c_world s)"
    using instantiate_hosted [OF assms] unfolding Let_def by blast
  moreover have "i_sshPort (restored d b k (vm_of t memory cpus p)) = p" for d b
    by (simp add: restored_def vm_of_def)
  ultimately show ?thesis by blast
qed

lemma least_unique:
  fixes b p p' :: int
  assumes "b < p" "\<not> B p" "\<forall>q. b < q \<and> q < p \<longrightarrow> B q" "b < p'" "\<not> B p'" "\<forall>q. b < q \<and> q < p' \<longrightarrow> B q"
  shows "p' = p"
  using assms by (cases p p' rule: linorder_cases) auto

lemma same_port:
  assumes i: "map_find (instances c) vmid = Some i" "never_started i" "busy (c_world c) (i_sshPort i)" "in_int (i_sshPort i)"
    and host: "\<And>out. can_host os (c\<lparr>c_world := (c_world c)\<lparr>w_out := out\<rparr>\<rparr>)"
    and t: "templates c = the_templates" "map_find the_templates (t_name t) = Some t"
    and ints: "in_int memory" "in_int cpus" "in_int (nextPort c)" and ok: "map_ok (instances c)"
  shows "\<exists>s k i1 i2.
      tstep\<^sup>*\<^sup>* (system (node_program os (\<lambda>u. if u = 0 then [Run vmid] else if u = 1 then [New t memory cpus] else [])) (node_threads c)) s
    \<and> finished s \<and> k \<noteq> vmid
    \<and> map_find (instances (nt_ctl (shared s))) vmid = Some i1 \<and> map_find (instances (nt_ctl (shared s))) k = Some i2
    \<and> i_sshPort i1 = i_sshPort i2
    \<and> nt_answers (shared s) 0 = [Inr (Success True)] \<and> nt_answers (shared s) 1 = [Inr (Made i2)]"
proof -
  have c: "can_host os c" using host [of "w_out (c_world c)"] by simp
  then have w: "\<forall>n. w_socket (c_world c) n \<noteq> - 1" "clock_ok (c_world c)" by (simp_all add: can_host_def)
  obtain p where p: "nextPort c < p" "p \<le> int_max" "\<not> busy (c_world c) p" "\<forall>q. nextPort c < q \<and> q < p \<longrightarrow> busy (c_world c) q"
    using free_port_found [OF c] by blast
  have p_int: "in_int p" using p(1,2) ints(3) by (simp add: in_int_def)
  obtain n out l where l: "alone (pick_steps vmid) (c, no_locals) = (c\<lparr>c_world := (c_world c)\<lparr>w_fds := n, w_out := out\<rparr>\<rparr>, l)"
    "l_answer l = None" "\<not> l_free l" "l_port l = p"
    using pick_alone [OF i p w] by blast
  let ?c1 = "c\<lparr>c_world := (c_world c)\<lparr>w_fds := n, w_out := out\<rparr>\<rparr>"
  have busy: "busy (c_world ?c1) q = busy (c_world c) q" for q by (simp add: busy_def connects_def)
  obtain k p' w' i2 where new: "instantiate os t memory cpus ?c1 =
      (Inr i2, ?c1\<lparr>nextPort := p', nextId := k, instances := map_put k i2 (instances ?c1), c_world := w'\<rparr>)"
    "fresh_id ?c1 k" "i_sshPort i2 = p'" "nextPort ?c1 < p'" "\<not> busy (c_world ?c1) p'"
    "\<forall>q. nextPort ?c1 < q \<and> q < p' \<longrightarrow> busy (c_world ?c1) q" "w_clock w' = w_clock (c_world ?c1)"
    using instantiate_next_port [OF can_host_world [OF host [of out], of n], of t memory cpus] t ints by auto
  let ?c2 = "?c1\<lparr>nextPort := p', nextId := k, instances := map_put k i2 (instances ?c1), c_world := w'\<rparr>"
  have "p' = p"
    using new(4-6) unfolding busy by (intro least_unique [of "nextPort c" p "busy (c_world c)"] p(1,3,4)) auto
  have k: "k \<noteq> vmid" "map_find (instances ?c2) vmid = Some i"
    using new(2) i(1) ok by (auto simp: fresh_id_def)
  obtain c3 l3 j where j: "alone (keep_steps vmid @ fork_steps os vmid) (?c2, l) = (c3, l3)" "l_answer l3 = Some (Inr (Success True))"
    "instances c3 = map_put vmid j (instances ?c2)" "i_sshPort j = p"
    using keep_alone [OF l(2-4) k(2) i(2) _ p_int, of os] w(2) new(7) by (auto simp: clock_ok_def)
  let ?q = "\<lambda>l. [Do (leave (Suc 0))]" and ?p = "does 0 (keep_steps vmid @ fork_steps os vmid) @ [Do (leave 0)]"
  obtain l2 where l2: "tstep\<^sup>*\<^sup>* (scene ?p (acts os (Suc 0) (New t memory cpus)) ?c1 l no_locals [] [])
      (scene ?p [Do (leave (Suc 0))] ?c2 l l2 [] [])" "l_answer l2 = Some (Inr (Made i2))"
    using scene_instantiates(2) [OF new(1), of ?p "[]"] unfolding append_Nil2 by blast
  have "tstep\<^sup>*\<^sup>* (scene (acts os 0 (Run vmid)) (acts os (Suc 0) (New t memory cpus)) c no_locals no_locals [] [])
      (scene [] [] c3 no_locals no_locals ([] @ [Inr (Success True)]) ([] @ [Inr (Made i2)]))"
    unfolding run_picks
    by (intro rtranclp_trans [OF scene_runs(1) [OF l(1)]] rtranclp_trans [OF l2(1)] rtranclp_trans [OF scene_runs(1) [OF j(1)]]
        rtranclp_trans [OF scene_leaves(1) [OF j(2)]] scene_leaves(2) [OF l2(2)])
  then show ?thesis
    using scene_begins [of os "[Run vmid]" "[New t memory cpus]" c] k new(3) j(3,4) \<open>p' = p\<close> ok
    by (intro exI [of _ "scene [] [] c3 no_locals no_locals [Inr (Success True)] [Inr (Made i2)]"]
        exI [of _ k] exI [of _ j] exI [of _ i2]) (simp add: scene_finished)
qed

section \<open>Properties\<close>


text \<open>An operating system whose process ids count up.\<close>

definition counting_os :: os where
  "counting_os = \<lparr>os_spawn = (\<lambda>silent path argv w. (4000 + int (w_fds w), w\<lparr>w_fds := Suc (w_fds w)\<rparr>)), os_wait = (\<lambda>pid w. w)\<rparr>"


text \<open>
  C28. A machine that is run while another one is created can get the other's port: \<open>run\<close> on a
  taken port assigns \<open>nextPort\<close> without the lock that \<open>instantiate\<close> holds. Both requests succeed
  and both machines are left with the same SSH port, although each search on its own moves on.
\<close>

theorem unlocked_run_shares_port:
  assumes "map_find (instances c) vmid = Some i" and "p_pid (i_process i) = 0"
    and "busy (c_world c) (i_sshPort i)" and "in_int (i_sshPort i)"
    and "\<And>out. can_host os (c\<lparr>c_world := (c_world c)\<lparr>w_out := out\<rparr>\<rparr>)"
    and "templates c = the_templates" and "map_find the_templates (t_name t) = Some t"
    and "in_int memory" and "in_int cpus" and "in_int (nextPort c)" and "map_ok (instances c)"
  shows "\<exists>s k i1 i2.
      tstep\<^sup>*\<^sup>* (system (node_program os (\<lambda>u. if u = 0 then [Run vmid] else if u = 1 then [New t memory cpus] else [])) (node_threads c)) s
    \<and> finished s \<and> k \<noteq> vmid
    \<and> map_find (instances (nt_ctl (shared s))) vmid = Some i1 \<and> map_find (instances (nt_ctl (shared s))) k = Some i2
    \<and> i_sshPort i1 = i_sshPort i2
    \<and> nt_answers (shared s) 0 = [Inr (Success True)] \<and> nt_answers (shared s) 1 = [Inr (Made i2)]"
proof (rule same_port [OF assms(1) _ assms(3-11)])
  show "never_started i" using assms(2) by (simp add: never_started_def)
qed

lemma vm_node_can_host: "can_host plain_os ((vm_node 2200)\<lparr>c_world := (c_world (vm_node 2200))\<lparr>w_out := out\<rparr>\<rparr>)"
proof -
  let ?w = "taken_world\<lparr>w_out := out\<rparr>"
  have "\<not> w_connects ?w ''127.0.0.1'' 22" by (simp add: taken_world_def)
  moreover have "fresh_id (vm_node 2200\<lparr>c_world := ?w\<rparr>) 1001"
    by (simp add: fresh_id_def vm_node_def node_def taken_world_def idle_world_def mkInstDir_def map_find_def)
  moreover have "fs_ok ?w" using idle_fs_ok by (simp add: taken_world_def fs_ok_def)
  ultimately show ?thesis
    unfolding can_host_def
    by (auto simp: vm_node_def node_def mkdir_works_def plain_os_def in_int_def int_min_def int_max_def
        clock_ok_def taken_world_def idle_world_def Let_def intro!: exI [of _ 1001])
qed

theorem unlocked_run_shares_port_witness:
  "\<exists>s k i1 i2.
      tstep\<^sup>*\<^sup>* (system (node_program plain_os (\<lambda>u. if u = 0 then [Run 1000] else if u = 1 then [New cirros 64 2] else []))
        (node_threads (vm_node 2200))) s
    \<and> finished s \<and> k \<noteq> 1000
    \<and> map_find (instances (nt_ctl (shared s))) 1000 = Some i1 \<and> map_find (instances (nt_ctl (shared s))) k = Some i2
    \<and> i_sshPort i1 = i_sshPort i2
    \<and> nt_answers (shared s) 0 = [Inr (Success True)] \<and> nt_answers (shared s) 1 = [Inr (Made i2)]"
proof (rule unlocked_run_shares_port [OF vm_node_find _ _ _ vm_node_can_host])
  show "map_find the_templates (t_name cirros) = Some cirros"
    by (simp add: the_templates_def cirros_def wheezy_def map_find_def)
qed (simp_all add: one_vm_def Process_new_def in_int_def int_min_def int_max_def, simp_all add: vm_node_def node_def map_ok_def)

end
