(* ===== verification/Concurrent_Log.thy ===== *)
theory Concurrent_Log
  imports Threads
begin

text \<open>
  \<open>Util/Logger.hpp\<close> used by several threads: a message is put into the stream in two operations, the
  line and \<open>std::endl\<close>, under the logger's own mutex.
\<close>

section \<open>A message as steps\<close>

text \<open>A message with its level and the time at which it is printed.\<close>

type_synonym entry_text = "level \<times> string \<times> string"

fun entry_line :: "entry_text \<Rightarrow> string" where
  "entry_line (l, clock, message) = log_line l (c_str clock) (c_str message) @ [CHR 0x0A]"

fun shown :: "level \<Rightarrow> entry_text \<Rightarrow> bool" where
  "shown loggerLevel (l, clock, message) \<longleftrightarrow> level_num loggerLevel \<le> level_num l"

text \<open>The stream, as long as no line has overrun the buffer it is printed into.\<close>

fun output_steps :: "entry_text \<Rightarrow> (string res \<Rightarrow> string res) list" where
  "output_steps (l, clock, message) =
    [\<lambda>out. rbind out (\<lambda>text. rbind (printf ''[%s] %s : %s'' [levelString l, clock, message]) (\<lambda>line. Inr (text @ line))),
     \<lambda>out. rbind out (\<lambda>text. Inr (text @ [CHR 0x0A]))]"

definition output_acts :: "level \<Rightarrow> entry_text \<Rightarrow> string res act list" where
  "output_acts loggerLevel e = (if shown loggerLevel e then ScopedLock (output_steps e) else [])"

lemma output_effect:
  "effect (output_steps e) (Inl f) = Inl f"
  "effect (output_steps e) (Inr out) = Inr out' \<Longrightarrow> out' = out @ entry_line e"
  by (cases e; simp add: effect_def printf_def format_log del: format_s.simps split: if_splits)+

lemma output_handler:
  "concat (map (output_acts loggerLevel) es) = handler (map output_steps (filter (shown loggerLevel) es))"
  by (induction es) (simp_all add: output_acts_def ScopedLock_def)

lemma output_failed: "serial (map (\<lambda>(t, e). (t, output_steps e)) order) (Inl f) = Inl f"
proof (induction order)
  case (Cons x order)
  obtain t e where "x = (t, e)" by (cases x)
  with Cons show ?case by (simp add: serial_def output_effect(1))
qed (simp add: serial_def)

lemma output_serial:
  "serial (map (\<lambda>(t, e). (t, output_steps e)) order) (Inr out) = Inr out' \<Longrightarrow>
   out' = out @ concat (map (\<lambda>(t, e). entry_line e) order)"
proof (induction order arbitrary: out)
  case (Cons x order)
  obtain t e where x: "x = (t, e)" by (cases x)
  let ?rest = "serial (map (\<lambda>(t, e). (t, output_steps e)) order)"
  have rest: "?rest (effect (output_steps e) (Inr out)) = Inr out'" using Cons.prems by (simp add: x serial_def)
  show ?case
  proof (cases "effect (output_steps e) (Inr out)")
    case (Inl f)
    with rest show ?thesis by (simp add: output_failed)
  next
    case (Inr out1)
    with rest Cons.IH [of out1] output_effect(2) [OF Inr] show ?thesis by (simp add: x)
  qed
qed (simp add: serial_def)

section \<open>Properties\<close>

text \<open>
  C29. Log lines are never mixed: however the threads that log are interleaved, if no line overruns the
  logger's buffer, the output grows by whole lines, those of each thread that reach the logger's level, in
  the thread's own order.
\<close>

theorem log_lines_whole:
  assumes "tstep\<^sup>*\<^sup>* (system (\<lambda>t. concat (map (output_acts loggerLevel) (es t))) (Inr out)) s" and "finished s"
    and "shared s = Inr out'"
  shows "\<exists>order. out' = out @ concat (map (\<lambda>(t, e). entry_line e) order)
    \<and> (\<forall>t. map snd (filter (\<lambda>e. fst e = t) order) = filter (shown loggerLevel) (es t))"
proof -
  obtain order' where order': "shared s = serial order' (Inr out)"
    "\<And>t. of_thread t order' = map output_steps (filter (shown loggerLevel) (es t))"
    using serialise [OF assms(1) [unfolded output_handler] assms(2)] unfolding requests_of_thread by blast
  obtain order where order: "\<forall>t. of_thread t order = filter (shown loggerLevel) (es t)"
    "order' = map (\<lambda>(t, e). (t, output_steps e)) order"
    using order_of_steps [where b = "\<lambda>_. output_steps" and order = order', OF order'(2)] by blast
  then show ?thesis
    using output_serial [of order out out'] order'(1) assms(3) by (auto simp: of_thread_def)
qed

text \<open>Two threads that log the same message, and a third whose message is not shown.\<close>

definition three_logs :: "nat \<Rightarrow> entry_text list" where
  "three_logs t = (if t < 2 then [(INFO, ''12:36:32'', ''ready'')] else if t = 2 then [(DEBUG, ''12:36:32'', ''x'')] else [])"

theorem log_lines_whole_witness:
  "\<exists>s out' order. tstep\<^sup>*\<^sup>* (system (\<lambda>t. concat (map (output_acts INFO) (three_logs t))) (Inr [])) s \<and> finished s
    \<and> shared s = Inr out' \<and> out' = [] @ concat (map (\<lambda>(t :: nat, e). entry_line e) order)
    \<and> (\<forall>t. map snd (filter (\<lambda>e. fst e = t) order) = filter (shown INFO) (three_logs t))"
proof -
  let ?e = "(INFO, ''12:36:32'', ''ready'') :: entry_text"
  let ?s = "system (\<lambda>t. concat (map (output_acts INFO) (three_logs t))) (Inr [])"
  let ?order = "[(0, output_steps ?e), (1, output_steps ?e)] :: (nat \<times> (string res \<Rightarrow> string res) list) list"
  let ?over = "?s\<lparr>todo := (\<lambda>_. []), shared := serial ?order (shared ?s)\<rparr>"
  have run: "tstep\<^sup>*\<^sup>* ?s ?over"
    by (rule every_order_possible)
      (auto simp: system_def output_handler three_logs_def requests_of_def simp del: output_steps.simps)
  have fin: "finished ?over" by (simp add: finished_def)
  have "printf ''[%s] %s : %s'' [levelString INFO, ''12:36:32'', ''ready''] = Inr (log_line INFO ''12:36:32'' ''ready'')"
    unfolding printf_def format_log by (simp add: log_line_def)
  then have "\<exists>out'. effect (output_steps ?e) (Inr out) = Inr out'" for out
    by (simp add: effect_def del: levelString.simps)
  then obtain out' where "shared ?over = Inr out'"
    by (auto simp: serial_def system_def simp del: output_steps.simps) metis
  from log_lines_whole [OF run fin this] run fin this show ?thesis by blast
qed

end
