(* ===== verification/Spec2Isabelle.thy ===== *)
theory Spec2Isabelle
  imports Cloud_Listing Programs Disconnect Concurrent_Manager Node_Listing Node_Races Concurrent_Log
begin

text \<open>
  A verification development of \<open>kvm-cloud\<close>, three C++ programs that run virtual machines on
  several hosts: a \<open>controller\<close> on each host starts and stops the machines, a \<open>manager\<close> supervises
  the controllers, and a \<open>client\<close> is the command line. They talk over TCP in a line protocol.
  All paths below are under \<open>src/src\<close>.

  \<^bold>\<open>How the code is modelled.\<close> An operation is a function from a state to an outcome and the state
  it leaves (\<open>Prelude\<close>: the type \<open>('s, 'a) M\<close>); the outcome is a value or a \<open>fault\<close>: a C++ exception,
  undefined behaviour, waiting for input that has not come, or spinning. Exceptions keep the
  effects made before them, and \<open>try_catch\<close> catches exceptions only. \<open>int\<close> values are integers with
  their range (\<open>in_int\<close>) wherever the code checks or overflows it; \<open>size_t\<close> and the counter
  \<open>writeCount\<close> are words. A \<open>std::map\<close> is a list sorted by key (\<open>Cxx_Map\<close>), which fixes its iteration
  order. The operating system is the record \<open>world\<close> of what system calls answer and what the
  program changed (\<open>World\<close>); the programs the code starts (\<open>mkdir\<close>, \<open>kvm\<close>) are the parameter \<open>os\<close>.

  \<^bold>\<open>Theories, from the bottom up.\<close>
  \<^item> \<open>Prelude\<close>, \<open>Cxx_Int\<close>, \<open>Cxx_Map\<close>, \<open>World\<close>: outcomes, combinators and rules for invariants of calls;
    \<open>std::to_string\<close>, \<open>stoi\<close> and stream extraction; the ordered map; the operating system.
  \<^item> \<open>Util\<close> (\<open>Util/*.hpp\<close>, \<open>Net/NetException.hpp\<close>): exceptions, \<open>explodeAddress\<close>, \<open>printf\<close> with its buffer of
    1024 bytes, the logger, cookies (one value per file).
  \<^item> \<open>Net\<close> (\<open>Net/*.hpp\<close>): the stream buffer that turns CRLF into line ends and an empty line into the
    end of a message, \<open>Socket::read\<close>, \<open>write\<close> and \<open>send\<close>, connecting and accepting. The central lemmas
    compare \<open>Socket_read\<close> with a reference decoder and show that what is written is read back.
  \<^item> \<open>Sys_Process\<close> (\<open>Sys/Process.hpp\<close>): starting, probing and signalling a process.
  \<^item> \<open>Vm_Info\<close> (\<open>Vm/Template.hpp\<close>, \<open>Vm/InstanceInfo.hpp\<close>, \<open>Vm/Instance.hpp\<close>): the data and their line formats,
    and the locale \<open>codec\<close> for formats of fixed width, interpreted for both.
  \<^item> \<open>Vm_Controller\<close> (\<open>Vm/Controller.hpp\<close>): searching ids and ports, \<open>instantiate\<close>, \<open>restore\<close>, \<open>run\<close>, \<open>kill\<close>, the
    constructor. \<open>Vm_Controller_Laws\<close> runs them on what is on disk, \<open>Vm_Controller_Inv\<close> has the
    invariant and the controller as a state machine (operations interleaved with any change of the
    host), \<open>Vm_Controller_Props\<close> and \<open>Vm_Controller_Ops\<close> the properties.
  \<^item> \<open>Vm_Proxy\<close> (\<open>Vm/ControllerProxy.hpp\<close>): the remote calls over a socket whose peer is a parameter, a
    reaction to bytes; the locale \<open>service\<close> states what a peer promises, and the calls are proved
    correct in it.
  \<^item> \<open>Controller_Server\<close> (\<open>controller.cpp\<close>): the commands, a handler's loop over a connection, \<open>main\<close> and
    the accept loop; the interpretation \<open>node\<close> of \<open>service\<close>. \<open>Server_Props\<close> has the properties.
  \<^item> \<open>Manager\<close> (\<open>manager.cpp\<close>): ids, the round robin, the commands, the handler's loop, the controllers
    file, \<open>main\<close>. \<open>Manager_Laws\<close> proves in the locale \<open>cluster\<close> (an extension of \<open>service\<close>) which
    controller a request reaches, \<open>Manager_Service\<close> that the manager keeps \<open>service\<close> itself (the
    interpretation \<open>cloud\<close>), \<open>Manager_Props\<close> the properties over nodes (the interpretation \<open>nodes\<close>).
  \<^item> \<open>Client\<close> (\<open>client.cpp\<close>): the commands and the loop over lines. \<open>Cloud_Nodes\<close> runs the manager's
    operations over nodes, \<open>Cloud\<close> composes client, manager and nodes, and \<open>Cloud_Listing\<close> follows a
    listing through all three.
  \<^item> \<open>Input_Safety\<close>: what no sequence of bytes can break, for a node and for the manager; \<open>Programs\<close>:
    the same from the programs' \<open>main\<close> functions.
  \<^item> \<open>Disconnect\<close>: what the handlers of both programs do when the other end goes away; the locale
    \<open>handler_loop\<close> states what the two loops share, and both are instances of it.
  \<^item> \<open>Threads\<close> (\<open>Thread/Mutex.hpp\<close>, \<open>Thread/ScopedLock.hpp\<close>): the recursive mutex, the scoped lock and
    the interleaved steps of threads that share a state. \<open>Thread_Object\<close> (\<open>Thread/Thread.hpp\<close>): the life of
    a thread object, with cancellation and joining. \<open>Concurrent_Log\<close>: several threads that log.
    \<open>Concurrent_Manager\<close>: several clients of one manager, each call on a controller a step.
  \<^item> \<open>Node_Threads\<close>: \<open>run\<close>, \<open>kill\<close>, \<open>instantiate\<close> and \<open>restore\<close> of \<open>Vm/Controller.hpp\<close> and the listing of
    \<open>controller.cpp\<close> once more, as the statements that handler threads interleave, and the proof that
    one thread alone performs the operations of \<open>Vm_Controller\<close>. \<open>Concurrent_Node\<close> has the invariant of
    every interleaving, \<open>Node_Locking\<close> what the mutex of \<open>instantiate\<close> achieves (the phases of the locked
    section, and what each lets the other threads do), \<open>Node_Listing\<close> a listing among other requests,
    \<open>Node_Races\<close> (with the rules of \<open>Node_Scenes\<close>) what the lack of a lock in \<open>run\<close> permits.

  \<^bold>\<open>What is shown.\<close> Framing: \<open>Socket::read\<close> is the reference decoder, messages survive the trip, and
  the one message that does not end is characterised. Controller: the searches end at the least free id
  and port; \<open>instantiate\<close> creates exactly one machine, which a restart loads again; \<open>run\<close> and \<open>kill\<close> on
  every branch; an invariant of every reachable state. Remote calls: over a quiet connection each
  call of a proxy is the operation of its peer (for the client and the manager, and for the manager
  and its nodes), so a command typed at the client is the node's own operation. Manager: round
  robin, routing, echo of what cannot be served, the controllers it starts with. Input: whatever
  bytes reach a started node or manager, its invariant holds; a client that goes away is not
  noticed, and a node that has ended ends the manager. Threads: the clients of a manager are served
  as if one after another; a started thread ends and its object is deleted once; log lines are not
  mixed; a node never loses or overwrites a machine, never hands out one machine twice and misses
  none in a listing, but it can start one twice or give two machines one port. Several properties
  state faults of the code: a malformed request ends a node, a failed \<open>fork\<close> leads to a
  signal to every process, a reloaded machine cannot be stopped, and others.

  \<^bold>\<open>Bounds.\<close> Every loop is recursion with a measure (the bytes left to read, the distance to
  \<open>INT_MAX\<close>, the number of controllers left to try). Only the loop of a listing in \<open>Node_Threads\<close> is
  unrolled, \<open>n\<close> times, and its theorem asks that there are at most \<open>n\<close> machines. A handler's endless
  loop is run over the bytes that have arrived and ends in waiting for more. \<open>count_room\<close>, \<open>quiet\<close> and
  \<open>linked\<close> bound how many lines a connection may still count before the \<open>int\<close> counter of written
  lines overflows; the theorems name the cost of each call.

  \<^bold>\<open>Not modelled.\<close> \<open>include/libkvm.h\<close> is included but nothing in it is called. Signal disposition
  (\<open>SIGCHLD\<close>), file permissions and full disks, a directory opened as if it were a file, partial sends,
  what a write to a connection that the peer has closed leads to (\<open>SIGPIPE\<close>) and \<open>perror\<close> output are
  left out. Handlers of one program run one request at a time in \<open>Controller_Server\<close> and \<open>Manager\<close>;
  their interleaving is the subject of \<open>Concurrent_Manager\<close> and \<open>Node_Threads\<close>. There a statement is one
  step, also a search in the instances, although the unlocked look-ups of \<open>run\<close> and \<open>kill\<close> race with
  an insertion.
\<close>

end
